(* ===== verification/Prelude.thy ===== *)
theory Prelude
  imports "HOL-Library.Word" "HOL-Library.Signed_Division" "HOL-Library.Multiset"
begin

unbundle bit_operations_syntax

text \<open>
  Shared by every component: the machine integers of the program, error propagation through
  sums, loops that stop at the first error, decimal printing and the few facts on lists and
  words that several components need.

  A C++ \<open>uint32_t\<close>, \<open>int32_t\<close> or \<open>int\<close> whose width matters is a \<open>32 word\<close>, read with \<open>unat\<close>
  when the code compares it unsigned and with \<open>sint\<close> when it compares it signed;
  \<open>uint64_t\<close> is a \<open>64 word\<close>.
\<close>

type_synonym u8 = "8 word"
type_synonym u32 = "32 word"
type_synonym u64 = "64 word"

named_theorems bindE_elims \<open>inversions of successful error-propagating computations\<close>
named_theorems word_facts \<open>conversions between words and numbers\<close>

section \<open>Errors as sums\<close>

definition bindE :: "'e + 'a \<Rightarrow> ('a \<Rightarrow> 'e + 'b) \<Rightarrow> 'e + 'b" where
  "bindE m f = (case m of Inl e \<Rightarrow> Inl e | Inr x \<Rightarrow> f x)"

definition guardE :: "bool \<Rightarrow> 'e \<Rightarrow> 'e + unit" where
  "guardE b e = (if b then Inr () else Inl e)"

lemma bindE_simps [simp]:
  "bindE (Inl e) f = Inl e"
  "bindE (Inr x) f = f x"
  by (simp_all add: bindE_def)

lemma bindE_Inr_right [simp]: "bindE m Inr = m"
  by (cases m) auto

lemma bindE_cong [cong]: "m = m' \<Longrightarrow> (\<And>x. m' = Inr x \<Longrightarrow> f x = f' x) \<Longrightarrow> bindE m f = bindE m' f'"
  by (cases m') (auto simp: bindE_def)

lemma guardE_simps [simp]:
  "guardE True e = Inr ()"
  "guardE False e = Inl e"
  "guardE b e = Inr u \<longleftrightarrow> b"
  by (auto simp: guardE_def)

lemma bindE_Inr_iff [simp]: "bindE m f = Inr y \<longleftrightarrow> (\<exists>x. m = Inr x \<and> f x = Inr y)"
  by (cases m) auto

lemma bindE_Inl_iff: "bindE m f = Inl e \<longleftrightarrow> m = Inl e \<or> (\<exists>x. m = Inr x \<and> f x = Inl e)"
  by (cases m) auto

text \<open>A loop whose body may return early with an error.\<close>

fun foldE :: "('s \<Rightarrow> 'a \<Rightarrow> 'e + 's) \<Rightarrow> 's \<Rightarrow> 'a list \<Rightarrow> 'e + 's" where
  "foldE f s [] = Inr s"
| "foldE f s (x # xs) = bindE (f s x) (\<lambda>s'. foldE f s' xs)"

lemma foldE_append: "foldE f s (xs @ ys) = bindE (foldE f s xs) (\<lambda>s'. foldE f s' ys)"
  by (induction xs arbitrary: s) (auto simp: bindE_def split: sum.splits)

lemma foldE_invariant:
  assumes "foldE f s xs = Inr s'" and "I s"
    and "\<And>s x s'. x \<in> set xs \<Longrightarrow> I s \<Longrightarrow> f s x = Inr s' \<Longrightarrow> I s'"
  shows "I s'"
  using assms
proof (induction xs arbitrary: s)
  case (Cons x xs)
  from Cons.prems(1) obtain t where t: "f s x = Inr t" "foldE f t xs = Inr s'" by auto
  from t(1) Cons.prems(2,3) have "I t" by (meson list.set_intros(1))
  from t(2) this show ?case
    by (rule Cons.IH) (meson Cons.prems(3) list.set_intros(2))
qed simp

lemma foldE_total:
  assumes "I s" and "\<And>s x. x \<in> set xs \<Longrightarrow> I s \<Longrightarrow> \<exists>s'. f s x = Inr s' \<and> I s'"
  shows "\<exists>s'. foldE f s xs = Inr s' \<and> I s'"
  using assms
proof (induction xs arbitrary: s)
  case (Cons x xs)
  from Cons.prems obtain s' where "f s x = Inr s'" "I s'" by (meson list.set_intros(1))
  moreover have "\<exists>s''. foldE f s' xs = Inr s'' \<and> I s''"
    using \<open>I s'\<close> Cons.prems(2) by (intro Cons.IH) auto
  ultimately show ?case by auto
qed simp

lemma foldE_pure: "foldE (\<lambda>s x. Inr (g s x)) s xs = Inr (foldl g s xs)"
  by (induction xs arbitrary: s) auto

lemma foldE_cong [fundef_cong]:
  "s = s' \<Longrightarrow> xs = xs' \<Longrightarrow> (\<And>s x. x \<in> set xs' \<Longrightarrow> f s x = f' s x) \<Longrightarrow> foldE f s xs = foldE f' s' xs'"
  by (induction xs' arbitrary: s s' xs) (auto simp: bindE_def split: sum.splits)

text \<open>
  A loop \<open>for (i = 0; i < n; ++i)\<close> over an array of slots whose body rewrites slot \<open>i\<close>, issues
  calls and may abort.
\<close>

fun slot_loop :: "(nat \<Rightarrow> 'a \<Rightarrow> 'e + ('a \<times> 'c list)) \<Rightarrow> nat \<Rightarrow> 'a list \<Rightarrow> 'e + ('a list \<times> 'c list)" where
  "slot_loop f i [] = Inr ([], [])"
| "slot_loop f i (x # xs) =
     bindE (f i x) (\<lambda>(y, cs). bindE (slot_loop f (Suc i) xs) (\<lambda>(ys, cs'). Inr (y # ys, cs @ cs')))"

lemma slot_loop_length: "slot_loop f i xs = Inr (ys, cs) \<Longrightarrow> length ys = length xs"
  by (induction xs arbitrary: i ys cs) auto

lemma slot_loop_nth:
  "slot_loop f i xs = Inr (ys, cs) \<Longrightarrow> k < length xs \<Longrightarrow> \<exists>c. f (i + k) (xs ! k) = Inr (ys ! k, c) \<and> set c \<subseteq> set cs"
proof (induction xs arbitrary: i k ys cs)
  case (Cons x xs)
  then show ?case by (cases k) (fastforce simp flip: add_Suc_right)+
qed simp

lemma slot_loop_Inr:
  "(\<And>k. k < length xs \<Longrightarrow> \<exists>c. f (i + k) (xs ! k) = Inr (xs ! k, c) \<and> Q c) \<Longrightarrow> Q [] \<Longrightarrow>
   (\<And>c d. Q c \<Longrightarrow> Q d \<Longrightarrow> Q (c @ d)) \<Longrightarrow> \<exists>cs. slot_loop f i xs = Inr (xs, cs) \<and> Q cs"
proof (induction xs arbitrary: i)
  case (Cons x xs)
  from Cons.prems(1) [of 0] obtain c where c: "f i x = Inr (x, c)" "Q c" by auto
  have "\<exists>cs. slot_loop f (Suc i) xs = Inr (xs, cs) \<and> Q cs"
    using Cons.prems(1) [of "Suc _"] Cons.prems(2,3) by (intro Cons.IH) auto
  with c Cons.prems(3) show ?case by auto
qed simp

section \<open>Lists\<close>

lemma find_SomeD: "find P xs = Some x \<Longrightarrow> x \<in> set xs \<and> P x"
  by (induction xs) (auto split: if_splits)

lemma nth_list_update_cases: "i < length xs \<Longrightarrow> xs[i := v] ! j = (if i = j then v else xs ! j)"
  by (cases "i = j") auto

lemma sum_list_update_nat:
  "i < length xs \<Longrightarrow> sum_list (xs[i := v]) = sum_list xs - xs ! i + (v :: nat)"
proof (induction xs arbitrary: i)
  case (Cons x xs)
  then show ?case
  proof (cases i)
    case (Suc j)
    with Cons have "xs ! j \<le> sum_list xs" by (simp add: elem_le_sum_list)
    with Cons Suc show ?thesis by simp
  qed simp
qed simp

lemma length_takeWhile_less: "\<exists>x \<in> set xs. \<not> P x \<Longrightarrow> length (takeWhile P xs) < length xs"
  by (induction xs) auto

lemma sorted_wrt_last: "sorted_wrt (<) xs \<Longrightarrow> x \<in> set xs \<Longrightarrow> (x :: nat) \<le> last xs"
  by (induction xs) (auto simp: less_imp_le_nat)

lemma take_update_outside: "n \<le> i \<Longrightarrow> take n (xs[i := v]) = take n xs"
  by (simp add: take_update_swap list_update_beyond)

lemma all_splits_snoc:
  "(\<forall>pre x post. xs @ [y] = pre @ x # post \<longrightarrow> Q pre x) \<longleftrightarrow>
   (\<forall>pre x post. xs = pre @ x # post \<longrightarrow> Q pre x) \<and> Q xs y"
proof (intro iffI conjI allI impI)
  fix pre x post assume "(\<forall>pre x post. xs = pre @ x # post \<longrightarrow> Q pre x) \<and> Q xs y" "xs @ [y] = pre @ x # post"
  then show "Q pre x" by (cases post rule: rev_cases) (auto simp flip: append_Cons append_assoc)
qed auto

lemma sum_list_map_le:
  "(\<And>x. x \<in> set xs \<Longrightarrow> (f x :: nat) \<le> g x) \<Longrightarrow> (\<Sum>x\<leftarrow>xs. f x) \<le> (\<Sum>x\<leftarrow>xs. g x)"
  by (rule sum_list_mono)

section \<open>Words\<close>

lemma unat_of_nat_small [word_facts]:
  "n < 2 ^ LENGTH('a) \<Longrightarrow> unat (of_nat n :: 'a :: len word) = n"
  by (simp add: unat_of_nat take_bit_nat_eq_self)

lemma sint_of_nat_u32 [word_facts]: "n < 2 ^ 31 \<Longrightarrow> sint (of_nat n :: u32) = int n"
  by (simp add: signed_of_nat signed_take_bit_int_eq_self)

lemma sint_eq_unat_u32 [word_facts]: "unat (x :: u32) < 2 ^ 31 \<Longrightarrow> sint x = int (unat x)"
  using sint_of_nat_u32 [of "unat x"] by simp

lemma unat_u32_bound: "unat (x :: u32) < 2 ^ 32"
  using unsigned_less [of x, where ?'a = nat] by simp

lemma unat_u64_bound: "unat (x :: u64) < 2 ^ 64"
  using unsigned_less [of x, where ?'a = nat] by simp

lemma sint_of_nat_u32_high: "2 ^ 31 \<le> n \<Longrightarrow> n < 2 ^ 32 \<Longrightarrow> sint (of_nat n :: u32) = int n - 2 ^ 32"
proof -
  assume n: "2 ^ 31 \<le> n" "n < (2 :: nat) ^ 32"
  have "sint (of_nat n :: u32) = (int n + 2147483648) mod 4294967296 - 2147483648"
    by (simp add: signed_of_nat signed_take_bit_eq_take_bit_shift take_bit_eq_mod add.commute)
  also have "(int n + 2147483648) mod 4294967296 = (int n - 2147483648 + 4294967296) mod 4294967296"
    by (simp add: add.commute)
  also have "\<dots> = (int n - 2147483648) mod 4294967296" by (rule mod_add_self2)
  also have "\<dots> = int n - 2147483648" using n by (intro mod_pos_pos_trivial) auto
  finally show ?thesis by simp
qed

lemma sint_nonneg_u32: "0 \<le> sint (x :: u32) \<Longrightarrow> sint x = int (unat x)"
  using sint_eq_unat_u32 [of x] sint_of_nat_u32_high [of "unat x"] unat_u32_bound [of x]
    of_nat_less_iff [where 'a = int, of "unat x" "2 ^ 32"]
  by (cases "unat x < 2 ^ 31") auto

lemma ucast_of_nat_unat: "(ucast (x :: u32) :: u64) = of_nat (unat x)"
  by simp

lemma unat_ucast_u64: "unat (ucast (x :: u32) :: u64) = unat x"
  using unat_u32_bound [of x] by (subst ucast_of_nat_unat) (rule unat_of_nat_small, simp)

lemma scast_nonneg_u64: "0 \<le> sint (x :: u32) \<Longrightarrow> (scast x :: u64) = ucast x"
proof -
  assume "0 \<le> sint x"
  then have s: "sint x = int (unat x)" by (rule sint_nonneg_u32)
  have "(scast x :: u64) = of_int (sint x)" by simp
  also have "\<dots> = of_nat (unat x)" unfolding s by simp
  finally show ?thesis by simp
qed

lemma unat_plus_u32 [word_facts]:
  "unat a + unat b < 2 ^ 32 \<Longrightarrow> unat (a + b :: u32) = unat a + unat b"
  by (simp add: unat_word_ariths)

lemma unat_plus_u64 [word_facts]:
  "unat a + unat b < 2 ^ 64 \<Longrightarrow> unat (a + b :: u64) = unat a + unat b"
  by (simp add: unat_word_ariths)

lemma unat_plus_one_u32 [word_facts]: "unat a < 2 ^ 32 - 1 \<Longrightarrow> unat (a + 1 :: u32) = unat a + 1"
  using unat_plus_u32 [of a 1] by simp

section \<open>Decimal printing, as \<open>operator<<\<close> and \<open>%d\<close> do it\<close>

definition digit_char :: "nat \<Rightarrow> char" where
  "digit_char d = char_of (48 + d)"

fun dec_nat :: "nat \<Rightarrow> string" where
  "dec_nat n = (if n < 10 then [digit_char n] else dec_nat (n div 10) @ [digit_char (n mod 10)])"

declare dec_nat.simps [simp del]

definition dec_int :: "int \<Rightarrow> string" where
  "dec_int i = (if i < 0 then ''-'' @ dec_nat (nat (- i)) else dec_nat (nat i))"

definition is_digit :: "char \<Rightarrow> bool" where
  "is_digit c \<longleftrightarrow> 48 \<le> (of_char c :: nat) \<and> (of_char c :: nat) \<le> 57"

definition digit_val :: "char \<Rightarrow> nat" where
  "digit_val c = of_char c - 48"

fun digits_val :: "nat \<Rightarrow> string \<Rightarrow> nat" where
  "digits_val acc [] = acc"
| "digits_val acc (c # cs) = digits_val (10 * acc + digit_val c) cs"

lemma digit_char_props [simp]:
  "d < 10 \<Longrightarrow> is_digit (digit_char d)"
  "d < 10 \<Longrightarrow> digit_val (digit_char d) = d"
  by (auto simp: digit_char_def is_digit_def digit_val_def)

lemma digits_val_append: "digits_val acc (xs @ ys) = digits_val (digits_val acc xs) ys"
  by (induction xs arbitrary: acc) auto

lemma dec_nat_digits: "list_all is_digit (dec_nat n)"
proof (induction n rule: dec_nat.induct)
  case (1 n)
  then show ?case by (subst dec_nat.simps) auto
qed

lemma dec_nat_nonempty [simp]: "dec_nat n \<noteq> []"
  by (subst dec_nat.simps) auto

lemma digits_val_dec_nat [simp]: "digits_val 0 (dec_nat n) = n"
proof (induction n rule: dec_nat.induct)
  case (1 n)
  then show ?case by (subst dec_nat.simps) (auto simp: digits_val_append)
qed

lemma dec_nat_inj: "dec_nat m = dec_nat n \<longleftrightarrow> m = n"
  by (metis digits_val_dec_nat)

lemma dec_nat_small: "n < 10 \<Longrightarrow> dec_nat n = [digit_char n]"
  by (subst dec_nat.simps) simp

lemma not_digit_chars [simp]:
  "\<not> is_digit (CHR ''.'')" "\<not> is_digit (CHR ''/'')" "\<not> is_digit (CHR ''-'')"
  "\<not> is_digit (CHR '' '')" "\<not> is_digit (CHR ''+'')"
  by (simp_all add: is_digit_def)

end
