(* ===== verification/Rq_Header.thy ===== *)
theory Rq_Header
  imports Prelude
begin

text \<open>
  The RaptorQ packet header, \<open>ns3_apps/rq-header.h\<close> and \<open>ns3_apps/rq-header.cc\<close>: the fields, the
  two constructors, the accessors, printing, the serialised size, and serialisation to and
  from an ns-3 \<open>Buffer::Iterator\<close>.

  The iterator belongs to ns-3 and is a parameter: its four operations are arguments of
  \<open>Serialize\<close> and \<open>Deserialize\<close>. The locale \<open>buffer_iterator\<close> states what the ns-3 manual
  promises of them (a write appends the value in network byte order; a read returns the value
  whose network byte order lies ahead and moves past it), and \<open>net_bytes\<close> interprets it on byte
  lists.
\<close>

section \<open>The header\<close>

record RqHeader =
  m_valid :: bool
  m_seqno :: u64
  m_iseq_streamid :: u32
  m_iseq_data :: "u32 list"

definition MAGIC :: u32 where
  "MAGIC = 0x5271480d"

text \<open>The constructor of one argument: it ignores the argument.\<close>

definition RqHeader_null :: "u64 \<Rightarrow> RqHeader" where
  "RqHeader_null seqno =
     \<lparr>m_valid = False, m_seqno = 0, m_iseq_streamid = 0, m_iseq_data = []\<rparr>"

text \<open>The constructor of four arguments copies \<open>iseq_count\<close> values from the array.\<close>

definition RqHeader_make :: "u64 \<Rightarrow> u32 \<Rightarrow> nat \<Rightarrow> u32 list \<Rightarrow> RqHeader" where
  "RqHeader_make seqno iseq_streamid iseq_count iseq_data =
     \<lparr>m_valid = True, m_seqno = seqno, m_iseq_streamid = iseq_streamid,
      m_iseq_data = take iseq_count iseq_data\<rparr>"

definition IsValid :: "RqHeader \<Rightarrow> bool" where
  "IsValid h = m_valid h"

definition GetSeqno :: "RqHeader \<Rightarrow> u64" where
  "GetSeqno h = m_seqno h"

definition GetIseqStreamID :: "RqHeader \<Rightarrow> u32" where
  "GetIseqStreamID h = m_iseq_streamid h"

definition GetIseqData :: "RqHeader \<Rightarrow> u32 list" where
  "GetIseqData h = m_iseq_data h"

definition Print :: "RqHeader \<Rightarrow> string" where
  "Print h =
     ''RqHeader'' @ '' valid '' @ dec_nat (if m_valid h then 1 else 0)
     @ '' seqno '' @ dec_nat (unat (m_seqno h))
     @ '' iseq_streamid '' @ dec_int (sint (m_iseq_streamid h))
     @ '' iseq_data'' @ concat (map (\<lambda>x. '' '' @ dec_int (sint x)) (m_iseq_data h))
     @ [char_of (10 :: nat)]"

lemmas header_accessors [simp] =
  IsValid_def GetSeqno_def GetIseqStreamID_def GetIseqData_def

definition GetMinSerializedSize :: u32 where
  "GetMinSerializedSize = 4 + 8 + 4 + 4"

definition GetSerializedSize :: "RqHeader \<Rightarrow> u32" where
  "GetSerializedSize h = GetMinSerializedSize + 4 * of_nat (length (m_iseq_data h))"

section \<open>Serialisation\<close>

text \<open>The loop bound is the \<open>int\<close> that the vector's size converts to.\<close>

definition iseq_loop_bound :: "u32 \<Rightarrow> nat" where
  "iseq_loop_bound n = nat (sint n)"

definition Serialize ::
  "('w \<Rightarrow> u32 \<Rightarrow> 'w) \<Rightarrow> ('w \<Rightarrow> u64 \<Rightarrow> 'w) \<Rightarrow> RqHeader \<Rightarrow> 'w \<Rightarrow> 'w" where
  "Serialize WriteHtonU32 WriteHtonU64 h start =
     (let i = start;
          i = WriteHtonU32 i MAGIC;
          i = WriteHtonU64 i (m_seqno h);
          i = WriteHtonU32 i (m_iseq_streamid h);
          sz = of_nat (length (m_iseq_data h));
          i = WriteHtonU32 i sz
      in foldl WriteHtonU32 i (take (iseq_loop_bound sz) (m_iseq_data h)))"

fun read_iseq :: "('r \<Rightarrow> (u32 \<times> 'r) option) \<Rightarrow> nat \<Rightarrow> 'r \<Rightarrow> (u32 list \<times> 'r) option" where
  "read_iseq ReadNtohU32 0 i = Some ([], i)"
| "read_iseq ReadNtohU32 (Suc n) i =
     (case ReadNtohU32 i of None \<Rightarrow> None
      | Some (x, i') \<Rightarrow>
          (case read_iseq ReadNtohU32 n i' of None \<Rightarrow> None
           | Some (xs, i'') \<Rightarrow> Some (x # xs, i'')))"

text \<open>
  \<open>None\<close> is the abort of an ns-3 read past the end of the buffer. \<open>Deserialize\<close> overwrites an
  existing header: it clears the data and the sequence number first, and leaves the stream id
  of a packet that does not start with the magic number as it was.
\<close>

definition Deserialize ::
  "('r \<Rightarrow> (u32 \<times> 'r) option) \<Rightarrow> ('r \<Rightarrow> (u64 \<times> 'r) option) \<Rightarrow> RqHeader \<Rightarrow> 'r
     \<Rightarrow> (RqHeader \<times> u32) option" where
  "Deserialize ReadNtohU32 ReadNtohU64 h0 start =
     (let h = h0\<lparr>m_iseq_data := [], m_seqno := 0\<rparr>
      in case ReadNtohU32 start of None \<Rightarrow> None
         | Some (magic, i) \<Rightarrow>
             (let h = h\<lparr>m_valid := (magic = MAGIC)\<rparr>
              in if \<not> m_valid h then Some (h, 4)
                 else case ReadNtohU64 i of None \<Rightarrow> None
                 | Some (seqno, i) \<Rightarrow>
                   (case ReadNtohU32 i of None \<Rightarrow> None
                    | Some (streamid, i) \<Rightarrow>
                      (case ReadNtohU32 i of None \<Rightarrow> None
                       | Some (sz, i) \<Rightarrow>
                         (case read_iseq ReadNtohU32 (iseq_loop_bound sz) i of None \<Rightarrow> None
                          | Some (xs, i) \<Rightarrow>
                              (let h = h\<lparr>m_seqno := seqno, m_iseq_streamid := streamid,
                                         m_iseq_data := xs\<rparr>
                               in Some (h, GetSerializedSize h)))))))"

section \<open>Network byte order\<close>

definition be32 :: "u32 \<Rightarrow> u8 list" where
  "be32 x = map (\<lambda>k. ucast (drop_bit k x)) [24, 16, 8, 0]"

definition be64 :: "u64 \<Rightarrow> u8 list" where
  "be64 x = map (\<lambda>k. ucast (drop_bit k x)) [56, 48, 40, 32, 24, 16, 8, 0]"

lemma length_be [simp]: "length (be32 x) = 4" "length (be64 y) = 8"
  by (simp_all add: be32_def be64_def)

text \<open>The interface of the ns-3 iterator.\<close>

locale buffer_iterator =
  fixes WriteHtonU32 :: "'w \<Rightarrow> u32 \<Rightarrow> 'w"
    and WriteHtonU64 :: "'w \<Rightarrow> u64 \<Rightarrow> 'w"
    and ReadNtohU32 :: "'r \<Rightarrow> (u32 \<times> 'r) option"
    and ReadNtohU64 :: "'r \<Rightarrow> (u64 \<times> 'r) option"
    and written :: "'w \<Rightarrow> u8 list"
    and ahead :: "'r \<Rightarrow> u8 list"
  assumes write32: "written (WriteHtonU32 i x) = written i @ be32 x"
    and write64: "written (WriteHtonU64 i y) = written i @ be64 y"
    and read32: "ahead j = be32 x @ rest \<Longrightarrow> \<exists>j'. ReadNtohU32 j = Some (x, j') \<and> ahead j' = rest"
    and read64: "ahead j = be64 y @ rest \<Longrightarrow> \<exists>j'. ReadNtohU64 j = Some (y, j') \<and> ahead j' = rest"
begin

lemma write32_list: "written (foldl WriteHtonU32 i xs) = written i @ concat (map be32 xs)"
  by (induction xs arbitrary: i) (auto simp: write32)

lemma written_Serialize:
  assumes "length (m_iseq_data h) < 2 ^ 31"
  shows "written (Serialize WriteHtonU32 WriteHtonU64 h start) =
    written start @ be32 MAGIC @ be64 (m_seqno h) @ be32 (m_iseq_streamid h)
      @ be32 (of_nat (length (m_iseq_data h))) @ concat (map be32 (m_iseq_data h))"
  using assms
  by (simp add: Serialize_def Let_def write32 write64 write32_list iseq_loop_bound_def sint_of_nat_u32)

lemma read_iseq_data:
  "ahead j = concat (map be32 xs) @ rest \<Longrightarrow>
     \<exists>j'. read_iseq ReadNtohU32 (length xs) j = Some (xs, j') \<and> ahead j' = rest"
proof (induction xs arbitrary: j)
  case (Cons x xs)
  from Cons.prems have "ahead j = be32 x @ (concat (map be32 xs) @ rest)" by simp
  from read32 [OF this] obtain j' where j': "ReadNtohU32 j = Some (x, j')"
    "ahead j' = concat (map be32 xs) @ rest" by blast
  from Cons.IH [OF j'(2)] j'(1) show ?case by auto
qed simp

lemma Deserialize_bytes:
  fixes h h0 :: RqHeader
  assumes len: "length (m_iseq_data h) < 2 ^ 31"
    and j: "ahead j = be32 MAGIC @ be64 (m_seqno h) @ be32 (m_iseq_streamid h)
      @ be32 (of_nat (length (m_iseq_data h))) @ concat (map be32 (m_iseq_data h)) @ rest"
  shows "Deserialize ReadNtohU32 ReadNtohU64 h0 j =
    Some (h\<lparr>m_valid := True\<rparr>, GetSerializedSize h)"
proof -
  from read32 [OF j] obtain j1 where j1: "ReadNtohU32 j = Some (MAGIC, j1)"
    "ahead j1 = be64 (m_seqno h) @ be32 (m_iseq_streamid h)
      @ be32 (of_nat (length (m_iseq_data h))) @ concat (map be32 (m_iseq_data h)) @ rest"
    by blast
  from read64 [OF j1(2)] obtain j2 where j2: "ReadNtohU64 j1 = Some (m_seqno h, j2)"
    "ahead j2 = be32 (m_iseq_streamid h)
      @ be32 (of_nat (length (m_iseq_data h))) @ concat (map be32 (m_iseq_data h)) @ rest"
    by blast
  from read32 [OF j2(2)] obtain j3 where j3: "ReadNtohU32 j2 = Some (m_iseq_streamid h, j3)"
    "ahead j3 = be32 (of_nat (length (m_iseq_data h))) @ concat (map be32 (m_iseq_data h)) @ rest"
    by blast
  from read32 [OF j3(2)] obtain j4 where
    j4: "ReadNtohU32 j3 = Some (of_nat (length (m_iseq_data h)), j4)"
    "ahead j4 = concat (map be32 (m_iseq_data h)) @ rest" by blast
  from read_iseq_data [OF j4(2)] obtain j5 where
    j5: "read_iseq ReadNtohU32 (length (m_iseq_data h)) j4 = Some (m_iseq_data h, j5)" by blast
  show ?thesis
    using len j1(1) j2(1) j3(1) j4(1) j5
    by (simp add: Deserialize_def iseq_loop_bound_def sint_of_nat_u32 GetSerializedSize_def)
qed

end

text \<open>The size promised by \<open>GetSerializedSize\<close> is the number of bytes \<open>Serialize\<close> writes.\<close>

lemma unat_GetSerializedSize:
  assumes "20 + 4 * length (m_iseq_data h) < 2 ^ 32"
  shows "unat (GetSerializedSize h) = 20 + 4 * length (m_iseq_data h)"
proof -
  have "GetSerializedSize h = of_nat (20 + 4 * length (m_iseq_data h))"
    by (simp add: GetSerializedSize_def GetMinSerializedSize_def)
  moreover have "unat (of_nat (20 + 4 * length (m_iseq_data h)) :: u32) = 20 + 4 * length (m_iseq_data h)"
    using assms by (intro unat_of_nat_small) simp
  ultimately show ?thesis by (simp only:)
qed

section \<open>Byte lists as buffers\<close>

definition unbe32 :: "u8 list \<Rightarrow> u32" where
  "unbe32 bs = foldl (\<lambda>acc b. push_bit 8 acc OR ucast b) 0 bs"

definition unbe64 :: "u8 list \<Rightarrow> u64" where
  "unbe64 bs = foldl (\<lambda>acc b. push_bit 8 acc OR ucast b) 0 bs"

definition net_write32 :: "u8 list \<Rightarrow> u32 \<Rightarrow> u8 list" where
  "net_write32 b x = b @ be32 x"

definition net_write64 :: "u8 list \<Rightarrow> u64 \<Rightarrow> u8 list" where
  "net_write64 b x = b @ be64 x"

definition net_read32 :: "u8 list \<Rightarrow> (u32 \<times> u8 list) option" where
  "net_read32 b = (if length b < 4 then None else Some (unbe32 (take 4 b), drop 4 b))"

definition net_read64 :: "u8 list \<Rightarrow> (u64 \<times> u8 list) option" where
  "net_read64 b = (if length b < 8 then None else Some (unbe64 (take 8 b), drop 8 b))"

lemma join_byte:
  "push_bit 8 (drop_bit (k + 8) x) OR ucast (ucast (drop_bit k x) :: u8) = drop_bit k (x :: 'a :: len word)"
proof (rule bit_word_eqI)
  fix n
  assume n: "n < LENGTH('a)"
  show "bit (push_bit 8 (drop_bit (k + 8) x) OR ucast (ucast (drop_bit k x) :: u8)) n = bit (drop_bit k x) n"
  proof (cases "n < 8")
    case True
    with n show ?thesis by (simp add: bit_simps)
  next
    case False
    then have "k + 8 + (n - 8) = k + n" by simp
    with n False show ?thesis by (simp add: bit_simps)
  qed
qed

lemma top_byte:
  "ucast (ucast (drop_bit 24 (x :: u32)) :: u8) = drop_bit 24 x"
  "ucast (ucast (drop_bit 56 (y :: u64)) :: u8) = drop_bit 56 y"
  by (rule bit_word_eqI; auto simp: bit_simps dest: bit_imp_le_length)+

lemma unbe32_be32: "unbe32 (be32 x) = x"
  using join_byte [of 16 x] join_byte [of 8 x] join_byte [of 0 x]
  by (simp add: unbe32_def be32_def top_byte)

lemma unbe64_be64: "unbe64 (be64 x) = x"
  using join_byte [of 48 x] join_byte [of 40 x] join_byte [of 32 x] join_byte [of 24 x]
    join_byte [of 16 x] join_byte [of 8 x] join_byte [of 0 x]
  by (simp add: unbe64_def be64_def top_byte)

interpretation net_bytes: buffer_iterator net_write32 net_write64 net_read32 net_read64
    "\<lambda>b. b" "\<lambda>b. b"
  by unfold_locales
    (auto simp: net_write32_def net_write64_def net_read32_def net_read64_def
      unbe32_be32 unbe64_be64)

section \<open>Properties\<close>

text \<open>
  C7. Round trip of the RaptorQ header. Under the documented behaviour of the ns-3 buffer
  iterator, reading back what \<open>Serialize\<close> wrote into an empty buffer, whatever bytes follow it
  and whatever header object it is read into, gives every field of the header again with
  \<open>m_valid\<close> set; \<open>Deserialize\<close> returns \<open>GetSerializedSize\<close>, which is exactly the number of bytes
  written.
\<close>

theorem header_roundtrip:
  fixes h h0 :: RqHeader
  assumes ops: "buffer_iterator WriteHtonU32 WriteHtonU64 ReadNtohU32 ReadNtohU64 written ahead"
    and len: "length (m_iseq_data h) < 2 ^ 28"
    and start: "written start = []"
    and j: "ahead j = written (Serialize WriteHtonU32 WriteHtonU64 h start) @ rest"
  shows "Deserialize ReadNtohU32 ReadNtohU64 h0 j = Some (h\<lparr>m_valid := True\<rparr>, GetSerializedSize h)
    \<and> length (written (Serialize WriteHtonU32 WriteHtonU64 h start)) = unat (GetSerializedSize h)"
proof -
  have len31: "length (m_iseq_data h) < 2 ^ 31" using len by simp
  note w = buffer_iterator.written_Serialize [OF ops len31, of start]
  have "length (concat (map be32 xs)) = 4 * length xs" for xs
    by (induction xs) auto
  with w start len have "length (written (Serialize WriteHtonU32 WriteHtonU64 h start))
      = unat (GetSerializedSize h)"
    by (simp add: unat_GetSerializedSize)
  moreover have "Deserialize ReadNtohU32 ReadNtohU64 h0 j
      = Some (h\<lparr>m_valid := True\<rparr>, GetSerializedSize h)"
    by (rule buffer_iterator.Deserialize_bytes [OF ops len31]) (simp add: j w start)
  ultimately show ?thesis by simp
qed

theorem header_roundtrip_witness:
  "Deserialize net_read32 net_read64 (RqHeader_null 0)
      (Serialize net_write32 net_write64 (RqHeader_make 7 1 2 [3, 5, 0]) [] @ [9])
    = Some (RqHeader_make 7 1 2 [3, 5, 0], GetSerializedSize (RqHeader_make 7 1 2 [3, 5, 0]))"
  using header_roundtrip [OF net_bytes.buffer_iterator_axioms,
      of "RqHeader_make 7 1 2 [3, 5, 0]" "[]" _ "[9]" "RqHeader_null 0"]
  by (simp add: RqHeader_make_def)

end
