(* ===== verification/Ns3_Env.thy ===== *)
theory Ns3_Env
  imports Prelude
begin

text \<open>
  What the applications see of ns-3. The simulator and its sockets are not part of this
  repository, so a handler's model takes what ns-3 answers as arguments and returns the calls
  it makes as data: \<open>sock_call\<close> lists the socket operations the applications call, \<open>fault\<close> the ways
  a run is aborted, \<open>Address\<close> the address classes the code tells apart, \<open>attr_value\<close> and
  \<open>attr_spec\<close> what a \<open>TypeId\<close> registers for an attribute.
\<close>

section \<open>Aborted runs\<close>

datatype fault =
    FatalError string    \<comment> \<open>\<open>NS_FATAL_ERROR\<close>\<close>
  | AbortMsg string      \<comment> \<open>\<open>NS_ABORT_MSG\<close>\<close>
  | AssertFail           \<comment> \<open>\<open>NS_ASSERT\<close> and \<open>assert\<close>\<close>
  | OutOfBounds          \<comment> \<open>an array or vector index outside its bounds\<close>
  | NullPointer          \<comment> \<open>a null \<open>Ptr\<close> dereferenced\<close>
  | UncaughtException string
  | ArithmeticError      \<comment> \<open>a division by zero or a shift by the width of the operand or more\<close>
  | Diverges             \<comment> \<open>a loop that does not end: the call does not return\<close>

section \<open>Addresses and sockets\<close>

datatype Address =
    NoAddress
  | Ipv4Addr u32
  | InetAddr u32 "16 word"
  | Inet6Addr nat "16 word"
  | PacketAddr nat

definition IsInvalid :: "Address \<Rightarrow> bool" where
  "IsInvalid a \<longleftrightarrow> a = NoAddress"

fun is_inet :: "Address \<Rightarrow> bool" where
  "is_inet (InetAddr _ _) = True"
| "is_inet _ = False"

fun is_inet6 :: "Address \<Rightarrow> bool" where
  "is_inet6 (Inet6Addr _ _) = True"
| "is_inet6 _ = False"

fun is_packet_addr :: "Address \<Rightarrow> bool" where
  "is_packet_addr (PacketAddr _) = True"
| "is_packet_addr _ = False"

type_synonym TypeId = string
type_synonym sock = nat

text \<open>\<open>'h\<close> names the member functions a class installs as callbacks; \<open>None\<close> is a null callback.\<close>

datatype 'h sock_call =
    CreateSocket TypeId sock
  | Bind sock Address
  | BindAny sock
  | Bind6 sock
  | Listen sock
  | MulticastJoinGroup sock Address
  | Connect sock Address
  | SetAllowBroadcast sock bool
  | ShutdownRecv sock
  | SetRecvCallback sock "'h option"
  | SetAcceptCallback sock "'h option" "'h option"
  | SetCloseCallbacks sock 'h 'h
  | SetConnectCallback sock 'h 'h
  | SetSendCallback sock 'h
  | Recv sock
  | Close sock

fun closes :: "'h sock_call list \<Rightarrow> sock list" where
  "closes [] = []"
| "closes (Close s # cs) = s # closes cs"
| "closes (_ # cs) = closes cs"

fun created :: "'h sock_call list \<Rightarrow> sock list" where
  "created [] = []"
| "created (CreateSocket t s # cs) = s # created cs"
| "created (_ # cs) = created cs"

lemma closes_append [simp]: "closes (xs @ ys) = closes xs @ closes ys"
  by (induction xs rule: closes.induct) auto

lemma created_append [simp]: "created (xs @ ys) = created xs @ created ys"
  by (induction xs rule: created.induct) auto

lemma closes_map_Close [simp]: "closes (map Close xs) = xs"
  by (induction xs) auto

lemma closes_Nil_iff: "closes cs = [] \<longleftrightarrow> (\<forall>s. Close s \<notin> set cs)"
  by (induction cs rule: closes.induct) auto

text \<open>What ns-3 answers while an application creates its sockets, per slot.\<close>

record sock_env =
  new_sock :: "nat \<Rightarrow> sock"
  bind_result :: "nat \<Rightarrow> int"
  is_udp :: "nat \<Rightarrow> bool"
  is_multicast :: "Address \<Rightarrow> bool"

section \<open>Attributes\<close>

datatype attr_value =
    AddressValue Address
  | TypeIdValue TypeId
  | UintegerValue nat
  | DataRateValue string
  | StringValue string

text \<open>An attribute's name, its initial value and the smallest value its checker accepts.\<close>

type_synonym attr_spec = "string \<times> attr_value \<times> nat option"

text \<open>The promise of an attribute accessor: a get returns what the last set of that attribute
  stored, and a set changes no other attribute.\<close>

locale attr_store =
  fixes set_attr :: "'n \<Rightarrow> 'v \<Rightarrow> 'o \<Rightarrow> 'o"
    and get_attr :: "'n \<Rightarrow> 'o \<Rightarrow> 'v"
    and known :: "'n \<Rightarrow> 'o \<Rightarrow> bool"
  assumes get_set: "known n ob \<Longrightarrow> get_attr n (set_attr n v ob) = v"
    and get_set_other: "n \<noteq> m \<Longrightarrow> get_attr m (set_attr n v ob) = get_attr m ob"
    and known_set: "known m (set_attr n v ob) = known m ob"
begin

definition set_all :: "('n \<times> 'v) list \<Rightarrow> 'o \<Rightarrow> 'o" where
  "set_all kvs ob = foldl (\<lambda>ob kv. set_attr (fst kv) (snd kv) ob) ob kvs"

lemma known_set_all: "known m (set_all kvs ob) = known m ob"
  unfolding set_all_def by (induction kvs arbitrary: ob) (auto simp: known_set)

lemma get_set_all:
  assumes "known n ob"
  shows "get_attr n (set_all kvs ob) = (case map_of (rev kvs) n of None \<Rightarrow> get_attr n ob | Some v \<Rightarrow> v)"
  using assms
proof (induction kvs rule: rev_induct)
  case Nil
  show ?case by (simp add: set_all_def)
next
  case (snoc kv kvs)
  have "set_all (kvs @ [kv]) ob = set_attr (fst kv) (snd kv) (set_all kvs ob)"
    by (simp add: set_all_def)
  with snoc show ?case
    by (cases kv; cases "fst kv = n") (auto simp: get_set get_set_other known_set_all)
qed

end

end
