(* ===== verification/Proxy_Base.thy ===== *)
theory Proxy_Base
  imports Ns3_Env
begin

text \<open>
  \<open>ProxyBase\<close>, \<open>ns3_apps/proxy-base.h\<close> and \<open>ns3_apps/proxy-base.cc\<close>: the receive and transmit
  slots every proxy application has, their set-up and shutdown, the byte totals, the virtual
  handlers with their default behaviour, and the attributes that give access to the slots.
  A subclass extends the record \<open>ProxyBase\<close>.
\<close>

section \<open>State\<close>

record RxSlot =
  rx_addr :: Address
  listen_sock :: "sock option"
  accepted_socks :: "sock list"
  rx_tid :: TypeId
  rx_total :: u64

record TxSlot =
  tx_addr :: Address
  tx_sock :: "sock option"
  tx_tid :: TypeId
  connected :: bool
  tx_total :: u64

record ProxyBase =
  m_rxSlots :: "RxSlot list"
  m_txSlots :: "TxSlot list"

definition RX_SLOT_COUNT :: nat where
  "RX_SLOT_COUNT = 8"

definition TX_SLOT_COUNT :: nat where
  "TX_SLOT_COUNT = 8"

lemmas slot_counts [simp] = RX_SLOT_COUNT_def TX_SLOT_COUNT_def

definition init_RxSlot :: RxSlot where
  "init_RxSlot = \<lparr>rx_addr = NoAddress, listen_sock = None, accepted_socks = [], rx_tid = '''', rx_total = 0\<rparr>"

definition init_TxSlot :: TxSlot where
  "init_TxSlot = \<lparr>tx_addr = NoAddress, tx_sock = None, tx_tid = '''', connected = False, tx_total = 0\<rparr>"

definition init_ProxyBase :: ProxyBase where
  "init_ProxyBase = \<lparr>m_rxSlots = replicate RX_SLOT_COUNT init_RxSlot,
                     m_txSlots = replicate TX_SLOT_COUNT init_TxSlot\<rparr>"

definition wf_slots :: "'a ProxyBase_scheme \<Rightarrow> bool" where
  "wf_slots p \<longleftrightarrow> length (m_rxSlots p) = RX_SLOT_COUNT \<and> length (m_txSlots p) = TX_SLOT_COUNT"

lemma replicate_8: "replicate 8 x = [x, x, x, x, x, x, x, x]"
  by (simp add: numeral_eq_Suc)

lemma wf_init_ProxyBase: "wf_slots init_ProxyBase"
  by (simp add: wf_slots_def init_ProxyBase_def)

section \<open>Byte totals\<close>

definition GetTotalRx :: "'a ProxyBase_scheme \<Rightarrow> u64" where
  "GetTotalRx p = foldl (\<lambda>tot i. tot + rx_total (m_rxSlots p ! i)) 0 [0..<RX_SLOT_COUNT]"

definition GetTotalTx :: "'a ProxyBase_scheme \<Rightarrow> u64" where
  "GetTotalTx p = foldl (\<lambda>tot i. tot + tx_total (m_txSlots p ! i)) 0 [0..<TX_SLOT_COUNT]"

section \<open>Attributes\<close>

definition ProxyBase_attributes :: "attr_spec list" where
  "ProxyBase_attributes =
     map (\<lambda>i. (''RxAddr'' @ dec_nat i, AddressValue NoAddress, None)) [0..<RX_SLOT_COUNT]
     @ map (\<lambda>i. (''TxAddr'' @ dec_nat i, AddressValue NoAddress, None)) [0..<TX_SLOT_COUNT]"

definition ProxyBase_trace_sources :: "string list" where
  "ProxyBase_trace_sources = [''Rx'', ''RxWithAddresses'', ''Tx'', ''TxWithAddresses'']"

definition SetTidDefaultProtocols :: "TypeId \<Rightarrow> TypeId \<Rightarrow> attr_spec list" where
  "SetTidDefaultProtocols rx tx =
     map (\<lambda>i. (''ProtocolRx'' @ dec_nat i, TypeIdValue rx, None)) [0..<RX_SLOT_COUNT]
     @ map (\<lambda>i. (''ProtocolTx'' @ dec_nat i, TypeIdValue tx, None)) [0..<TX_SLOT_COUNT]"

definition Addr_DoSet :: "bool \<Rightarrow> nat \<Rightarrow> Address \<Rightarrow> 'a ProxyBase_scheme \<Rightarrow> 'a ProxyBase_scheme" where
  "Addr_DoSet isTx index v p =
     (if isTx then p\<lparr>m_txSlots := (m_txSlots p)[index := (m_txSlots p ! index)\<lparr>tx_addr := v\<rparr>]\<rparr>
      else p\<lparr>m_rxSlots := (m_rxSlots p)[index := (m_rxSlots p ! index)\<lparr>rx_addr := v\<rparr>]\<rparr>)"

definition Addr_DoGet :: "bool \<Rightarrow> nat \<Rightarrow> 'a ProxyBase_scheme \<Rightarrow> Address" where
  "Addr_DoGet isTx index p =
     (if isTx then tx_addr (m_txSlots p ! index) else rx_addr (m_rxSlots p ! index))"

definition Proto_DoSet :: "bool \<Rightarrow> nat \<Rightarrow> TypeId \<Rightarrow> 'a ProxyBase_scheme \<Rightarrow> 'a ProxyBase_scheme" where
  "Proto_DoSet isTx index v p =
     (if isTx then p\<lparr>m_txSlots := (m_txSlots p)[index := (m_txSlots p ! index)\<lparr>tx_tid := v\<rparr>]\<rparr>
      else p\<lparr>m_rxSlots := (m_rxSlots p)[index := (m_rxSlots p ! index)\<lparr>rx_tid := v\<rparr>]\<rparr>)"

definition Proto_DoGet :: "bool \<Rightarrow> nat \<Rightarrow> 'a ProxyBase_scheme \<Rightarrow> TypeId" where
  "Proto_DoGet isTx index p =
     (if isTx then tx_tid (m_txSlots p ! index) else rx_tid (m_rxSlots p ! index))"

definition slot_known :: "bool \<times> nat \<Rightarrow> 'a ProxyBase_scheme \<Rightarrow> bool" where
  "slot_known n p \<longleftrightarrow> snd n < length (m_txSlots p) \<and> snd n < length (m_rxSlots p)"

text \<open>Out of range \<open>set\<close>s are no-ops of \<open>list_update\<close>; an accessor's index is always in range,
  because \<open>GetTypeId\<close> builds one accessor per slot.\<close>

interpretation addr_attr: attr_store "\<lambda>n. Addr_DoSet (fst n) (snd n)" "\<lambda>n. Addr_DoGet (fst n) (snd n)"
    slot_known
  by unfold_locales
    (auto simp: Addr_DoSet_def Addr_DoGet_def slot_known_def prod_eq_iff)

interpretation proto_attr: attr_store "\<lambda>n. Proto_DoSet (fst n) (snd n)" "\<lambda>n. Proto_DoGet (fst n) (snd n)"
    slot_known
  by unfold_locales
    (auto simp: Proto_DoSet_def Proto_DoGet_def slot_known_def prod_eq_iff)

section \<open>Starting\<close>

datatype proxy_cb =
    HandleReadCb nat | HandleAcceptCb nat | HandlePeerCloseCb nat | HandlePeerErrorCb nat
  | ConnectionSucceededCb nat | ConnectionFailedCb nat | HandleSendCb nat | HandleBackReadCb

type_synonym proxy_call = "proxy_cb sock_call"

definition start_rx_socket ::
  "sock_env \<Rightarrow> nat \<Rightarrow> RxSlot \<Rightarrow> fault + (RxSlot \<times> proxy_call list)" where
  "start_rx_socket env i sl =
     (let s = new_sock env i; a = rx_addr sl
      in bindE (guardE (bind_result env i \<noteq> -1) (FatalError ''Failed to bind socket'')) (\<lambda>_.
         bindE (guardE (is_multicast env a \<longrightarrow> is_udp env i)
                  (FatalError ''Error: joining multicast on a non-UDP socket'')) (\<lambda>_.
         Inr (sl\<lparr>listen_sock := Some s\<rparr>,
              [CreateSocket (rx_tid sl) s, Bind s a, Listen s]
              @ (if is_multicast env a then [MulticastJoinGroup s a] else [])))))"

definition rx_callbacks :: "nat \<Rightarrow> sock \<Rightarrow> proxy_call list" where
  "rx_callbacks i s =
     [SetRecvCallback s (Some (HandleReadCb i)),
      SetAcceptCallback s None (Some (HandleAcceptCb i)),
      SetCloseCallbacks s (HandlePeerCloseCb i) (HandlePeerErrorCb i)]"

definition start_rx_slot ::
  "sock_env \<Rightarrow> nat \<Rightarrow> RxSlot \<Rightarrow> fault + (RxSlot \<times> proxy_call list)" where
  "start_rx_slot env i sl =
     (if IsInvalid (rx_addr sl) then Inr (sl, [])
      else bindE (case listen_sock sl of None \<Rightarrow> start_rx_socket env i sl
                  | Some s \<Rightarrow> Inr (sl, [])) (\<lambda>(sl', cs).
           Inr (sl', cs @ rx_callbacks i (the (listen_sock sl')))))"

definition start_tx_slot ::
  "sock_env \<Rightarrow> nat \<Rightarrow> TxSlot \<Rightarrow> fault + (TxSlot \<times> proxy_call list)" where
  "start_tx_slot env i sl =
     (if IsInvalid (tx_addr sl) then Inr (sl, [])
      else case tx_sock sl of Some _ \<Rightarrow> Inr (sl, [])
      | None \<Rightarrow>
        (let s = new_sock env (RX_SLOT_COUNT + i); a = tx_addr sl;
             binds = is_inet6 a \<or> is_inet a \<or> is_packet_addr a
         in bindE (guardE (binds \<longrightarrow> bind_result env (RX_SLOT_COUNT + i) \<noteq> -1)
                     (FatalError ''Failed to bind socket'')) (\<lambda>_.
            Inr (sl\<lparr>tx_sock := Some s\<rparr>,
                 [CreateSocket (tx_tid sl) s]
                 @ (if is_inet6 a then [Bind6 s]
                    else if is_inet a \<or> is_packet_addr a then [BindAny s] else [])
                 @ [Connect s a, SetAllowBroadcast s True,
                    SetConnectCallback s (ConnectionSucceededCb i) (ConnectionFailedCb i),
                    SetSendCallback s (HandleSendCb i),
                    SetRecvCallback s (Some HandleBackReadCb)]))))"

text \<open>The two loops over the slots. In \<open>sock_env\<close> the transmit slots are numbered after the
  receive slots, so that the answers for the two kinds are independent.\<close>

definition StartApplication ::
  "sock_env \<Rightarrow> 'a ProxyBase_scheme \<Rightarrow> fault + 'a ProxyBase_scheme \<times> proxy_call list" where
  "StartApplication env p =
     bindE (slot_loop (start_rx_slot env) 0 (m_rxSlots p)) (\<lambda>(rxs, cs).
     bindE (slot_loop (start_tx_slot env) 0 (m_txSlots p)) (\<lambda>(txs, cs').
       Inr (p\<lparr>m_rxSlots := rxs, m_txSlots := txs\<rparr>, cs @ cs')))"

section \<open>Stopping and disposal\<close>

text \<open>The \<open>while\<close> loop closes the accepted sockets from the back of the list.\<close>

fun close_accepted :: "sock list \<Rightarrow> proxy_call list" where
  "close_accepted socks =
     (if socks = [] then [] else Close (last socks) # close_accepted (butlast socks))"

declare close_accepted.simps [simp del]

definition stop_rx_slot :: "RxSlot \<Rightarrow> RxSlot \<times> proxy_call list" where
  "stop_rx_slot sl =
     (sl\<lparr>accepted_socks := []\<rparr>,
      close_accepted (accepted_socks sl)
      @ (case listen_sock sl of None \<Rightarrow> [] | Some s \<Rightarrow> [Close s, SetRecvCallback s None]))"

definition stop_tx_slot :: "TxSlot \<Rightarrow> proxy_call list" where
  "stop_tx_slot sl = (case tx_sock sl of None \<Rightarrow> [] | Some s \<Rightarrow> [Close s])"

definition StopApplication :: "'a ProxyBase_scheme \<Rightarrow> 'a ProxyBase_scheme \<times> proxy_call list" where
  "StopApplication p =
     (p\<lparr>m_rxSlots := map (fst \<circ> stop_rx_slot) (m_rxSlots p)\<rparr>,
      concat (map (snd \<circ> stop_rx_slot) (m_rxSlots p)) @ concat (map stop_tx_slot (m_txSlots p)))"

definition DoDispose :: "'a ProxyBase_scheme \<Rightarrow> 'a ProxyBase_scheme" where
  "DoDispose p =
     p\<lparr>m_rxSlots := map (\<lambda>sl. sl\<lparr>listen_sock := None, accepted_socks := [], rx_total := 0\<rparr>) (m_rxSlots p),
       m_txSlots := map (\<lambda>sl. sl\<lparr>tx_sock := None, connected := False, tx_total := 0\<rparr>) (m_txSlots p)\<rparr>"

section \<open>Handlers\<close>

definition ConnectionSucceeded :: "nat \<Rightarrow> 'a ProxyBase_scheme \<Rightarrow> 'a ProxyBase_scheme" where
  "ConnectionSucceeded slotID p =
     p\<lparr>m_txSlots := (m_txSlots p)[slotID := (m_txSlots p ! slotID)\<lparr>connected := True\<rparr>]\<rparr>"

definition ConnectionFailed :: "nat \<Rightarrow> 'a ProxyBase_scheme \<Rightarrow> 'a ProxyBase_scheme" where
  "ConnectionFailed slotID p = p"

definition HandleAccept ::
  "nat \<Rightarrow> sock \<Rightarrow> 'a ProxyBase_scheme \<Rightarrow> 'a ProxyBase_scheme \<times> proxy_call list" where
  "HandleAccept slotID s p =
     (let sl = m_rxSlots p ! slotID
      in (p\<lparr>m_rxSlots := (m_rxSlots p)[slotID := sl\<lparr>accepted_socks := accepted_socks sl @ [s]\<rparr>]\<rparr>,
          [SetRecvCallback s (Some (HandleReadCb slotID))]))"

definition HandlePeerClose :: "nat \<Rightarrow> 'a ProxyBase_scheme \<Rightarrow> 'a ProxyBase_scheme" where
  "HandlePeerClose slotID p = p"

definition HandlePeerError :: "nat \<Rightarrow> 'a ProxyBase_scheme \<Rightarrow> 'a ProxyBase_scheme" where
  "HandlePeerError slotID p = p"

text \<open>The virtual handlers do nothing here; the proxies override them.\<close>

definition Base_HandleRead :: "nat \<Rightarrow> sock \<Rightarrow> 'a ProxyBase_scheme \<Rightarrow> 'a ProxyBase_scheme" where
  "Base_HandleRead slotID s p = p"

definition Base_HandleSend :: "nat \<Rightarrow> sock \<Rightarrow> u32 \<Rightarrow> 'a ProxyBase_scheme \<Rightarrow> 'a ProxyBase_scheme" where
  "Base_HandleSend slotID s sz p = p"

definition HandleBackRead :: "sock \<Rightarrow> proxy_call list" where
  "HandleBackRead s = [Recv s]"

text \<open>
  The static dispatchers, through which ns-3 calls a member function: a bound callback carries the
  instance and the slot. The three overloads differ in the argument \<open>x\<close> that ns-3 adds: the socket
  alone, with an address, or with a size.
\<close>

definition DispatchMethod :: "(nat \<Rightarrow> 'x \<Rightarrow> 'p \<Rightarrow> 'r) \<Rightarrow> 'p \<Rightarrow> nat \<Rightarrow> 'x \<Rightarrow> 'r" where
  "DispatchMethod method inst slotID x = method slotID x inst"

text \<open>What the callbacks that the base class registers do to a proxy that overrides none of them.\<close>

fun run_callback :: "u32 \<Rightarrow> proxy_cb \<Rightarrow> sock \<Rightarrow> 'a ProxyBase_scheme \<Rightarrow> 'a ProxyBase_scheme \<times> proxy_call list" where
  "run_callback sz (HandleReadCb i) s p = (DispatchMethod Base_HandleRead p i s, [])"
| "run_callback sz (HandleAcceptCb i) s p = DispatchMethod HandleAccept p i s"
| "run_callback sz (HandlePeerCloseCb i) s p = (DispatchMethod (\<lambda>j _. HandlePeerClose j) p i s, [])"
| "run_callback sz (HandlePeerErrorCb i) s p = (DispatchMethod (\<lambda>j _. HandlePeerError j) p i s, [])"
| "run_callback sz (ConnectionSucceededCb i) s p = (DispatchMethod (\<lambda>j _. ConnectionSucceeded j) p i s, [])"
| "run_callback sz (ConnectionFailedCb i) s p = (DispatchMethod (\<lambda>j _. ConnectionFailed j) p i s, [])"
| "run_callback sz (HandleSendCb i) s p = (DispatchMethod (\<lambda>j (s, n). Base_HandleSend j s n) p i (s, sz), [])"
| "run_callback sz HandleBackReadCb s p = (p, HandleBackRead s)"

fun callback_slot :: "proxy_cb \<Rightarrow> nat option" where
  "callback_slot (HandleReadCb i) = Some i"
| "callback_slot (HandleAcceptCb i) = Some i"
| "callback_slot (HandlePeerCloseCb i) = Some i"
| "callback_slot (HandlePeerErrorCb i) = Some i"
| "callback_slot (ConnectionSucceededCb i) = Some i"
| "callback_slot (ConnectionFailedCb i) = Some i"
| "callback_slot (HandleSendCb i) = Some i"
| "callback_slot HandleBackReadCb = None"

section \<open>Lemmas\<close>

lemma close_accepted_rev: "close_accepted socks = map Close (rev socks)"
proof (induction socks rule: rev_induct)
  case Nil
  show ?case by (simp add: close_accepted.simps)
next
  case (snoc x xs)
  then show ?case by (subst close_accepted.simps) simp
qed

lemma closes_stop_rx_slot:
  "closes (snd (stop_rx_slot sl)) = rev (accepted_socks sl) @ (case listen_sock sl of None \<Rightarrow> [] | Some s \<Rightarrow> [s])"
  by (simp add: stop_rx_slot_def close_accepted_rev split: option.splits)

lemma closes_stop_tx_slot: "closes (stop_tx_slot sl) = (case tx_sock sl of None \<Rightarrow> [] | Some s \<Rightarrow> [s])"
  by (simp add: stop_tx_slot_def split: option.splits)

lemma closes_concat: "closes (concat css) = concat (map closes css)"
  by (induction css) auto

lemma foldl_plus_u64: "foldl (\<lambda>tot i. tot + f i) (z :: u64) xs = z + sum_list (map f xs)"
  by (induction xs arbitrary: z) (auto simp: algebra_simps)

lemma GetTotalRx_sum: "wf_slots p \<Longrightarrow> GetTotalRx p = (\<Sum>sl\<leftarrow>m_rxSlots p. rx_total sl)"
proof -
  assume "wf_slots p"
  then have "map (\<lambda>i. rx_total (m_rxSlots p ! i)) [0..<RX_SLOT_COUNT] = map rx_total (m_rxSlots p)"
    by (intro nth_equalityI) (auto simp: wf_slots_def)
  then show ?thesis by (simp only: GetTotalRx_def foldl_plus_u64) simp
qed

lemma GetTotalTx_sum: "wf_slots p \<Longrightarrow> GetTotalTx p = (\<Sum>sl\<leftarrow>m_txSlots p. tx_total sl)"
proof -
  assume "wf_slots p"
  then have "map (\<lambda>i. tx_total (m_txSlots p ! i)) [0..<TX_SLOT_COUNT] = map tx_total (m_txSlots p)"
    by (intro nth_equalityI) (auto simp: wf_slots_def)
  then show ?thesis by (simp only: GetTotalTx_def foldl_plus_u64) simp
qed

lemma start_rx_slot_socket:
  "start_rx_slot env i sl = Inr (sl', cs) \<Longrightarrow>
     rx_addr sl' = rx_addr sl \<and> accepted_socks sl' = accepted_socks sl \<and> rx_total sl' = rx_total sl
     \<and> (listen_sock sl \<noteq> None \<longrightarrow> listen_sock sl' = listen_sock sl)
     \<and> (\<not> IsInvalid (rx_addr sl) \<longrightarrow> listen_sock sl' \<noteq> None)"
  by (auto simp: start_rx_slot_def start_rx_socket_def Let_def split: if_splits option.splits)

lemma start_tx_slot_socket:
  "start_tx_slot env i sl = Inr (sl', cs) \<Longrightarrow>
     tx_addr sl' = tx_addr sl \<and> tx_total sl' = tx_total sl \<and> connected sl' = connected sl
     \<and> (tx_sock sl \<noteq> None \<longrightarrow> tx_sock sl' = tx_sock sl)
     \<and> (\<not> IsInvalid (tx_addr sl) \<longrightarrow> tx_sock sl' \<noteq> None)"
  by (auto simp: start_tx_slot_def Let_def split: if_splits option.splits)

lemma start_rx_slot_again:
  "IsInvalid (rx_addr sl) \<or> listen_sock sl \<noteq> None \<Longrightarrow>
     \<exists>cs. start_rx_slot env i sl = Inr (sl, cs) \<and> created cs = []"
  by (auto simp: start_rx_slot_def rx_callbacks_def)

lemma start_tx_slot_again:
  "IsInvalid (tx_addr sl) \<or> tx_sock sl \<noteq> None \<Longrightarrow>
     \<exists>cs. start_tx_slot env i sl = Inr (sl, cs) \<and> created cs = []"
  by (auto simp: start_tx_slot_def)

lemma StartApplication_slots:
  assumes "StartApplication env p = Inr (p', cs)"
  shows "\<exists>cs1 cs2. slot_loop (start_rx_slot env) 0 (m_rxSlots p) = Inr (m_rxSlots p', cs1)
      \<and> slot_loop (start_tx_slot env) 0 (m_txSlots p) = Inr (m_txSlots p', cs2)
      \<and> cs = cs1 @ cs2 \<and> p' = p\<lparr>m_rxSlots := m_rxSlots p', m_txSlots := m_txSlots p'\<rparr>"
  using assms by (cases p) (auto simp: StartApplication_def)

lemma StartApplication_wf: "StartApplication env p = Inr (p', cs) \<Longrightarrow> wf_slots p \<Longrightarrow> wf_slots p'"
  by (auto dest!: StartApplication_slots slot_loop_length simp: wf_slots_def)

lemma StartApplication_nth:
  assumes "StartApplication env p = Inr (p', cs)"
  shows "i < length (m_rxSlots p) \<Longrightarrow> \<exists>c. start_rx_slot env i (m_rxSlots p ! i) = Inr (m_rxSlots p' ! i, c)"
    and "i < length (m_txSlots p) \<Longrightarrow> \<exists>c. start_tx_slot env i (m_txSlots p ! i) = Inr (m_txSlots p' ! i, c)"
  using StartApplication_slots [OF assms]
  by (auto dest!: slot_loop_nth [where i = 0, simplified])

section \<open>Open sockets\<close>

definition open_socks :: "'a ProxyBase_scheme \<Rightarrow> sock list" where
  "open_socks p = concat (map (\<lambda>sl. accepted_socks sl @ (case listen_sock sl of None \<Rightarrow> [] | Some s \<Rightarrow> [s])) (m_rxSlots p))
     @ concat (map (\<lambda>sl. case tx_sock sl of None \<Rightarrow> [] | Some s \<Rightarrow> [s]) (m_txSlots p))"

lemma mset_concat_cong: "(\<And>x. mset (f x) = mset (g x)) \<Longrightarrow> mset (concat (map f xs)) = mset (concat (map g xs))"
  by (induction xs) auto

lemma closes_StopApplication: "mset (closes (snd (StopApplication p))) = mset (open_socks p)"
proof -
  have "mset (concat (map (closes \<circ> (snd \<circ> stop_rx_slot)) (m_rxSlots p))) =
    mset (concat (map (\<lambda>sl. accepted_socks sl @ (case listen_sock sl of None \<Rightarrow> [] | Some s \<Rightarrow> [s])) (m_rxSlots p)))"
    by (rule mset_concat_cong) (simp add: closes_stop_rx_slot)
  then show ?thesis
    by (simp add: StopApplication_def open_socks_def closes_concat closes_stop_tx_slot comp_def)
qed

lemma stop_all_accepted: "concat (map accepted_socks (m_rxSlots (fst (StopApplication p)))) = []"
  by (auto simp: StopApplication_def stop_rx_slot_def)

section \<open>Callbacks\<close>

text \<open>A callback leaves all slots but its own as they are, and adds at most the accepted socket.\<close>

lemmas proxy_handler_defs = DispatchMethod_def HandleAccept_def HandlePeerClose_def HandlePeerError_def ConnectionSucceeded_def
  ConnectionFailed_def Base_HandleRead_def Base_HandleSend_def

lemma run_callback_wf: "wf_slots p \<Longrightarrow> wf_slots (fst (run_callback sz cb s p))"
  by (cases cb) (simp_all add: proxy_handler_defs wf_slots_def Let_def)

lemma run_callback_local:
  assumes "callback_slot cb \<noteq> Some j"
  shows "m_rxSlots (fst (run_callback sz cb s p)) ! j = m_rxSlots p ! j \<and> m_txSlots (fst (run_callback sz cb s p)) ! j = m_txSlots p ! j"
  using assms by (cases cb) (simp_all add: proxy_handler_defs Let_def)

text \<open>A callback is registered with the slot whose socket it is set on.\<close>

lemma rx_callbacks_slot: "SetRecvCallback t (Some cb) \<in> set (rx_callbacks i s) \<Longrightarrow> callback_slot cb = Some i \<and> t = s"
  by (auto simp: rx_callbacks_def)

section \<open>Properties\<close>

text \<open>
  C31. \<open>ProxyBase::StopApplication\<close> closes every socket the proxy holds exactly once: the accepted
  sockets of each receive slot, its listening socket, and the socket of each transmit slot. No
  slot keeps an accepted socket afterwards. (The listening and transmit sockets stay in their slots.)
\<close>

theorem StopApplication_closes_all:
  "mset (closes (snd (StopApplication p))) = mset (open_socks p)
   \<and> concat (map accepted_socks (m_rxSlots (fst (StopApplication p)))) = []
   \<and> m_txSlots (fst (StopApplication p)) = m_txSlots p"
  by (simp add: closes_StopApplication stop_all_accepted)
     (simp add: StopApplication_def)

text \<open>So a connection that a running proxy accepts is closed when the application stops.\<close>

lemma accepted_socks_closed:
  assumes "i < length (m_rxSlots p)"
  shows "s \<in> set (closes (snd (StopApplication (fst (run_callback sz (HandleAcceptCb i) s p)))))"
proof -
  let ?p = "fst (run_callback sz (HandleAcceptCb i) s p)"
  have "s \<in> set (accepted_socks (m_rxSlots ?p ! i))" "i < length (m_rxSlots ?p)"
    using assms by (simp_all add: proxy_handler_defs Let_def)
  then have "s \<in> set (open_socks ?p)" by (fastforce simp: open_socks_def in_set_conv_nth [of _ "m_rxSlots ?p"])
  then show ?thesis by (metis closes_StopApplication set_mset_mset)
qed

text \<open>
  \<open>ProxyBase::StartApplication\<close> gives every slot with a valid address a socket, keeps the
  sockets that already exist, and is idempotent: a second start, whatever ns-3 would answer,
  succeeds, changes no slot and creates no socket.
\<close>

theorem StartApplication_idempotent:
  assumes "StartApplication env p = Inr (p', cs)"
  shows "(\<forall>sl \<in> set (m_rxSlots p'). \<not> IsInvalid (rx_addr sl) \<longrightarrow> listen_sock sl \<noteq> None)
    \<and> (\<forall>sl \<in> set (m_txSlots p'). \<not> IsInvalid (tx_addr sl) \<longrightarrow> tx_sock sl \<noteq> None)
    \<and> (\<exists>cs'. StartApplication env' p' = Inr (p', cs') \<and> created cs' = [])"
proof -
  obtain cs1 cs2 where
    rx: "slot_loop (start_rx_slot env) 0 (m_rxSlots p) = Inr (m_rxSlots p', cs1)" and
    tx: "slot_loop (start_tx_slot env) 0 (m_txSlots p) = Inr (m_txSlots p', cs2)"
    using StartApplication_slots [OF assms] by blast
  have rxs: "IsInvalid (rx_addr (m_rxSlots p' ! i)) \<or> listen_sock (m_rxSlots p' ! i) \<noteq> None"
    if "i < length (m_rxSlots p')" for i
    using StartApplication_nth(1) [OF assms, of i] that slot_loop_length [OF rx]
    by (auto dest!: start_rx_slot_socket)
  have txs: "IsInvalid (tx_addr (m_txSlots p' ! i)) \<or> tx_sock (m_txSlots p' ! i) \<noteq> None"
    if "i < length (m_txSlots p')" for i
    using StartApplication_nth(2) [OF assms, of i] that slot_loop_length [OF tx]
    by (auto dest!: start_tx_slot_socket)
  have "\<exists>d. slot_loop (start_rx_slot env') 0 (m_rxSlots p') = Inr (m_rxSlots p', d) \<and> created d = []"
    using rxs by (intro slot_loop_Inr) (auto intro: start_rx_slot_again)
  moreover have "\<exists>d. slot_loop (start_tx_slot env') 0 (m_txSlots p') = Inr (m_txSlots p', d) \<and> created d = []"
    using txs by (intro slot_loop_Inr) (auto intro: start_tx_slot_again)
  ultimately have "\<exists>cs'. StartApplication env' p' = Inr (p', cs') \<and> created cs' = []"
    by (auto simp: StartApplication_def)
  with rxs txs show ?thesis by (metis in_set_conv_nth)
qed

definition example_env :: sock_env where
  "example_env = \<lparr>new_sock = (\<lambda>i. 100 + i), bind_result = (\<lambda>_. 0), is_udp = (\<lambda>_. True),
                  is_multicast = (\<lambda>_. False)\<rparr>"

theorem StartApplication_idempotent_witness:
  "\<exists>p' cs. StartApplication example_env (Addr_DoSet True 0 (InetAddr 5 6) init_ProxyBase) = Inr (p', cs)
     \<and> tx_sock (m_txSlots p' ! 0) = Some 108
     \<and> (\<exists>cs'. StartApplication example_env p' = Inr (p', cs') \<and> created cs' = [])"
proof -
  have "\<exists>r. StartApplication example_env (Addr_DoSet True 0 (InetAddr 5 6) init_ProxyBase) = Inr r
     \<and> tx_sock (m_txSlots (fst r) ! 0) = Some 108"
    by (simp add: example_env_def init_ProxyBase_def Addr_DoSet_def StartApplication_def
        init_RxSlot_def init_TxSlot_def start_rx_slot_def start_tx_slot_def IsInvalid_def
        replicate_8 Let_def)
  then obtain p' cs where p': "StartApplication example_env (Addr_DoSet True 0 (InetAddr 5 6) init_ProxyBase) = Inr (p', cs)"
     "tx_sock (m_txSlots p' ! 0) = Some 108" by auto
  from StartApplication_idempotent [OF p'(1), of example_env] p' show ?thesis by blast
qed

end
