(* ===== verification/Rq_Encoder.thy ===== *)
theory Rq_Encoder
  imports Rq_Header Proxy_Base
begin

text \<open>
  \<open>RqEncoder\<close>, \<open>ns3_apps/rq-encoder.h\<close> and \<open>ns3_apps/rq-encoder.cc\<close>: reads source packets round
  robin from the receive slots, sends them with a RaptorQ header on transmit slot 0, and follows
  the \<open>K\<close> source packets of a block with \<open>N - K\<close> repair packets.

  What the sockets answer is the argument \<open>enc_env\<close>; what the handler does to the outside is the
  list of \<open>enc_event\<close>s it returns.
\<close>

section \<open>State\<close>

record RqEncoder = ProxyBase +
  e_rqkval :: u32
  e_rqnval :: u32
  e_rqtval :: u32
  e_nRxSlots :: nat
  e_nextRxSlot :: nat
  e_sendingRate :: u64    \<comment> \<open>the bit rate of the \<open>DataRate\<close>\<close>
  e_sbid :: u32
  e_esi :: u32
  e_symbcounts :: "u32 list"

definition init_RqEncoder :: RqEncoder where
  "init_RqEncoder = ProxyBase.extend init_ProxyBase
     \<lparr>e_rqkval = 100, e_rqnval = 120, e_rqtval = 1024, e_nRxSlots = 0, e_nextRxSlot = 0,
      e_sendingRate = 5000000, e_sbid = 0, e_esi = 0, e_symbcounts = replicate RX_SLOT_COUNT 0\<rparr>"

definition RqEncoder_attributes :: "attr_spec list" where
  "RqEncoder_attributes =
     [(''Tval'', UintegerValue 1024, Some 1),
      (''Kval'', UintegerValue 100, Some 1),
      (''Nval'', UintegerValue 120, Some 1),
      (''DataRate'', DataRateValue ''5Mbps'', None)]
     @ SetTidDefaultProtocols ''ns3::TcpSocketFactory'' ''ns3::UdpSocketFactory''"

record enc_env =
  tx_available :: "sock \<Rightarrow> u32"
  rx_available :: "sock \<Rightarrow> u32"
  recv_packet :: "sock \<Rightarrow> u32 option"      \<comment> \<open>the size of the packet \<open>Recv\<close> returns, \<open>None\<close> for a null pointer\<close>
  send_result :: "sock \<Rightarrow> u32 \<Rightarrow> u32"      \<comment> \<open>the \<open>int\<close> returned by \<open>Send\<close> of a packet of this size\<close>

datatype enc_event =
    ScheduleSendPacket u32 u64    \<comment> \<open>packet size and bit rate of the interval to the next call\<close>
  | RxPacket nat sock u32         \<comment> \<open>a packet read on a slot, reported to the rx traces\<close>
  | SendDummy sock
  | TxPacket RqHeader u32         \<comment> \<open>header and payload size, reported to the tx traces\<close>

section \<open>Sending\<close>

text \<open>The \<open>do\<close> \<open>while\<close> loop over the receive slots: the new round-robin position and the slot
  found, if any.\<close>

partial_function (option) probe_slots ::
  "(nat \<Rightarrow> bool) \<Rightarrow> nat \<Rightarrow> nat \<Rightarrow> nat \<Rightarrow> (nat \<times> nat option) option" where
  "probe_slots readable nRxSlots end_slot nextRxSlot =
     (let slot = nextRxSlot;
          next = (if Suc nextRxSlot = nRxSlots then 0 else Suc nextRxSlot)
      in if readable slot then Some (next, Some slot)
         else if next \<noteq> end_slot then probe_slots readable nRxSlots end_slot next
         else Some (next, None))"

declare probe_slots.simps [code]

definition slot_readable :: "enc_env \<Rightarrow> 'a RqEncoder_scheme \<Rightarrow> nat \<Rightarrow> bool" where
  "slot_readable env e slot =
     (case accepted_socks (m_rxSlots e ! slot) of [] \<Rightarrow> False
      | s # _ \<Rightarrow> \<not> rx_available env s < e_rqtval e)"

definition read_source ::
  "enc_env \<Rightarrow> nat \<Rightarrow> 'a RqEncoder_scheme \<Rightarrow> fault + ('a RqEncoder_scheme \<times> enc_event list \<times> u32)" where
  "read_source env slot e =
     (let sl = m_rxSlots e ! slot; s = hd (accepted_socks sl)
      in case recv_packet env s of None \<Rightarrow> Inl NullPointer
         | Some sz \<Rightarrow>
             Inr (e\<lparr>m_rxSlots := (m_rxSlots e)[slot := sl\<lparr>rx_total := rx_total sl + ucast sz\<rparr>],
                    e_symbcounts := (e_symbcounts e)[slot := e_symbcounts e ! slot + 1]\<rparr>,
                  [RxPacket slot s sz, SendDummy s], sz))"

text \<open>The payload: a source packet, nothing, or a repair packet of stream \<open>-1\<close>.\<close>

definition get_payload ::
  "enc_env \<Rightarrow> 'a RqEncoder_scheme
     \<Rightarrow> fault + ('a RqEncoder_scheme \<times> enc_event list \<times> (u32 \<times> u32) option)" where
  "get_payload env e =
     (if e_esi e < e_rqkval e
      then case probe_slots (slot_readable env e) (e_nRxSlots e) (e_nextRxSlot e) (e_nextRxSlot e) of
             None \<Rightarrow> Inl Diverges
           | Some (next, None) \<Rightarrow> Inr (e\<lparr>e_nextRxSlot := next\<rparr>, [], None)
           | Some (next, Some slot) \<Rightarrow>
               bindE (read_source env slot (e\<lparr>e_nextRxSlot := next\<rparr>)) (\<lambda>(e', evs, sz).
                 Inr (e', evs, Some (sz, of_nat slot)))
      else Inr (e, [], Some (e_rqtval e, -1)))"

definition next_esi :: "'a RqEncoder_scheme \<Rightarrow> 'a RqEncoder_scheme" where
  "next_esi e =
     (let esi = e_esi e + 1
      in if esi = e_rqnval e
         then e\<lparr>e_esi := 0, e_sbid := e_sbid e + 1, e_symbcounts := replicate RX_SLOT_COUNT 0\<rparr>
         else e\<lparr>e_esi := esi\<rparr>)"

definition make_header :: "u32 \<Rightarrow> 'a RqEncoder_scheme \<Rightarrow> RqHeader" where
  "make_header streamid e =
     RqHeader_make (ucast (e_rqnval e) * ucast (e_sbid e) + ucast (e_esi e))
       streamid (e_nRxSlots e) (e_symbcounts e)"

definition send_coded ::
  "enc_env \<Rightarrow> sock \<Rightarrow> u32 \<Rightarrow> u32 \<Rightarrow> 'a RqEncoder_scheme \<Rightarrow> fault + ('a RqEncoder_scheme \<times> enc_event list)" where
  "send_coded env s sz streamid e =
     (let hdr = make_header streamid e; pkt_size = sz + GetSerializedSize hdr; sl = m_txSlots e ! 0
      in bindE (guardE (send_result env s pkt_size = pkt_size) AssertFail) (\<lambda>_.
         Inr (next_esi (e\<lparr>m_txSlots := (m_txSlots e)[0 := sl\<lparr>tx_total := tx_total sl + ucast pkt_size\<rparr>]\<rparr>),
              [TxPacket hdr sz])))"

definition SendPacket ::
  "enc_env \<Rightarrow> 'a RqEncoder_scheme \<Rightarrow> fault + ('a RqEncoder_scheme \<times> enc_event list)" where
  "SendPacket env e =
     (let sched = [ScheduleSendPacket (e_rqtval e) (e_sendingRate e)]
      in case tx_sock (m_txSlots e ! 0) of None \<Rightarrow> Inl NullPointer
      | Some s \<Rightarrow>
        if tx_available env s < e_rqtval e + GetMinSerializedSize + of_nat (e_nRxSlots e) * 4
        then Inr (e, sched)
        else bindE (get_payload env e) (\<lambda>(e', evs, payload).
          case payload of None \<Rightarrow> Inr (e', sched @ evs)
          | Some (sz, streamid) \<Rightarrow>
              bindE (send_coded env s sz streamid e') (\<lambda>(e'', evs').
                Inr (e'', sched @ evs @ evs'))))"

definition count_rx_slots :: "'a ProxyBase_scheme \<Rightarrow> nat" where
  "count_rx_slots p = length (takeWhile (\<lambda>sl. \<not> IsInvalid (rx_addr sl)) (m_rxSlots p))"

definition Encoder_StartApplication ::
  "sock_env \<Rightarrow> enc_env \<Rightarrow> 'a RqEncoder_scheme
     \<Rightarrow> fault + ('a RqEncoder_scheme \<times> proxy_call list \<times> enc_event list)" where
  "Encoder_StartApplication senv env e =
     bindE (StartApplication senv e) (\<lambda>(e1, cs).
       let e2 = e1\<lparr>e_nRxSlots := count_rx_slots e1\<rparr>
       in bindE (guardE (e_nRxSlots e2 \<noteq> 0)
                   (FatalError ''At least one RxSlot needs to be set for the RqEncoder app.'')) (\<lambda>_.
          bindE (SendPacket env e2) (\<lambda>(e3, evs). Inr (e3, cs, evs))))"

fun sent_headers :: "enc_event list \<Rightarrow> RqHeader list" where
  "sent_headers [] = []"
| "sent_headers (TxPacket h n # evs) = h # sent_headers evs"
| "sent_headers (_ # evs) = sent_headers evs"

lemma sent_headers_append [simp]: "sent_headers (xs @ ys) = sent_headers xs @ sent_headers ys"
  by (induction xs rule: sent_headers.induct) auto

text \<open>The scheduled calls one after the other: the event loop of a running encoder.\<close>

definition enc_run ::
  "enc_env list \<Rightarrow> 'a RqEncoder_scheme \<Rightarrow> fault + ('a RqEncoder_scheme \<times> enc_event list)" where
  "enc_run envs e =
     foldE (\<lambda>(e, evs) env. bindE (SendPacket env e) (\<lambda>(e', evs'). Inr (e', evs @ evs'))) (e, []) envs"

section \<open>The round-robin probe\<close>

definition cyclic_from :: "nat \<Rightarrow> nat \<Rightarrow> nat \<Rightarrow> nat list" where
  "cyclic_from n start d = map (\<lambda>i. (start + i) mod n) [0..<d]"

definition succ_slot :: "nat \<Rightarrow> nat \<Rightarrow> nat" where
  "succ_slot n slot = (if Suc slot = n then 0 else Suc slot)"

lemma succ_slot_add: "(succ_slot n slot + i) mod n = (slot + Suc i) mod n"
proof (cases "Suc slot = n")
  case True
  then have "slot + Suc i = n + i" by simp
  then show ?thesis using True by (simp only: succ_slot_def mod_add_self1) simp
qed (simp add: succ_slot_def)

lemma cyclic_from_Suc:
  "slot < n \<Longrightarrow> cyclic_from n slot (Suc d) = slot # cyclic_from n (succ_slot n slot) d"
  by (simp add: cyclic_from_def succ_slot_add upt_conv_Cons map_Suc_upt [symmetric] o_def
      del: upt_Suc)

lemma probe_slots_find:
  assumes "slot < n" "d < n" "(slot + Suc d) mod n = end_slot"
  shows "probe_slots readable n end_slot slot =
    Some (case find readable (cyclic_from n slot (Suc d)) of
            None \<Rightarrow> (end_slot, None) | Some s \<Rightarrow> (succ_slot n s, Some s))"
  using assms
proof (induction d arbitrary: slot)
  case 0
  then show ?case
    by (subst probe_slots.simps) (auto simp: cyclic_from_def succ_slot_def Let_def)
next
  case (Suc d)
  let ?next = "succ_slot n slot"
  have lt: "?next < n" using Suc.prems by (auto simp: succ_slot_def)
  have "(?next + Suc d) mod n = end_slot"
    using Suc.prems(3) succ_slot_add [of n slot "Suc d"] by simp
  from Suc.IH [OF lt _ this] Suc.prems
  have IH: "probe_slots readable n end_slot ?next =
    Some (case find readable (cyclic_from n ?next (Suc d)) of
            None \<Rightarrow> (end_slot, None) | Some s \<Rightarrow> (succ_slot n s, Some s))" by simp
  have ne: "?next \<noteq> end_slot"
  proof
    assume "?next = end_slot"
    with \<open>(?next + Suc d) mod n = end_slot\<close> lt have "(?next + Suc d) mod n = ?next mod n"
      by simp
    then have "n dvd Suc d" by (metis mod_eq_dvd_iff_nat le_add1 add_diff_cancel_left')
    with Suc.prems(2) show False by (auto dest: dvd_imp_le)
  qed
  show ?case
    using IH ne Suc.prems
    by (subst probe_slots.simps) (auto simp: cyclic_from_Suc Let_def simp flip: succ_slot_def)
qed

lemma probe_slots_same:
  assumes "slot < n"
  shows "probe_slots readable n slot slot =
    Some (case find readable (rotate slot [0..<n]) of
            None \<Rightarrow> (slot, None) | Some s \<Rightarrow> (succ_slot n s, Some s))"
proof -
  have "cyclic_from n slot (Suc (n - 1)) = rotate slot [0..<n]"
    using assms by (intro nth_equalityI) (auto simp: cyclic_from_def nth_rotate simp del: upt_Suc)
  moreover have "(slot + Suc (n - 1)) mod n = slot" using assms by simp
  ultimately show ?thesis using probe_slots_find [of slot n "n - 1" slot readable] assms by simp
qed

lemma probe_slots_cases:
  assumes "slot < n" and "probe_slots readable n slot slot = Some (next', r)"
  shows "next' < n \<and> (\<forall>s. r = Some s \<longrightarrow> s < n \<and> readable s)"
proof (cases "find readable (rotate slot [0..<n])")
  case None
  with assms show ?thesis by (simp add: probe_slots_same)
next
  case (Some s)
  then have "s < n" "readable s" by (auto dest!: find_SomeD)
  with assms Some show ?thesis by (auto simp: probe_slots_same succ_slot_def)
qed

section \<open>The abstract encoder: one block\<close>

text \<open>
  \<open>\<sigma>\<close> lists the slots the source packets of the block came from. The packet at position \<open>j\<close> of
  block \<open>b\<close> is numbered \<open>N b + j\<close>, names the slot of its source packet or \<open>-1\<close>, and counts the
  source packets of every slot up to and including itself.
\<close>

definition block_header :: "nat \<Rightarrow> nat \<Rightarrow> nat \<Rightarrow> nat list \<Rightarrow> nat \<Rightarrow> nat \<Rightarrow> RqHeader" where
  "block_header N K n \<sigma> b j =
     \<lparr>m_valid = True, m_seqno = of_nat (N * b + j),
      m_iseq_streamid = (if j < K then of_nat (\<sigma> ! j) else -1),
      m_iseq_data = map (\<lambda>i. of_nat (count_list (take (Suc j) \<sigma>) i)) [0..<n]\<rparr>"

definition enc_wf :: "'a RqEncoder_scheme \<Rightarrow> bool" where
  "enc_wf e \<longleftrightarrow> wf_slots e \<and> tx_sock (m_txSlots e ! 0) \<noteq> None
     \<and> e_nRxSlots e \<le> RX_SLOT_COUNT \<and> e_nextRxSlot e < e_nRxSlots e
     \<and> e_esi e < e_rqnval e \<and> length (e_symbcounts e) = RX_SLOT_COUNT"

definition enc_abs :: "'a RqEncoder_scheme \<Rightarrow> nat list \<Rightarrow> bool" where
  "enc_abs e \<sigma> \<longleftrightarrow> enc_wf e
     \<and> length \<sigma> = min (unat (e_esi e)) (unat (e_rqkval e)) \<and> set \<sigma> \<subseteq> {..<e_nRxSlots e}
     \<and> (\<forall>i < RX_SLOT_COUNT. e_symbcounts e ! i = of_nat (count_list \<sigma> i))"

definition enc_seq :: "'a RqEncoder_scheme \<Rightarrow> nat" where
  "enc_seq e = unat (e_rqnval e) * unat (e_sbid e) + unat (e_esi e)"

definition same_config :: "'a RqEncoder_scheme \<Rightarrow> 'a RqEncoder_scheme \<Rightarrow> bool" where
  "same_config e e' \<longleftrightarrow> e_rqkval e' = e_rqkval e \<and> e_rqnval e' = e_rqnval e \<and> e_rqtval e' = e_rqtval e
     \<and> e_nRxSlots e' = e_nRxSlots e"

lemmas config_defs = same_config_def enc_wf_def wf_slots_def

lemma same_config_trans: "same_config e e' \<Longrightarrow> same_config e' e'' \<Longrightarrow> same_config e e''"
  by (simp add: same_config_def)

text \<open>Between reading the payload and sending, the counts already include the new packet.\<close>

definition enc_mid :: "'a RqEncoder_scheme \<Rightarrow> nat list \<Rightarrow> bool" where
  "enc_mid e \<sigma> \<longleftrightarrow> enc_wf e
     \<and> length \<sigma> = min (Suc (unat (e_esi e))) (unat (e_rqkval e)) \<and> set \<sigma> \<subseteq> {..<e_nRxSlots e}
     \<and> (\<forall>i < RX_SLOT_COUNT. e_symbcounts e ! i = of_nat (count_list \<sigma> i))"

definition extends_by_source :: "'a RqEncoder_scheme \<Rightarrow> nat list \<Rightarrow> nat list \<Rightarrow> bool" where
  "extends_by_source e \<sigma> \<sigma>' \<longleftrightarrow>
     (if e_esi e < e_rqkval e then \<exists>s < e_nRxSlots e. \<sigma>' = \<sigma> @ [s] else \<sigma>' = \<sigma>)"

lemma read_source_abs:
  assumes "enc_abs e \<sigma>" "e_esi e < e_rqkval e" "slot < e_nRxSlots e" "read_source env slot e = Inr (e', evs, sz)"
  shows "enc_mid e' (\<sigma> @ [slot]) \<and> same_config e e' \<and> e_esi e' = e_esi e \<and> e_sbid e' = e_sbid e
    \<and> m_txSlots e' = m_txSlots e \<and> sent_headers evs = []"
proof -
  have "length \<sigma> = unat (e_esi e)" "unat (e_esi e) < unat (e_rqkval e)"
    using assms by (auto simp: enc_abs_def word_less_nat_alt)
  then show ?thesis
    using assms
    by (auto simp: read_source_def enc_abs_def enc_mid_def config_defs Let_def nth_list_update
        algebra_simps split: option.splits)
qed

lemma get_payload_abs:
  assumes "enc_abs e \<sigma>" and "get_payload env e = Inr (e1, evs, payload)"
  shows "same_config e e1 \<and> e_esi e1 = e_esi e \<and> e_sbid e1 = e_sbid e \<and> sent_headers evs = []
    \<and> (payload = None \<longrightarrow> enc_abs e1 \<sigma>)
    \<and> (\<forall>sz streamid. payload = Some (sz, streamid) \<longrightarrow>
         (\<exists>\<sigma>'. extends_by_source e \<sigma> \<sigma>' \<and> enc_mid e1 \<sigma>'
            \<and> streamid = (if e_esi e < e_rqkval e then of_nat (last \<sigma>') else -1)))"
proof (cases "e_esi e < e_rqkval e")
  case False
  with assms show ?thesis
    by (auto simp: get_payload_def same_config_def enc_abs_def enc_mid_def extends_by_source_def
        word_less_nat_alt)
next
  case True
  have lt: "e_nextRxSlot e < e_nRxSlots e" using assms by (simp add: enc_abs_def enc_wf_def)
  from assms True obtain next' r where
    probe: "probe_slots (slot_readable env e) (e_nRxSlots e) (e_nextRxSlot e) (e_nextRxSlot e) = Some (next', r)"
    by (auto simp: get_payload_def split: option.splits)
  note pc = probe_slots_cases [OF lt probe]
  let ?e = "e\<lparr>e_nextRxSlot := next'\<rparr>"
  have abs: "enc_abs ?e \<sigma>" using assms pc by (auto simp: enc_abs_def enc_wf_def wf_slots_def)
  show ?thesis
  proof (cases r)
    case None
    with assms True probe abs show ?thesis by (auto simp: get_payload_def same_config_def)
  next
    case (Some slot)
    with assms True probe obtain sz where
      src: "read_source env slot ?e = Inr (e1, evs, sz)" and pl: "payload = Some (sz, of_nat slot)"
      by (auto simp: get_payload_def)
    from pc Some have "slot < e_nRxSlots e" by simp
    with read_source_abs [OF abs _ _ src] True pl show ?thesis
      by (auto simp: extends_by_source_def same_config_def)
  qed
qed

lemma ucast_seqno:
  "ucast (N :: u32) * ucast b + ucast j = (of_nat (unat N * unat b + unat j) :: u64)"
  by simp

lemma make_header_block:
  assumes "enc_mid e \<sigma>"
    and "streamid = (if e_esi e < e_rqkval e then of_nat (last \<sigma>) else -1)"
  shows "make_header streamid e =
    block_header (unat (e_rqnval e)) (unat (e_rqkval e)) (e_nRxSlots e) \<sigma> (unat (e_sbid e)) (unat (e_esi e))"
proof -
  have len: "length \<sigma> = min (Suc (unat (e_esi e))) (unat (e_rqkval e))"
    and n: "e_nRxSlots e \<le> RX_SLOT_COUNT" "length (e_symbcounts e) = RX_SLOT_COUNT"
    and cnt: "\<And>i. i < RX_SLOT_COUNT \<Longrightarrow> e_symbcounts e ! i = of_nat (count_list \<sigma> i)"
    using assms(1) by (auto simp: enc_mid_def enc_wf_def)
  have data: "take (e_nRxSlots e) (e_symbcounts e)
      = map (\<lambda>i. of_nat (count_list (take (Suc (unat (e_esi e))) \<sigma>) i)) [0..<e_nRxSlots e]"
    using n cnt len by (intro nth_equalityI) auto
  have "streamid = (if unat (e_esi e) < unat (e_rqkval e) then of_nat (\<sigma> ! unat (e_esi e)) else -1)"
  proof (cases "unat (e_esi e) < unat (e_rqkval e)")
    case True
    then have "last \<sigma> = \<sigma> ! unat (e_esi e)"
      using len by (subst last_conv_nth) auto
    with True assms(2) show ?thesis by (simp only: word_less_nat_alt if_True)
  qed (simp only: assms(2) word_less_nat_alt if_False)
  with data show ?thesis
    by (simp only: make_header_def block_header_def RqHeader_make_def ucast_seqno)
qed

lemma next_esi_abs:
  assumes mid: "enc_mid e \<sigma>"
  shows "same_config e (next_esi e)
    \<and> (if Suc (unat (e_esi e)) = unat (e_rqnval e)
       then e_esi (next_esi e) = 0 \<and> e_sbid (next_esi e) = e_sbid e + 1 \<and> enc_abs (next_esi e) []
       else e_esi (next_esi e) = e_esi e + 1 \<and> e_sbid (next_esi e) = e_sbid e \<and> enc_abs (next_esi e) \<sigma>)"
proof -
  have lt: "unat (e_esi e) < unat (e_rqnval e)"
    using mid by (simp add: enc_mid_def enc_wf_def word_less_nat_alt)
  then have un: "unat (e_esi e + 1) = Suc (unat (e_esi e))"
    using unat_u32_bound [of "e_rqnval e"] by (subst unat_plus_one_u32) auto
  then have wrap: "e_esi e + 1 = e_rqnval e \<longleftrightarrow> Suc (unat (e_esi e)) = unat (e_rqnval e)"
    by (simp add: word_unat_eq_iff)
  have pos: "0 < e_rqnval e" using lt by (simp add: word_less_nat_alt)
  show ?thesis
  proof (cases "Suc (unat (e_esi e)) = unat (e_rqnval e)")
    case True
    with mid wrap pos show ?thesis
      by (auto simp: next_esi_def Let_def enc_mid_def enc_abs_def config_defs)
  next
    case False
    with un lt have "e_esi e + 1 < e_rqnval e" by (simp add: word_less_nat_alt)
    with False mid wrap un show ?thesis
      by (auto simp: next_esi_def Let_def enc_mid_def enc_abs_def config_defs)
  qed
qed

lemma send_coded_abs:
  assumes mid: "enc_mid e \<sigma>" and sid: "streamid = (if e_esi e < e_rqkval e then of_nat (last \<sigma>) else -1)"
    and ok: "send_coded env s sz streamid e = Inr (e', evs)"
  shows "same_config e e'
    \<and> sent_headers evs = [block_header (unat (e_rqnval e)) (unat (e_rqkval e)) (e_nRxSlots e) \<sigma>
          (unat (e_sbid e)) (unat (e_esi e))]
    \<and> (if Suc (unat (e_esi e)) = unat (e_rqnval e)
       then e_esi e' = 0 \<and> e_sbid e' = e_sbid e + 1 \<and> enc_abs e' []
       else e_esi e' = e_esi e + 1 \<and> e_sbid e' = e_sbid e \<and> enc_abs e' \<sigma>)"
proof -
  from ok obtain e2 where e': "e' = next_esi e2" and evs: "evs = [TxPacket (make_header streamid e) sz]"
    and e2: "e2 = e\<lparr>m_txSlots := m_txSlots e2\<rparr>" "length (m_txSlots e2) = length (m_txSlots e)"
      "tx_sock (m_txSlots e2 ! 0) = tx_sock (m_txSlots e ! 0)"
    using mid by (auto simp: send_coded_def Let_def enc_mid_def enc_wf_def wf_slots_def)
  from e2 obtain txs where txs: "e2 = e\<lparr>m_txSlots := txs\<rparr>" by blast
  have mid2: "enc_mid e2 \<sigma>"
    using mid e2(2,3) unfolding txs by (simp add: enc_mid_def enc_wf_def wf_slots_def)
  have eqs: "same_config e e2" "e_esi e2 = e_esi e" "e_sbid e2 = e_sbid e" "e_rqnval e2 = e_rqnval e"
    by (simp_all add: txs same_config_def)
  show ?thesis
    using next_esi_abs [OF mid2] make_header_block [OF mid sid]
    unfolding e' evs by (auto simp: eqs intro: same_config_trans [OF eqs(1)] split: if_splits)
qed

lemma SendPacket_step:
  assumes abs: "enc_abs e \<sigma>" and ok: "SendPacket env e = Inr (e', evs)"
  shows "same_config e e'
    \<and> (sent_headers evs = [] \<and> e_esi e' = e_esi e \<and> e_sbid e' = e_sbid e \<and> enc_abs e' \<sigma>
       \<or> (\<exists>\<sigma>'. extends_by_source e \<sigma> \<sigma>'
            \<and> sent_headers evs = [block_header (unat (e_rqnval e)) (unat (e_rqkval e)) (e_nRxSlots e) \<sigma>'
                  (unat (e_sbid e)) (unat (e_esi e))]
            \<and> (if Suc (unat (e_esi e)) = unat (e_rqnval e)
               then e_esi e' = 0 \<and> e_sbid e' = e_sbid e + 1 \<and> enc_abs e' []
               else e_esi e' = e_esi e + 1 \<and> e_sbid e' = e_sbid e \<and> enc_abs e' \<sigma>')))"
proof -
  obtain s where s: "tx_sock (m_txSlots e ! 0) = Some s"
    using abs by (auto simp: enc_abs_def enc_wf_def)
  show ?thesis
  proof (cases "tx_available env s < e_rqtval e + GetMinSerializedSize + of_nat (e_nRxSlots e) * 4")
    case True
    with ok s abs show ?thesis by (auto simp: SendPacket_def Let_def same_config_def)
  next
    case False
    with ok s obtain e1 evs1 payload where gp: "get_payload env e = Inr (e1, evs1, payload)"
      by (auto simp: SendPacket_def Let_def)
    note abs1 = get_payload_abs [OF abs gp]
    show ?thesis
    proof (cases payload)
      case None
      with ok s False gp abs1 show ?thesis by (auto simp: SendPacket_def Let_def)
    next
      case (Some pl)
      then obtain sz streamid where pl: "payload = Some (sz, streamid)" by (cases pl) auto
      with ok s False gp obtain evs2 where
        sc: "send_coded env s sz streamid e1 = Inr (e', evs2)" and
        evs: "evs = ScheduleSendPacket (e_rqtval e) (e_sendingRate e) # evs1 @ evs2"
        by (auto simp: SendPacket_def Let_def)
      from abs1 pl obtain \<sigma>' where ext: "extends_by_source e \<sigma> \<sigma>'" and mid: "enc_mid e1 \<sigma>'"
        and sid: "streamid = (if e_esi e < e_rqkval e then of_nat (last \<sigma>') else -1)" by blast
      have cfg: "same_config e e1" "e_esi e1 = e_esi e" "e_sbid e1 = e_sbid e" using abs1 by auto
      then have vals: "e_rqkval e1 = e_rqkval e" "e_rqnval e1 = e_rqnval e" "e_nRxSlots e1 = e_nRxSlots e"
        by (simp_all add: same_config_def)
      have "streamid = (if e_esi e1 < e_rqkval e1 then of_nat (last \<sigma>') else -1)"
        using sid by (simp only: cfg(2) vals(1))
      note sent = send_coded_abs [OF mid this sc]
      have "same_config e e'" using cfg(1) sent by (blast intro: same_config_trans)
      then show ?thesis using sent ext abs1 evs unfolding vals cfg(2,3)
        by (intro conjI disjI2 exI [of _ \<sigma>']) auto
    qed
  qed
qed

lemma enc_seq_step:
  assumes abs: "enc_abs e \<sigma>" and ok: "SendPacket env e = Inr (e', evs)"
    and bound: "enc_seq e + 1 < unat (e_rqnval e) * 2 ^ 32"
  shows "(\<exists>\<sigma>'. enc_abs e' \<sigma>') \<and> e_rqnval e' = e_rqnval e
    \<and> enc_seq e' = enc_seq e + length (sent_headers evs)
    \<and> map m_seqno (sent_headers evs) = map of_nat [enc_seq e..<enc_seq e']"
proof -
  have lt: "unat (e_esi e) < unat (e_rqnval e)"
    using abs by (simp add: enc_abs_def enc_wf_def word_less_nat_alt)
  then have esi: "unat (e_esi e + 1) = Suc (unat (e_esi e))"
    using unat_u32_bound [of "e_rqnval e"] by (subst unat_plus_one_u32) auto
  have sbid: "Suc (unat (e_esi e)) = unat (e_rqnval e) \<Longrightarrow> unat (e_sbid e + 1) = Suc (unat (e_sbid e))"
  proof -
    assume "Suc (unat (e_esi e)) = unat (e_rqnval e)"
    with bound have "unat (e_rqnval e) * Suc (unat (e_sbid e)) < unat (e_rqnval e) * 2 ^ 32"
      unfolding enc_seq_def mult_Suc_right by linarith
    then have "Suc (unat (e_sbid e)) < 2 ^ 32" by (rule mult_less_cancel1 [THEN iffD1, THEN conjunct2])
    then show ?thesis by (simp add: unat_plus_one_u32)
  qed
  have cfg: "e_rqnval e' = e_rqnval e"
    using SendPacket_step [OF abs ok] by (simp add: same_config_def)
  from SendPacket_step [OF abs ok] consider
      (none) "sent_headers evs = []" "e_esi e' = e_esi e" "e_sbid e' = e_sbid e" "enc_abs e' \<sigma>"
    | (wrap) \<sigma>' where "Suc (unat (e_esi e)) = unat (e_rqnval e)" "e_esi e' = 0" "e_sbid e' = e_sbid e + 1" "enc_abs e' []"
        "sent_headers evs = [block_header (unat (e_rqnval e)) (unat (e_rqkval e)) (e_nRxSlots e) \<sigma>'
                  (unat (e_sbid e)) (unat (e_esi e))]"
    | (more) \<sigma>' where "e_esi e' = e_esi e + 1" "e_sbid e' = e_sbid e" "enc_abs e' \<sigma>'"
        "sent_headers evs = [block_header (unat (e_rqnval e)) (unat (e_rqkval e)) (e_nRxSlots e) \<sigma>'
                  (unat (e_sbid e)) (unat (e_esi e))]"
    by (auto split: if_splits)
  then show ?thesis
  proof cases
    case none
    with cfg show ?thesis by (auto simp: enc_seq_def)
  next
    case (wrap \<sigma>')
    have "enc_seq e' = Suc (enc_seq e)"
      using wrap sbid by (simp add: enc_seq_def cfg)
    then show ?thesis using wrap cfg by (auto simp: block_header_def enc_seq_def)
  next
    case (more \<sigma>')
    have "enc_seq e' = Suc (enc_seq e)"
      using more esi by (simp add: enc_seq_def cfg)
    then show ?thesis using more cfg by (auto simp: block_header_def enc_seq_def)
  qed
qed

lemma enc_run_Nil [simp]: "enc_run [] e = Inr (e, [])"
  by (simp add: enc_run_def)

lemma enc_run_snoc:
  "enc_run (envs @ [env]) e =
     bindE (enc_run envs e) (\<lambda>(e', evs). bindE (SendPacket env e') (\<lambda>(e'', evs'). Inr (e'', evs @ evs')))"
  by (simp add: enc_run_def foldE_append bindE_def split: sum.splits prod.splits)

lemma block_header_update:
  "j < m \<Longrightarrow> m < K \<Longrightarrow> block_header N K n (\<sigma>[m := s]) b j = block_header N K n \<sigma> b j"
  by (simp add: block_header_def)

definition enc_run_inv ::
  "'a RqEncoder_scheme \<Rightarrow> 'a RqEncoder_scheme \<Rightarrow> (nat \<Rightarrow> nat list) \<Rightarrow> nat list \<Rightarrow> RqHeader list \<Rightarrow> bool" where
  "enc_run_inv e0 e \<Sigma> \<sigma> hs \<longleftrightarrow>
     (let N = unat (e_rqnval e0); K = unat (e_rqkval e0); n = e_nRxSlots e0 in
      same_config e0 e \<and> enc_abs e \<sigma> \<and> enc_seq e = length hs
      \<and> (\<forall>b. length (\<Sigma> b) = K \<and> set (\<Sigma> b) \<subseteq> {..<n}) \<and> take (length \<sigma>) (\<Sigma> (unat (e_sbid e))) = \<sigma>
      \<and> hs = map (\<lambda>m. block_header N K n (\<Sigma> (m div N)) (m div N) (m mod N)) [0..<length hs])"

lemma enc_run_inv_start:
  assumes "enc_abs e []" "enc_seq e = 0"
  shows "\<exists>\<Sigma> \<sigma>. enc_run_inv e e \<Sigma> \<sigma> []"
proof -
  have "0 < e_nRxSlots e" using assms(1) by (auto simp: enc_abs_def enc_wf_def)
  then have "enc_run_inv e e (\<lambda>_. replicate (unat (e_rqkval e)) 0) [] []"
    using assms by (auto simp: enc_run_inv_def same_config_def Let_def)
  then show ?thesis by blast
qed

text \<open>The next coded packet extends the streams of its block by at most one packet, and leaves the headers
  that have been sent as they are.\<close>

lemma extend_streams:
  assumes \<Sigma>: "\<And>b. length (\<Sigma> b) = K" "\<And>b. set (\<Sigma> b) \<subseteq> {..<n}" and pre: "take (length \<sigma>) (\<Sigma> b) = \<sigma>"
    and len\<sigma>: "length \<sigma> = min j K" and jN: "j < N" and ext: "if j < K then \<exists>s<n. \<sigma>' = \<sigma> @ [s] else \<sigma>' = \<sigma>"
  shows "\<exists>\<Sigma>'. (\<forall>b. length (\<Sigma>' b) = K \<and> set (\<Sigma>' b) \<subseteq> {..<n}) \<and> take (length \<sigma>') (\<Sigma>' b) = \<sigma>'
      \<and> (\<forall>m < N * b + j. block_header N K n (\<Sigma>' (m div N)) (m div N) (m mod N)
              = block_header N K n (\<Sigma> (m div N)) (m div N) (m mod N))
      \<and> block_header N K n \<sigma>' b j = block_header N K n (\<Sigma>' b) b j"
proof (cases "j < K")
  case False
  with ext have "\<sigma>' = \<sigma>" by simp
  moreover have "\<Sigma> b = \<sigma>" using pre len\<sigma> False \<Sigma>(1) by simp
  ultimately show ?thesis using \<Sigma> by (intro exI [of _ \<Sigma>]) auto
next
  case True
  with ext obtain s where s: "s < n" "\<sigma>' = \<sigma> @ [s]" by auto
  have len: "length \<sigma> = j" using len\<sigma> True by simp
  have pre': "take (Suc j) ((\<Sigma> b)[j := s]) = \<sigma>'"
    using True len pre s \<Sigma>(1) by (simp add: take_Suc_conv_app_nth)
  have "block_header N K n \<sigma>' b j = block_header N K n ((\<Sigma> b)[j := s]) b j"
    using pre' True len s \<Sigma>(1) by (simp add: block_header_def nth_append)
  moreover have "set ((\<Sigma> b)[j := s]) \<subseteq> {..<n}"
    using set_update_subset_insert [of "\<Sigma> b" j s] \<Sigma>(2) [of b] s(1) by auto
  moreover have "m mod N < j" if "m < N * b + j" "m div N = b" for m
    using that div_mult_mod_eq [of m N] by (simp add: mult.commute)
  ultimately show ?thesis using \<Sigma> pre' True len s
    by (intro exI [of _ "\<Sigma>(b := (\<Sigma> b)[j := s])"]) (auto simp: block_header_update)
qed

lemma enc_run_invD:
  assumes "enc_run_inv e0 e \<Sigma> \<sigma> hs" and "N = unat (e_rqnval e0)" "K = unat (e_rqkval e0)" "n = e_nRxSlots e0"
  shows "same_config e0 e" "enc_abs e \<sigma>" "enc_seq e = length hs" "length (\<Sigma> b) = K" "set (\<Sigma> b) \<subseteq> {..<n}"
    and "take (length \<sigma>) (\<Sigma> (unat (e_sbid e))) = \<sigma>"
    and "hs = map (\<lambda>m. block_header N K n (\<Sigma> (m div N)) (m div N) (m mod N)) [0..<length hs]"
    and "unat (e_rqnval e) = N" "unat (e_rqkval e) = K" "e_nRxSlots e = n" "unat (e_esi e) < N"
    and "length hs = N * unat (e_sbid e) + unat (e_esi e)" "length \<sigma> = min (unat (e_esi e)) K"
proof -
  have cfg: "same_config e0 e" and abs: "enc_abs e \<sigma>" and sq: "enc_seq e = length hs"
    and \<Sigma>: "\<And>b. length (\<Sigma> b) = K \<and> set (\<Sigma> b) \<subseteq> {..<n}"
    and pre: "take (length \<sigma>) (\<Sigma> (unat (e_sbid e))) = \<sigma>"
    and hs: "hs = map (\<lambda>m. block_header N K n (\<Sigma> (m div N)) (m div N) (m mod N)) [0..<length hs]"
    using assms by (simp_all add: enc_run_inv_def Let_def)
  show "same_config e0 e" "enc_abs e \<sigma>" "enc_seq e = length hs" by fact+
  show "length (\<Sigma> b) = K" "set (\<Sigma> b) \<subseteq> {..<n}" using \<Sigma> by blast+
  show "take (length \<sigma>) (\<Sigma> (unat (e_sbid e))) = \<sigma>"
    "hs = map (\<lambda>m. block_header N K n (\<Sigma> (m div N)) (m div N) (m mod N)) [0..<length hs]" by fact+
  show v: "unat (e_rqnval e) = N" "unat (e_rqkval e) = K" "e_nRxSlots e = n"
    using cfg assms(2-4) by (simp_all add: same_config_def)
  show "unat (e_esi e) < N" using abs v(1) by (simp add: enc_abs_def enc_wf_def word_less_nat_alt)
  show "length hs = N * unat (e_sbid e) + unat (e_esi e)" using sq v(1) by (simp add: enc_seq_def)
  show "length \<sigma> = min (unat (e_esi e)) K" using abs v(2) by (simp add: enc_abs_def)
qed

lemma enc_run_inv_step:
  assumes inv: "enc_run_inv e0 e \<Sigma> \<sigma> hs" and ok: "SendPacket env e = Inr (e', evs)"
    and bound: "length hs + 1 < unat (e_rqnval e0) * 2 ^ 32"
  shows "\<exists>\<Sigma>' \<sigma>'. enc_run_inv e0 e' \<Sigma>' \<sigma>' (hs @ sent_headers evs) \<and> length (sent_headers evs) \<le> 1"
proof -
  define N K n where "N = unat (e_rqnval e0)" and "K = unat (e_rqkval e0)" and "n = e_nRxSlots e0"
  define b j where "b = unat (e_sbid e)" and "j = unat (e_esi e)"
  note f = enc_run_invD [OF inv N_def K_def n_def, folded b_def j_def]
  have "enc_seq e + 1 < unat (e_rqnval e) * 2 ^ 32" using bound f(3,8) by (simp add: N_def)
  note st = SendPacket_step [OF f(2) ok] and sqst = enc_seq_step [OF f(2) ok this]
  have cfg': "same_config e0 e'" using f(1) st by (blast intro: same_config_trans)
  have sq': "enc_seq e' = length (hs @ sent_headers evs)" using sqst f(3) by simp
  from st consider
      (none) "sent_headers evs = []" "e_sbid e' = e_sbid e" "enc_abs e' \<sigma>"
    | (sent) \<sigma>' where "extends_by_source e \<sigma> \<sigma>'" "sent_headers evs = [block_header N K n \<sigma>' b j]"
        "enc_abs e' [] \<or> e_sbid e' = e_sbid e \<and> enc_abs e' \<sigma>'"
    unfolding f(8-10) b_def [symmetric] j_def [symmetric] by (auto split: if_splits)
  then show ?thesis
  proof cases
    case none
    then have "enc_run_inv e0 e' \<Sigma> \<sigma> (hs @ sent_headers evs)"
      using inv cfg' sq' by (simp add: enc_run_inv_def Let_def)
    with none show ?thesis by auto
  next
    case (sent \<sigma>')
    have "if j < K then \<exists>s<n. \<sigma>' = \<sigma> @ [s] else \<sigma>' = \<sigma>"
      using sent(1) f(9,10) by (auto simp: extends_by_source_def word_less_nat_alt j_def)
    from extend_streams [where \<Sigma> = \<Sigma>, OF f(4,5,6,13,11) this] obtain \<Sigma>' where
      \<Sigma>': "\<forall>b. length (\<Sigma>' b) = K \<and> set (\<Sigma>' b) \<subseteq> {..<n}" "take (length \<sigma>') (\<Sigma>' b) = \<sigma>'"
        "block_header N K n \<sigma>' b j = block_header N K n (\<Sigma>' b) b j"
      and old: "\<forall>m < N * b + j. block_header N K n (\<Sigma>' (m div N)) (m div N) (m mod N)
          = block_header N K n (\<Sigma> (m div N)) (m div N) (m mod N)" by blast
    have "map (\<lambda>m. block_header N K n (\<Sigma>' (m div N)) (m div N) (m mod N)) [0..<length hs] = hs"
      by (subst f(7)) (simp add: old f(12) [symmetric])
    moreover have "length hs div N = b" "length hs mod N = j" using f(11,12) by auto
    ultimately have hs': "hs @ sent_headers evs =
      map (\<lambda>m. block_header N K n (\<Sigma>' (m div N)) (m div N) (m mod N)) [0..<length (hs @ sent_headers evs)]"
      using sent(2) \<Sigma>'(3) by simp
    from sent(3) have "enc_run_inv e0 e' \<Sigma>' [] (hs @ sent_headers evs) \<or> enc_run_inv e0 e' \<Sigma>' \<sigma>' (hs @ sent_headers evs)"
      using cfg' sq' \<Sigma>'(1,2) hs' by (auto simp: enc_run_inv_def Let_def N_def K_def n_def b_def)
    with sent(2) show ?thesis by auto
  qed
qed

lemma make_header_size:
  assumes "enc_wf e" "unat sz + 52 < 2 ^ 32"
  shows "unat (sz + GetSerializedSize (make_header streamid e)) = unat sz + 20 + 4 * e_nRxSlots e"
proof -
  have "length (m_iseq_data (make_header streamid e)) = e_nRxSlots e" and n: "e_nRxSlots e \<le> 8"
    using assms by (simp_all add: make_header_def RqHeader_make_def enc_wf_def)
  then have "unat (GetSerializedSize (make_header streamid e)) = 20 + 4 * e_nRxSlots e"
    by (simp add: unat_GetSerializedSize)
  with assms(2) n show ?thesis by (simp add: unat_plus_u32)
qed

lemma guard_size:
  assumes "e_nRxSlots e \<le> 8" "unat (e_rqtval e) + 52 < 2 ^ 32"
  shows "unat (e_rqtval e + GetMinSerializedSize + of_nat (e_nRxSlots e) * 4) = unat (e_rqtval e) + 20 + 4 * e_nRxSlots e"
proof -
  have "e_rqtval e + GetMinSerializedSize + of_nat (e_nRxSlots e) * 4
      = of_nat (unat (e_rqtval e) + 20 + 4 * e_nRxSlots e)"
    by (simp add: GetMinSerializedSize_def)
  moreover have "unat (of_nat (unat (e_rqtval e) + 20 + 4 * e_nRxSlots e) :: u32) = unat (e_rqtval e) + 20 + 4 * e_nRxSlots e"
    using assms by (intro unat_of_nat_small) simp
  ultimately show ?thesis by (simp only:)
qed

definition source_size_ok :: "enc_env \<Rightarrow> u32 \<Rightarrow> bool" where
  "source_size_ok env t \<longleftrightarrow> (\<forall>s. \<exists>n. recv_packet env s = Some n \<and> n \<le> t)"

lemma get_payload_total:
  assumes abs: "enc_abs e \<sigma>" and src: "source_size_ok env (e_rqtval e)"
  shows "\<exists>e1 evs payload. get_payload env e = Inr (e1, evs, payload)
     \<and> (\<forall>sz streamid. payload = Some (sz, streamid) \<longrightarrow> sz \<le> e_rqtval e)"
proof (cases "e_esi e < e_rqkval e")
  case False
  then show ?thesis by (auto simp: get_payload_def)
next
  case True
  have "e_nextRxSlot e < e_nRxSlots e" using abs by (simp add: enc_abs_def enc_wf_def)
  note probe = probe_slots_same [OF this, of "slot_readable env e"]
  show ?thesis
  proof (cases "find (slot_readable env e) (rotate (e_nextRxSlot e) [0..<e_nRxSlots e])")
    case None
    with True probe show ?thesis by (auto simp: get_payload_def)
  next
    case (Some slot)
    let ?s = "hd (accepted_socks (m_rxSlots e ! slot))"
    from src obtain n where "recv_packet env ?s = Some n" "n \<le> e_rqtval e"
      unfolding source_size_ok_def by blast
    with True probe Some show ?thesis by (auto simp: get_payload_def read_source_def Let_def)
  qed
qed

lemma count_rx_slots_le: "count_rx_slots p \<le> length (m_rxSlots p)"
  by (simp add: count_rx_slots_def length_takeWhile_le)

text \<open>A started encoder is in a state the abstract encoder describes.\<close>

lemma started_encoder_abs:
  assumes "StartApplication senv e = Inr (e1, cs)" and "wf_slots e"
    and "\<not> IsInvalid (tx_addr (m_txSlots e ! 0))" and "count_rx_slots e1 \<noteq> 0"
    and "e_nextRxSlot e = 0" "e_esi e = 0" "0 < e_rqnval e" "e_symbcounts e = replicate RX_SLOT_COUNT 0"
  shows "enc_abs (e1\<lparr>e_nRxSlots := count_rx_slots e1\<rparr>) []"
proof -
  have wf1: "wf_slots e1" using StartApplication_wf [OF assms(1,2)] .
  have "0 < length (m_txSlots e)" using assms(2) by (simp add: wf_slots_def)
  then obtain c where "start_tx_slot senv 0 (m_txSlots e ! 0) = Inr (m_txSlots e1 ! 0, c)"
    using StartApplication_nth(2) [OF assms(1)] by blast
  then have "tx_sock (m_txSlots e1 ! 0) \<noteq> None"
    using assms(3) by (auto dest: start_tx_slot_socket)
  moreover obtain rxs txs where "e1 = e\<lparr>m_rxSlots := rxs, m_txSlots := txs\<rparr>"
    using StartApplication_slots [OF assms(1)] by blast
  moreover have "count_rx_slots e1 \<le> RX_SLOT_COUNT"
    using count_rx_slots_le [of e1] wf1 by (simp add: wf_slots_def)
  ultimately show ?thesis
    using assms(4-) wf1 by (simp add: enc_abs_def enc_wf_def wf_slots_def)
qed

section \<open>Properties\<close>

text \<open>
  C30. Round robin. The \<open>do\<close>-\<open>while\<close> loop of \<open>SendPacket\<close> over the receive slots always ends; it
  returns the first readable slot of the cyclic order that starts at \<open>m_nextRxSlot\<close> and moves the
  position right behind it, or, when no slot is readable, comes back to where it started.
\<close>

theorem probe_slots_round_robin:
  assumes "slot < n"
  shows "probe_slots readable n slot slot =
    Some (case find readable (rotate slot [0..<n]) of
            None \<Rightarrow> (slot, None)
          | Some s \<Rightarrow> (if Suc s = n then 0 else Suc s, Some s))"
  using probe_slots_same [OF assms] by (simp only: succ_slot_def)

theorem probe_slots_round_robin_witness:
  "probe_slots (\<lambda>s. s < 2) 3 2 2 = Some (1, Some 0) \<and> (2 :: nat) < 3"
proof -
  have "rotate 2 [0..<3] = [2, 0, 1 :: nat]" by (simp add: upt_rec numeral_eq_Suc rotate_def)
  with probe_slots_round_robin [of 2 3 "\<lambda>s. s < 2"] show ?thesis by simp
qed

lemma enc_run_blocks:
  assumes "enc_abs e []" and "enc_seq e = 0" and "enc_run envs e = Inr (e', evs)"
    and "length envs < unat (e_rqnval e) * 2 ^ 32"
  shows "\<exists>\<Sigma>. (\<forall>b. length (\<Sigma> b) = unat (e_rqkval e) \<and> set (\<Sigma> b) \<subseteq> {..<e_nRxSlots e})
    \<and> sent_headers evs =
        map (\<lambda>m. block_header (unat (e_rqnval e)) (unat (e_rqkval e)) (e_nRxSlots e)
               (\<Sigma> (m div unat (e_rqnval e))) (m div unat (e_rqnval e)) (m mod unat (e_rqnval e)))
          [0..<length (sent_headers evs)]
    \<and> length (sent_headers evs) \<le> length envs"
proof -
  have "\<exists>\<Sigma> \<sigma>. enc_run_inv e e' \<Sigma> \<sigma> (sent_headers evs) \<and> length (sent_headers evs) \<le> length envs"
    using assms(3,4)
  proof (induction envs arbitrary: e' evs rule: rev_induct)
    case Nil
    with assms(1,2) show ?case by (auto intro: enc_run_inv_start)
  next
    case (snoc env envs)
    from snoc.prems obtain e1 evs1 evs2 where run: "enc_run envs e = Inr (e1, evs1)"
      and st: "SendPacket env e1 = Inr (e', evs2)" and evs: "evs = evs1 @ evs2"
      by (auto simp: enc_run_snoc)
    from snoc.IH [OF run] snoc.prems obtain \<Sigma> \<sigma> where
      IH: "enc_run_inv e e1 \<Sigma> \<sigma> (sent_headers evs1)" "length (sent_headers evs1) \<le> length envs"
      by auto
    with enc_run_inv_step [OF IH(1) st] snoc.prems(2) evs show ?case by fastforce
  qed
  then show ?thesis unfolding enc_run_inv_def Let_def by blast
qed

text \<open>
  C10. \<open>RqEncoder\<close> refines the abstract block encoder. Over any run of the send event from a fresh
  encoder, whatever the sockets answer and however many time slots are skipped, the headers sent
  are, in order and without a gap, the packets \<open>0, 1, 2, \<dots>\<close> of one assignment \<open>\<Sigma>\<close> of source
  slots to blocks: packet \<open>m\<close> is number \<open>m mod N\<close> of block \<open>m div N\<close>, carries sequence number \<open>m\<close>,
  names the slot of its source packet (\<open>-1\<close> from position \<open>K\<close> on), and counts the source packets
  of each slot so far. (The bound keeps the 32-bit block number from wrapping.)
\<close>

theorem enc_run_refines_blocks:
  assumes "enc_abs e []" and "enc_seq e = 0" and "enc_run envs e = Inr (e', evs)"
    and "length envs < unat (e_rqnval e) * 2 ^ 32"
  shows "\<exists>\<Sigma>. (\<forall>b. length (\<Sigma> b) = unat (e_rqkval e) \<and> set (\<Sigma> b) \<subseteq> {..<e_nRxSlots e})
    \<and> sent_headers evs =
        map (\<lambda>m. block_header (unat (e_rqnval e)) (unat (e_rqkval e)) (e_nRxSlots e)
               (\<Sigma> (m div unat (e_rqnval e))) (m div unat (e_rqnval e)) (m mod unat (e_rqnval e)))
          [0..<length (sent_headers evs)]"
  using enc_run_blocks [OF assms] by blast

text \<open>A fresh encoder with one receive slot that has accepted connection 7.\<close>

definition example_encoder :: RqEncoder where
  "example_encoder = init_RqEncoder
     \<lparr>m_rxSlots := init_RxSlot\<lparr>rx_addr := InetAddr 0 1001, accepted_socks := [7]\<rparr> # replicate 7 init_RxSlot,
      m_txSlots := init_TxSlot\<lparr>tx_addr := InetAddr 5 1002, tx_sock := Some 9\<rparr> # replicate 7 init_TxSlot,
      e_rqkval := 2, e_rqnval := 3, e_rqtval := 10, e_nRxSlots := 1\<rparr>"

definition example_enc_env :: enc_env where
  "example_enc_env = \<lparr>tx_available = (\<lambda>_. 1000), rx_available = (\<lambda>_. 10), recv_packet = (\<lambda>_. Some 10),
     send_result = (\<lambda>_ n. n)\<rparr>"

lemma example_encoder_abs: "enc_abs example_encoder [] \<and> enc_seq example_encoder = 0"
  by (simp add: example_encoder_def init_RqEncoder_def enc_abs_def enc_wf_def wf_slots_def enc_seq_def
      init_ProxyBase_def ProxyBase.defs)

lemma example_run:
  "case enc_run (replicate 4 example_enc_env) example_encoder of Inl _ \<Rightarrow> False
     | Inr (e', evs) \<Rightarrow> map m_seqno (sent_headers evs) = [0, 1, 2, 3]
         \<and> map m_iseq_streamid (sent_headers evs) = [0, 0, -1, 0]
         \<and> map m_iseq_data (sent_headers evs) = [[1], [2], [2], [1]]"
  by code_simp

theorem enc_run_refines_blocks_witness:
  "\<exists>e' evs \<Sigma>. enc_run (replicate 4 example_enc_env) example_encoder = Inr (e', evs)
     \<and> map m_seqno (sent_headers evs) = [0, 1, 2, 3]
     \<and> sent_headers evs = map (\<lambda>m. block_header 3 2 1 (\<Sigma> (m div 3)) (m div 3) (m mod 3)) [0..<4]"
proof -
  from example_run obtain e' evs where run: "enc_run (replicate 4 example_enc_env) example_encoder = Inr (e', evs)"
     "map m_seqno (sent_headers evs) = [0, 1, 2, 3]"
    by (auto split: sum.splits prod.splits)
  have cfg: "unat (e_rqnval example_encoder) = 3" "unat (e_rqkval example_encoder) = 2" "e_nRxSlots example_encoder = 1"
    by (simp_all add: example_encoder_def)
  have len: "length (sent_headers evs) = 4" using arg_cong [OF run(2), of length] by simp
  from enc_run_refines_blocks [OF _ _ run(1)] example_encoder_abs obtain \<Sigma> where
    "sent_headers evs = map (\<lambda>m. block_header 3 2 1 (\<Sigma> (m div 3)) (m div 3) (m mod 3)) [0..<4]"
    unfolding cfg len by auto
  with run show ?thesis by (intro exI conjI)
qed



end
