(* ===== verification/Rq_Decoder.thy ===== *)
theory Rq_Decoder
  imports Rq_Header Proxy_Base
begin

text \<open>
  \<open>RqDecoder\<close>, \<open>ns3_apps/rq-decoder.h\<close> and \<open>ns3_apps/rq-decoder.cc\<close>: receives coded packets on
  receive slot 0, tracks per source block how many packets arrived and per stream how many
  source packets are known, credits bytes to the transmit slots and forwards them.

  A received packet is the pair of what \<open>PeekHeader\<close> returns and the header it fills in. The
  counters are C++ \<open>int\<close>s that start at zero and grow by one per packet, modelled as \<open>int\<close>; the
  sequence number's conversion to \<open>int\<close> and the 32-bit byte counter are kept at their width.
\<close>

section \<open>State\<close>

record SlotState =
  m_nbuffered :: u32
  m_nsymbcontig :: int
  m_nsymb :: int

record RqDecoder = ProxyBase +
  d_rqkval :: int
  d_rqnval :: int
  d_rqtval :: u32
  d_sbid :: int
  d_sb_nrcv :: int
  d_sb_nsrcrcv :: int
  d_nslots :: nat
  d_slotStates :: "SlotState list"

definition init_SlotState :: SlotState where
  "init_SlotState = \<lparr>m_nbuffered = 0, m_nsymbcontig = 0, m_nsymb = 0\<rparr>"

definition init_RqDecoder :: RqDecoder where
  "init_RqDecoder = ProxyBase.extend init_ProxyBase
     \<lparr>d_rqkval = 100, d_rqnval = 120, d_rqtval = 1024, d_sbid = -1, d_sb_nrcv = 0, d_sb_nsrcrcv = 0,
      d_nslots = 0, d_slotStates = replicate TX_SLOT_COUNT init_SlotState\<rparr>"

definition RqDecoder_attributes :: "attr_spec list" where
  "RqDecoder_attributes =
     [(''Tval'', UintegerValue 1024, Some 1),
      (''Kval'', UintegerValue 100, Some 1),
      (''Nval'', UintegerValue 120, Some 1)]
     @ SetTidDefaultProtocols ''ns3::UdpSocketFactory'' ''ns3::TcpSocketFactory''"

definition RqDecoder_trace_sources :: "string list" where
  "RqDecoder_trace_sources = [''RqDecodingEvent'']"

text \<open>The result of a decoding operation; \<open>slotinfo\<close> holds the \<open>n_slots\<close> entries the code fills.\<close>

record SlotDecodeInfo =
  si_n_src_rcv :: int
  si_n_contig_src_rcv :: int

record DecodeInfo =
  i_sbid :: u32
  i_success :: bool
  i_n_rcv :: int
  i_n_src_rcv :: int
  i_slotinfo :: "SlotDecodeInfo list"
  i_n_slots :: nat

type_synonym rx_packet = "u32 \<times> RqHeader"

datatype dec_event =
    RxTrace rx_packet
  | RqDecodingTrace DecodeInfo
  | TxTrace nat u32

section \<open>Starting\<close>

definition count_tx_slots :: "'a ProxyBase_scheme \<Rightarrow> nat" where
  "count_tx_slots p = length (takeWhile (\<lambda>sl. \<not> IsInvalid (tx_addr sl)) (m_txSlots p))"

definition Decoder_StartApplication ::
  "sock_env \<Rightarrow> 'a RqDecoder_scheme \<Rightarrow> fault + ('a RqDecoder_scheme \<times> proxy_call list)" where
  "Decoder_StartApplication env d =
     bindE (StartApplication env d) (\<lambda>(d', cs). Inr (d'\<lparr>d_nslots := count_tx_slots d'\<rparr>, cs))"

section \<open>Receiving\<close>

definition PopulateDecodeInfo :: "'a RqDecoder_scheme \<Rightarrow> DecodeInfo" where
  "PopulateDecodeInfo d =
     \<lparr>i_sbid = of_int (d_sbid d),
      i_success = (d_sb_nrcv d \<ge> d_rqkval d),
      i_n_rcv = d_sb_nrcv d,
      i_n_src_rcv = d_sb_nsrcrcv d,
      i_slotinfo = map (\<lambda>i. \<lparr>si_n_src_rcv = m_nsymb (d_slotStates d ! i),
                             si_n_contig_src_rcv = m_nsymbcontig (d_slotStates d ! i)\<rparr>) [0..<d_nslots d],
      i_n_slots = d_nslots d\<rparr>"

text \<open>The loops over the first \<open>m_nslots\<close> slot states.\<close>

definition map_slots :: "nat \<Rightarrow> (nat \<Rightarrow> SlotState \<Rightarrow> SlotState) \<Rightarrow> SlotState list \<Rightarrow> SlotState list" where
  "map_slots n f sts = map (\<lambda>i. if i < n then f i (sts ! i) else sts ! i) [0..<length sts]"

definition advance_block :: "int \<Rightarrow> 'a RqDecoder_scheme \<Rightarrow> 'a RqDecoder_scheme \<times> dec_event list" where
  "advance_block sbid d =
     (d\<lparr>d_sbid := sbid, d_sb_nrcv := 0, d_sb_nsrcrcv := 0,
        d_slotStates := map_slots (d_nslots d) (\<lambda>_ st. st\<lparr>m_nsymbcontig := 0, m_nsymb := 0\<rparr>) (d_slotStates d)\<rparr>,
      if d_sbid d \<ge> 0 then [RqDecodingTrace (PopulateDecodeInfo d)] else [])"

definition update_nsymb :: "u32 list \<Rightarrow> 'a RqDecoder_scheme \<Rightarrow> 'a RqDecoder_scheme" where
  "update_nsymb iseq d =
     d\<lparr>d_slotStates := map_slots (d_nslots d)
         (\<lambda>i st. if sint (iseq ! i) > m_nsymb st then st\<lparr>m_nsymb := sint (iseq ! i)\<rparr> else st) (d_slotStates d)\<rparr>"

definition update_stream :: "int \<Rightarrow> 'a RqDecoder_scheme \<Rightarrow> fault + 'a RqDecoder_scheme" where
  "update_stream streamid d =
     (if streamid = -1 then Inr d
      else if streamid < 0 \<or> int (length (d_slotStates d)) \<le> streamid then Inl OutOfBounds
      else let st = d_slotStates d ! nat streamid
        in if m_nsymbcontig st + 1 = m_nsymb st
           then Inr (d\<lparr>d_slotStates := (d_slotStates d)[nat streamid :=
                    st\<lparr>m_nsymbcontig := m_nsymbcontig st + 1, m_nbuffered := m_nbuffered st + d_rqtval d\<rparr>]\<rparr>)
           else Inr d)"

definition count_symbol :: "int \<Rightarrow> 'a RqDecoder_scheme \<Rightarrow> 'a RqDecoder_scheme" where
  "count_symbol esi d =
     d\<lparr>d_sb_nrcv := d_sb_nrcv d + 1,
       d_sb_nsrcrcv := (if esi < d_rqkval d then d_sb_nsrcrcv d + 1 else d_sb_nsrcrcv d)\<rparr>"

definition try_decode :: "'a RqDecoder_scheme \<Rightarrow> 'a RqDecoder_scheme \<times> dec_event list" where
  "try_decode d =
     (if d_sb_nrcv d = d_rqkval d
      then let d' = d\<lparr>d_slotStates := map_slots (d_nslots d)
                  (\<lambda>_ st. st\<lparr>m_nbuffered := m_nbuffered st
                       + of_int (m_nsymb st - m_nsymbcontig st) * d_rqtval d\<rparr>) (d_slotStates d)\<rparr>
           in (d', [RqDecodingTrace (PopulateDecodeInfo d')])
      else (d, []))"

text \<open>One iteration of the receive loop.\<close>

definition process_symbol ::
  "int \<Rightarrow> RqHeader \<Rightarrow> 'a RqDecoder_scheme \<Rightarrow> fault + ('a RqDecoder_scheme \<times> dec_event list)" where
  "process_symbol esi h d =
     bindE (guardE (d_nslots d = length (GetIseqData h)) AssertFail) (\<lambda>_.
     bindE (update_stream (sint (GetIseqStreamID h)) (update_nsymb (GetIseqData h) d)) (\<lambda>d'.
       Inr (try_decode (count_symbol esi d'))))"

definition packet_id :: "RqHeader \<Rightarrow> int" where
  "packet_id h = sint (ucast (GetSeqno h) :: u32)"

definition receive_packet ::
  "'a RqDecoder_scheme \<Rightarrow> rx_packet \<Rightarrow> fault + ('a RqDecoder_scheme \<times> dec_event list)" where
  "receive_packet d pkt =
     (let (peeked, h) = pkt
      in if peeked < GetMinSerializedSize \<or> \<not> IsValid h
         then Inl (AbortMsg ''Malformed packet received in RqDecoder.'')
         else let pkt_id = packet_id h;
                  sbid = pkt_id sdiv d_rqnval d;
                  esi = pkt_id smod d_rqnval d;
                  evs = [RxTrace pkt]
           in if sbid > d_sbid d
              then let (d', evs') = advance_block sbid d
                in bindE (process_symbol esi h d') (\<lambda>(d'', evs''). Inr (d'', evs @ evs' @ evs''))
              else if sbid < d_sbid d then Inr (d, evs)
              else bindE (process_symbol esi h d) (\<lambda>(d', evs'). Inr (d', evs @ evs')))"

definition receive_all ::
  "'a RqDecoder_scheme \<Rightarrow> rx_packet list \<Rightarrow> fault + ('a RqDecoder_scheme \<times> dec_event list)" where
  "receive_all d pkts =
     foldE (\<lambda>(d, evs) pkt. bindE (receive_packet d pkt) (\<lambda>(d', evs'). Inr (d', evs @ evs'))) (d, []) pkts"

section \<open>Forwarding\<close>

record dec_env =
  dec_tx_available :: "nat \<Rightarrow> u32"       \<comment> \<open>per slot\<close>
  dec_send_result :: "nat \<Rightarrow> u32 \<Rightarrow> u32"

definition TryToSend ::
  "dec_env \<Rightarrow> nat \<Rightarrow> 'a RqDecoder_scheme \<Rightarrow> fault + ('a RqDecoder_scheme \<times> dec_event list)" where
  "TryToSend env slotID d =
     (let sl = m_txSlots d ! slotID; ss = d_slotStates d ! slotID
      in if \<not> connected sl then Inr (d, [])
         else if m_nbuffered ss = 0 then Inr (d, [])
         else if tx_sock sl = None then Inl NullPointer
         else let txavail = dec_tx_available env slotID
           in if txavail = 0 then Inr (d, [])
              else let amount = min txavail (m_nbuffered ss);
                       sent = dec_send_result env slotID amount
                in bindE (guardE (sent = amount) AssertFail) (\<lambda>_.
                   Inr (d\<lparr>d_slotStates := (d_slotStates d)[slotID := ss\<lparr>m_nbuffered := m_nbuffered ss - sent\<rparr>],
                          m_txSlots := (m_txSlots d)[slotID := sl\<lparr>tx_total := tx_total sl + ucast sent\<rparr>]\<rparr>,
                        [TxTrace slotID amount])))"

definition try_all ::
  "dec_env \<Rightarrow> 'a RqDecoder_scheme \<Rightarrow> nat list \<Rightarrow> fault + ('a RqDecoder_scheme \<times> dec_event list)" where
  "try_all env d slots =
     foldE (\<lambda>(d, evs) i. bindE (TryToSend env i d) (\<lambda>(d', evs'). Inr (d', evs @ evs'))) (d, []) slots"

definition Decoder_HandleRead ::
  "dec_env \<Rightarrow> nat \<Rightarrow> rx_packet list \<Rightarrow> 'a RqDecoder_scheme
     \<Rightarrow> fault + ('a RqDecoder_scheme \<times> dec_event list)" where
  "Decoder_HandleRead env slotID pkts d =
     bindE (guardE (slotID = 0) AssertFail) (\<lambda>_.
     bindE (receive_all d pkts) (\<lambda>(d', evs).
     bindE (try_all env d' [0..<d_nslots d']) (\<lambda>(d'', evs'). Inr (d'', evs @ evs'))))"

definition Decoder_HandleSend ::
  "dec_env \<Rightarrow> nat \<Rightarrow> 'a RqDecoder_scheme \<Rightarrow> fault + ('a RqDecoder_scheme \<times> dec_event list)" where
  "Decoder_HandleSend env slotID d = TryToSend env slotID d"

fun decode_infos :: "dec_event list \<Rightarrow> DecodeInfo list" where
  "decode_infos [] = []"
| "decode_infos (RqDecodingTrace I # evs) = I # decode_infos evs"
| "decode_infos (_ # evs) = decode_infos evs"

lemma decode_infos_append [simp]: "decode_infos (xs @ ys) = decode_infos xs @ decode_infos ys"
  by (induction xs rule: decode_infos.induct) auto

section \<open>Well-formedness\<close>

definition dec_wf :: "'a RqDecoder_scheme \<Rightarrow> bool" where
  "dec_wf d \<longleftrightarrow> wf_slots d \<and> length (d_slotStates d) = TX_SLOT_COUNT \<and> d_nslots d \<le> TX_SLOT_COUNT
     \<and> 0 < d_rqnval d \<and> 0 < d_rqkval d"

lemma length_map_slots [simp]: "length (map_slots n f sts) = length sts"
  by (simp add: map_slots_def)

lemma nth_map_slots [simp]:
  "i < length sts \<Longrightarrow> map_slots n f sts ! i = (if i < n then f i (sts ! i) else sts ! i)"
  by (simp add: map_slots_def)

lemmas decoder_step_defs =
  advance_block_def update_nsymb_def update_stream_def count_symbol_def try_decode_def Let_def

end
