(* ===== verification/Rq_Decoding.thy ===== *)
theory Rq_Decoding
  imports Rq_Encoder Rq_Decoder
begin

text \<open>
  What \<open>RqDecoder\<close> makes of the packets of an \<open>RqEncoder\<close>. The packets are the abstract block
  packets of theory \<open>Rq_Encoder\<close>, any of them may be lost, and the specification says how many
  source packets of each stream a block gives: all of them once \<open>K\<close> packets of the block have
  arrived, and before that the packets of the stream up to the first gap.
\<close>

section \<open>The specification of a block\<close>

definition stream_positions :: "nat list \<Rightarrow> nat \<Rightarrow> nat list" where
  "stream_positions \<sigma> i = filter (\<lambda>j. \<sigma> ! j = i) [0..<length \<sigma>]"

definition stream_prefix :: "nat list \<Rightarrow> nat list \<Rightarrow> nat \<Rightarrow> nat" where
  "stream_prefix \<sigma> js i = length (takeWhile (\<lambda>j. j \<in> set js) (stream_positions \<sigma> i))"

definition block_credit :: "nat list \<Rightarrow> nat list \<Rightarrow> nat \<Rightarrow> nat" where
  "block_credit \<sigma> js i = (if length \<sigma> \<le> length js then count_list \<sigma> i else stream_prefix \<sigma> js i)"

lemma count_list_take:
  "count_list (take q \<sigma>) i = length (filter (\<lambda>j. \<sigma> ! j = i) [0..<min q (length \<sigma>)])"
proof (induction q)
  case (Suc q)
  show ?case
  proof (cases "q < length \<sigma>")
    case True
    with Suc show ?thesis by (simp add: take_Suc_conv_app_nth)
  next
    case False
    with Suc show ?thesis by simp
  qed
qed simp

lemma count_list_take_mono: "q \<le> r \<Longrightarrow> count_list (take q \<sigma>) i \<le> count_list (take r \<sigma>) i"
proof -
  assume "q \<le> r"
  then have "take r \<sigma> = take q \<sigma> @ take (r - q) (drop q \<sigma>)" by (metis le_add_diff_inverse take_add)
  then show ?thesis by simp
qed

lemma count_list_le_length: "count_list xs i \<le> length xs"
  by (induction xs) auto

lemma stream_positions_split:
  assumes "j < length \<sigma>"
  shows "stream_positions \<sigma> i = filter (\<lambda>j. \<sigma> ! j = i) [0..<j] @ (if \<sigma> ! j = i then [j] else [])
           @ filter (\<lambda>j. \<sigma> ! j = i) [Suc j..<length \<sigma>]"
proof -
  have "[0..<length \<sigma>] = [0..<j] @ j # [Suc j..<length \<sigma>]"
    using assms by (metis upt_add_eq_append upt_conv_Cons less_imp_le_nat le_add_diff_inverse zero_le)
  then show ?thesis by (simp add: stream_positions_def)
qed

lemma stream_prefix_cong:
  assumes "\<And>j. j \<in> set (stream_positions \<sigma> i) \<Longrightarrow> j \<in> set js \<longleftrightarrow> j \<in> set js'"
  shows "stream_prefix \<sigma> js i = stream_prefix \<sigma> js' i"
  unfolding stream_prefix_def using assms by (intro arg_cong [where f = length] takeWhile_cong) auto

lemma stream_prefix_snoc_other:
  assumes "\<not> (j < length \<sigma> \<and> \<sigma> ! j = i)"
  shows "stream_prefix \<sigma> (js @ [j]) i = stream_prefix \<sigma> js i"
  using assms by (intro stream_prefix_cong) (auto simp: stream_positions_def)

lemma stream_prefix_snoc_same:
  assumes "j < length \<sigma>" "\<sigma> ! j = i" and lt: "\<forall>k \<in> set js. k < j"
  shows "stream_prefix \<sigma> (js @ [j]) i =
    (if stream_prefix \<sigma> js i + 1 = count_list (take (Suc j) \<sigma>) i
     then stream_prefix \<sigma> js i + 1 else stream_prefix \<sigma> js i)"
proof -
  let ?P = "filter (\<lambda>j. \<sigma> ! j = i) [0..<j]" and ?Q = "filter (\<lambda>j. \<sigma> ! j = i) [Suc j..<length \<sigma>]"
  have P: "stream_positions \<sigma> i = ?P @ j # ?Q"
    using stream_positions_split [OF assms(1)] assms(2) by simp
  have cnt: "count_list (take (Suc j) \<sigma>) i = length ?P + 1"
    using assms(1,2) by (simp add: count_list_take min_def)
  have notin: "j \<notin> set js" using lt by blast
  have Q: "takeWhile (\<lambda>k. k \<in> set (js @ [j])) ?Q = []"
  proof (cases "?Q = []")
    case False
    then have "hd ?Q \<in> set ?Q" by (rule hd_in_set)
    with lt have "hd ?Q \<notin> set (js @ [j])" by auto
    then show ?thesis unfolding takeWhile_eq_Nil_iff by blast
  qed simp
  show ?thesis
  proof (cases "\<forall>k \<in> set ?P. k \<in> set js")
    case True
    then have "takeWhile (\<lambda>k. k \<in> set js) (?P @ j # ?Q) = ?P"
      using notin by (subst takeWhile_append2) auto
    moreover have "takeWhile (\<lambda>k. k \<in> set (js @ [j])) (?P @ j # ?Q) = ?P @ [j]"
      using True Q by (subst takeWhile_append2) auto
    ultimately have "stream_prefix \<sigma> js i = length ?P" "stream_prefix \<sigma> (js @ [j]) i = length ?P + 1"
      unfolding stream_prefix_def P by simp_all
    with cnt show ?thesis by simp
  next
    case False
    then obtain k where k: "k \<in> set ?P" "k \<notin> set js" by blast
    then have k': "k \<notin> set (js @ [j])" by auto
    have "stream_prefix \<sigma> js i = length (takeWhile (\<lambda>k. k \<in> set js) ?P)"
      unfolding stream_prefix_def P using k by (subst takeWhile_append1 [OF k(1)]) auto
    moreover have "stream_prefix \<sigma> (js @ [j]) i = length (takeWhile (\<lambda>k. k \<in> set (js @ [j])) ?P)"
      unfolding stream_prefix_def P using k' by (subst takeWhile_append1 [OF k(1)]) auto
    moreover have "takeWhile (\<lambda>k. k \<in> set (js @ [j])) ?P = takeWhile (\<lambda>k. k \<in> set js) ?P"
      by (rule takeWhile_cong) auto
    moreover have "length (takeWhile (\<lambda>k. k \<in> set js) ?P) < length ?P"
      by (rule length_takeWhile_less) (use k in blast)
    ultimately show ?thesis using cnt by simp
  qed
qed

lemma stream_prefix_le: "stream_prefix \<sigma> js i \<le> count_list \<sigma> i"
  using count_list_take [of "length \<sigma>" \<sigma> i] length_takeWhile_le
  by (simp add: stream_prefix_def stream_positions_def)

lemma distinct_below: "distinct js \<Longrightarrow> \<forall>k \<in> set js. k < j \<Longrightarrow> length js \<le> (j :: nat)"
  by (metis card_lessThan card_mono distinct_card finite_lessThan lessThan_iff subsetI)

section \<open>One packet\<close>

text \<open>The decoder knows the packets \<open>js\<close> of a block whose sources are \<open>\<sigma>\<close>; \<open>q\<close> is one more than
  the last position seen and \<open>base\<close> what each slot had buffered before the block.\<close>

definition block_state ::
  "nat \<Rightarrow> (nat \<Rightarrow> u32) \<Rightarrow> nat list \<Rightarrow> nat list \<Rightarrow> nat \<Rightarrow> 'a RqDecoder_scheme \<Rightarrow> bool" where
  "block_state n base \<sigma> js q d \<longleftrightarrow> d_sb_nrcv d = int (length js)
     \<and> (\<forall>i < n. m_nsymb (d_slotStates d ! i) = int (count_list (take q \<sigma>) i)
         \<and> m_nsymbcontig (d_slotStates d ! i) = int (stream_prefix \<sigma> js i)
         \<and> m_nbuffered (d_slotStates d ! i) = base i + d_rqtval d * of_nat (block_credit \<sigma> js i))"

definition dec_config :: "nat \<Rightarrow> nat \<Rightarrow> nat \<Rightarrow> 'a RqDecoder_scheme \<Rightarrow> bool" where
  "dec_config N K n d \<longleftrightarrow> d_rqkval d = int K \<and> d_rqnval d = int N \<and> d_nslots d = n
     \<and> length (d_slotStates d) = TX_SLOT_COUNT \<and> n \<le> TX_SLOT_COUNT \<and> 0 < K \<and> K \<le> N \<and> K < 2 ^ 31"

definition block_ok :: "nat \<Rightarrow> nat \<Rightarrow> nat list \<Rightarrow> bool" where
  "block_ok K n \<sigma> \<longleftrightarrow> length \<sigma> = K \<and> set \<sigma> \<subseteq> {..<n}"

lemma block_header_fields:
  assumes "block_ok K n \<sigma>" "K < 2 ^ 31" "n \<le> 8"
  shows "length (GetIseqData (block_header N K n \<sigma> b j)) = n"
    and "i < n \<Longrightarrow> sint (GetIseqData (block_header N K n \<sigma> b j) ! i) = int (count_list (take (Suc j) \<sigma>) i)"
    and "sint (GetIseqStreamID (block_header N K n \<sigma> b j)) = (if j < K then int (\<sigma> ! j) else -1)"
    and "IsValid (block_header N K n \<sigma> b j)"
proof -
  show "length (GetIseqData (block_header N K n \<sigma> b j)) = n" "IsValid (block_header N K n \<sigma> b j)"
    by (simp_all add: block_header_def)
  show "sint (GetIseqData (block_header N K n \<sigma> b j) ! i) = int (count_list (take (Suc j) \<sigma>) i)" if "i < n"
  proof -
    have "count_list (take (Suc j) \<sigma>) i \<le> K"
      using count_list_le_length [of "take (Suc j) \<sigma>" i] assms(1) by (simp add: block_ok_def)
    with assms(2) that show ?thesis
      by (simp add: block_header_def sint_of_nat_u32)
  qed
  show "sint (GetIseqStreamID (block_header N K n \<sigma> b j)) = (if j < K then int (\<sigma> ! j) else -1)"
  proof (cases "j < K")
    case True
    then have "\<sigma> ! j < n" using assms(1) nth_mem [of j \<sigma>] unfolding block_ok_def by blast
    with True assms(3) show ?thesis by (simp add: block_header_def sint_of_nat_u32)
  qed (simp add: block_header_def)
qed

definition same_outside :: "'a RqDecoder_scheme \<Rightarrow> 'a RqDecoder_scheme \<Rightarrow> bool" where
  "same_outside d d' \<longleftrightarrow> d_rqkval d' = d_rqkval d \<and> d_rqnval d' = d_rqnval d \<and> d_rqtval d' = d_rqtval d
     \<and> d_nslots d' = d_nslots d \<and> length (d_slotStates d') = length (d_slotStates d)
     \<and> m_txSlots d' = m_txSlots d \<and> m_rxSlots d' = m_rxSlots d"

lemma same_outside_refl [simp]: "same_outside d d"
  by (simp add: same_outside_def)

lemma same_outside_trans: "same_outside d d' \<Longrightarrow> same_outside d' d'' \<Longrightarrow> same_outside d d''"
  by (simp add: same_outside_def)

lemma same_outside_config: "same_outside d d' \<Longrightarrow> dec_config N K n d' = dec_config N K n d"
  by (simp add: same_outside_def dec_config_def)

lemma block_ok_nth: "block_ok K n \<sigma> \<Longrightarrow> j < K \<Longrightarrow> \<sigma> ! j < n"
  unfolding block_ok_def using nth_mem by blast

lemma dec_config_slot: "dec_config N K n d \<Longrightarrow> i < n \<Longrightarrow> i < length (d_slotStates d)"
  by (simp add: dec_config_def)

lemma update_nsymb_same: "same_outside d (update_nsymb iseq d)"
  by (simp add: update_nsymb_def same_outside_def)

lemma update_nsymb_state:
  assumes st: "block_state n base \<sigma> js q d" and cfg: "dec_config N K n d" and ok: "block_ok K n \<sigma>"
    and q: "q \<le> Suc j"
  shows "block_state n base \<sigma> js (Suc j) (update_nsymb (GetIseqData (block_header N K n \<sigma> b j)) d)"
proof -
  let ?d = "update_nsymb (GetIseqData (block_header N K n \<sigma> b j)) d"
  have K: "K < 2 ^ 31" "n \<le> 8" using cfg by (auto simp: dec_config_def)
  have "m_nsymb (d_slotStates ?d ! i) = int (count_list (take (Suc j) \<sigma>) i)
      \<and> m_nsymbcontig (d_slotStates ?d ! i) = m_nsymbcontig (d_slotStates d ! i)
      \<and> m_nbuffered (d_slotStates ?d ! i) = m_nbuffered (d_slotStates d ! i)" if i: "i < n" for i
  proof -
    have "i < d_nslots d" "m_nsymb (d_slotStates d ! i) = int (count_list (take q \<sigma>) i)"
      using cfg st i by (auto simp: dec_config_def block_state_def)
    then show ?thesis
      using count_list_take_mono [OF q, of \<sigma> i] dec_config_slot [OF cfg i]
      by (simp add: update_nsymb_def block_header_fields(2) [OF ok K i, simplified])
  qed
  moreover have "d_sb_nrcv ?d = d_sb_nrcv d" "d_rqtval ?d = d_rqtval d" by (simp_all add: update_nsymb_def)
  ultimately show ?thesis using st by (simp only: block_state_def) simp
qed

lemma update_stream_state:
  assumes st: "block_state n base \<sigma> js (Suc j) d" and cfg: "dec_config N K n d" and ok: "block_ok K n \<sigma>"
    and lt: "\<forall>k \<in> set js. k < j" and dist: "distinct js"
  shows "\<exists>d'. update_stream (if j < K then int (\<sigma> ! j) else -1) d = Inr d' \<and> same_outside d d'
    \<and> d_sbid d' = d_sbid d \<and> d_sb_nrcv d' = d_sb_nrcv d
    \<and> (\<forall>i < n. m_nsymb (d_slotStates d' ! i) = int (count_list (take (Suc j) \<sigma>) i)
        \<and> m_nsymbcontig (d_slotStates d' ! i) = int (stream_prefix \<sigma> (js @ [j]) i)
        \<and> m_nbuffered (d_slotStates d' ! i) = base i + d_rqtval d *
            of_nat (if K \<le> length js then count_list \<sigma> i else stream_prefix \<sigma> (js @ [j]) i))"
proof (cases "j < K")
  case False
  with ok have "stream_prefix \<sigma> (js @ [j]) i = stream_prefix \<sigma> js i" for i
    by (intro stream_prefix_snoc_other) (simp add: block_ok_def)
  with False st ok show ?thesis
    by (auto simp: update_stream_def block_state_def block_credit_def block_ok_def)
next
  case True
  let ?s = "\<sigma> ! j"
  have s: "?s < n" "?s < length (d_slotStates d)"
    using block_ok_nth [OF ok True] dec_config_slot [OF cfg] by auto
  have few: "\<not> K \<le> length js" using distinct_below [OF dist lt] True by simp
  have snoc: "stream_prefix \<sigma> (js @ [j]) i =
      (if i = ?s \<and> stream_prefix \<sigma> js i + 1 = count_list (take (Suc j) \<sigma>) i
       then stream_prefix \<sigma> js i + 1 else stream_prefix \<sigma> js i)" for i
    using stream_prefix_snoc_same [of j \<sigma> i js] stream_prefix_snoc_other [of j \<sigma> i js] True ok lt
    by (cases "i = ?s") (auto simp: block_ok_def)
  show ?thesis
    using st s few True ok
    by (auto simp: snoc update_stream_def Let_def block_state_def block_credit_def block_ok_def same_outside_def
        nth_list_update_cases algebra_simps)
qed

lemma try_decode_same: "same_outside d (fst (try_decode (count_symbol esi d))) \<and> d_sbid (fst (try_decode (count_symbol esi d))) = d_sbid d"
  by (simp add: try_decode_def count_symbol_def same_outside_def Let_def)

lemma try_decode_state:
  assumes slots: "\<And>i. i < n \<Longrightarrow> i < length (d_slotStates d) \<and> m_nsymb (d_slotStates d ! i) = int (count_list (take (Suc j) \<sigma>) i)
        \<and> m_nsymbcontig (d_slotStates d ! i) = int (stream_prefix \<sigma> (js @ [j]) i)
        \<and> m_nbuffered (d_slotStates d ! i) = base i + d_rqtval d *
            of_nat (if K \<le> length js then count_list \<sigma> i else stream_prefix \<sigma> (js @ [j]) i)"
    and cfg: "d_sb_nrcv d = int (length js)" "d_rqkval d = int K" "d_nslots d = n" and "length \<sigma> = K"
    and full: "Suc (length js) = K \<Longrightarrow> take (Suc j) \<sigma> = \<sigma>"
  shows "block_state n base \<sigma> (js @ [j]) (Suc j) (fst (try_decode (count_symbol esi d)))"
proof (cases "Suc (length js) = K")
  case True
  let ?d = "fst (try_decode (count_symbol esi d))"
  have "m_nbuffered (d_slotStates ?d ! i) = base i + d_rqtval d * of_nat (count_list \<sigma> i)
      \<and> m_nsymb (d_slotStates ?d ! i) = int (count_list (take (Suc j) \<sigma>) i)
      \<and> m_nsymbcontig (d_slotStates ?d ! i) = int (stream_prefix \<sigma> (js @ [j]) i)" if "i < n" for i
    using slots [OF that] True full cfg that
    by (simp add: try_decode_def count_symbol_def Let_def algebra_simps)
  moreover have "d_rqtval ?d = d_rqtval d" "d_sb_nrcv ?d = 1 + int (length js)"
    using cfg by (simp_all add: try_decode_def count_symbol_def Let_def)
  ultimately show ?thesis using True assms(5) by (simp add: block_state_def block_credit_def)
next
  case False
  then have "fst (try_decode (count_symbol esi d)) = count_symbol esi d" using cfg
    by (simp add: try_decode_def count_symbol_def)
  with False slots cfg assms(5) show ?thesis
    by (simp add: block_state_def block_credit_def count_symbol_def)
qed

lemma process_symbol_state:
  assumes st: "block_state n base \<sigma> js q d" and cfg: "dec_config N K n d" and ok: "block_ok K n \<sigma>"
    and lt: "\<forall>k \<in> set js. k < j" and dist: "distinct js" and q: "q \<le> Suc j"
  shows "\<exists>d' evs. process_symbol esi (block_header N K n \<sigma> b j) d = Inr (d', evs)
    \<and> block_state n base \<sigma> (js @ [j]) (Suc j) d' \<and> same_outside d d' \<and> d_sbid d' = d_sbid d
    \<and> map (\<lambda>I. (i_sbid I, i_success I)) (decode_infos evs) =
        (if Suc (length js) = K then [(of_int (d_sbid d), True)] else [])"
proof -
  let ?h = "block_header N K n \<sigma> b j"
  have K: "K < 2 ^ 31" "n \<le> 8" "d_nslots d = n" "d_rqkval d = int K" using cfg by (auto simp: dec_config_def)
  let ?d1 = "update_nsymb (GetIseqData ?h) d"
  have same1: "same_outside d ?d1" "d_sbid ?d1 = d_sbid d"
    by (rule update_nsymb_same) (simp add: update_nsymb_def)
  have st1: "block_state n base \<sigma> js (Suc j) ?d1" using update_nsymb_state [OF st cfg ok q] .
  have cfg1: "dec_config N K n ?d1" using same1 cfg by (simp add: same_outside_config)
  obtain d2 where d2: "update_stream (if j < K then int (\<sigma> ! j) else -1) ?d1 = Inr d2"
      "same_outside ?d1 d2" "d_sbid d2 = d_sbid ?d1" "d_sb_nrcv d2 = d_sb_nrcv ?d1"
    and slots: "\<And>i. i < n \<Longrightarrow> m_nsymb (d_slotStates d2 ! i) = int (count_list (take (Suc j) \<sigma>) i)
        \<and> m_nsymbcontig (d_slotStates d2 ! i) = int (stream_prefix \<sigma> (js @ [j]) i)
        \<and> m_nbuffered (d_slotStates d2 ! i) = base i + d_rqtval ?d1 *
            of_nat (if K \<le> length js then count_list \<sigma> i else stream_prefix \<sigma> (js @ [j]) i)"
    using update_stream_state [OF st1 cfg1 ok lt dist] by blast
  have same2: "same_outside d d2" using same1 d2(2) by (blast intro: same_outside_trans)
  then have d2_cfg: "d_rqkval d2 = int K" "d_nslots d2 = n" "d_rqtval d2 = d_rqtval d" "d_rqtval ?d1 = d_rqtval d"
      "\<And>i. i < n \<Longrightarrow> i < length (d_slotStates d2)"
    using K same1(1) dec_config_slot [OF cfg] by (auto simp: same_outside_def)
  have nrcv: "d_sb_nrcv d2 = int (length js)" using d2(4) st1 by (simp add: block_state_def)
  have len: "length \<sigma> = K" using ok by (simp add: block_ok_def)
  define d3 where "d3 = fst (try_decode (count_symbol esi d2))"
  have full: "take (Suc j) \<sigma> = \<sigma>" if "Suc (length js) = K"
    using distinct_below [OF dist lt] that len by simp
  have "block_state n base \<sigma> (js @ [j]) (Suc j) d3"
    unfolding d3_def
    by (rule try_decode_state [OF _ nrcv d2_cfg(1,2) len full]) (use slots d2_cfg in auto)
  moreover have "process_symbol esi ?h d = Inr (try_decode (count_symbol esi d2))"
    using K block_header_fields [OF ok K(1,2)] d2(1) by (simp add: process_symbol_def)
  moreover have "same_outside d d3 \<and> d_sbid d3 = d_sbid d"
    using try_decode_same [of d2 esi] same2 d2(3) same1(2) by (auto simp: d3_def intro: same_outside_trans)
  moreover have "map (\<lambda>I. (i_sbid I, i_success I)) (decode_infos (snd (try_decode (count_symbol esi d2)))) =
      (if Suc (length js) = K then [(of_int (d_sbid d), True)] else [])"
    using nrcv d2_cfg d2(3) same1(2)
    by (auto simp: try_decode_def count_symbol_def Let_def PopulateDecodeInfo_def)
  ultimately show ?thesis unfolding d3_def by (cases "try_decode (count_symbol esi d2)") simp
qed

section \<open>The packets of a run, with losses\<close>

definition packet_header :: "nat \<Rightarrow> nat \<Rightarrow> nat \<Rightarrow> (nat \<Rightarrow> nat list) \<Rightarrow> nat \<Rightarrow> RqHeader" where
  "packet_header N K n \<Sigma> m = block_header N K n (\<Sigma> (m div N)) (m div N) (m mod N)"

text \<open>The positions in block \<open>b\<close> of the packets \<open>ms\<close>.\<close>

definition positions :: "nat \<Rightarrow> nat \<Rightarrow> nat list \<Rightarrow> nat list" where
  "positions N b ms = map (\<lambda>m. m mod N) (filter (\<lambda>m. m div N = b) ms)"

lemma positions_simps [simp]:
  "positions N b [] = []"
  "positions N b (ms @ [m]) = positions N b ms @ (if m div N = b then [m mod N] else [])"
  by (simp_all add: positions_def)

lemma positions_beyond: "\<forall>m \<in> set ms. m div N < b \<Longrightarrow> positions N b ms = []"
  by (auto simp: positions_def filter_empty_conv)

lemma positions_below:
  assumes "sorted_wrt (<) (ms @ [m])" "0 < N"
  shows "\<forall>k \<in> set (positions N (m div N) ms). k < m mod N" and "distinct (positions N (m div N) ms)"
proof -
  have mod_less: "k mod N < l mod N" if "k < l" "k div N = l div N" for k l
    using that by (metis div_mult_mod_eq nat_add_left_cancel_less)
  then show "\<forall>k \<in> set (positions N (m div N) ms). k < m mod N"
    using assms by (auto simp: positions_def sorted_wrt_append)
  have "distinct ms" using assms(1) by (auto simp: sorted_wrt_append strict_sorted_iff)
  moreover have "inj_on (\<lambda>m. m mod N) (set (filter (\<lambda>k. k div N = m div N) ms))"
    by (rule inj_onI) (auto, metis div_mult_mod_eq)
  ultimately show "distinct (positions N (m div N) ms)"
    by (simp add: positions_def distinct_map)
qed

lemma packet_header_id:
  assumes "m < 2 ^ 31"
  shows "packet_id (packet_header N K n \<Sigma> m) = int m"
proof -
  have "packet_id (packet_header N K n \<Sigma> m) = sint (of_nat m :: u32)"
    using assms by (simp add: packet_id_def packet_header_def block_header_def unsigned_of_nat take_bit_nat_eq_self)
  with assms show ?thesis by (simp add: sint_of_nat_u32)
qed

lemma sdiv_smod_nat:
  "int m sdiv int N = int (m div N)" "int m smod int N = int (m mod N)"
  by (auto simp: signed_divide_int_def signed_modulo_int_def sgn_if zdiv_int zmod_int
      minus_div_mult_eq_mod)

lemma stream_prefix_Nil [simp]: "stream_prefix \<sigma> [] i = 0"
  by (cases "stream_positions \<sigma> i") (simp_all add: stream_prefix_def)

lemma block_credit_Nil [simp]: "\<sigma> \<noteq> [] \<Longrightarrow> block_credit \<sigma> [] i = 0"
  by (simp add: block_credit_def)

lemma advance_block_state:
  assumes "dec_config N K n d" "block_ok K n \<sigma>" "advance_block sbid d = (d', evs)"
  shows "block_state n (\<lambda>i. m_nbuffered (d_slotStates d ! i)) \<sigma> [] 0 d' \<and> same_outside d d' \<and> d_sbid d' = sbid"
  using assms
  by (auto simp: advance_block_def block_state_def block_ok_def dec_config_def same_outside_def)

definition success_sbids :: "dec_event list \<Rightarrow> u32 set" where
  "success_sbids evs = {s. (s, True) \<in> set (map (\<lambda>I. (i_sbid I, i_success I)) (decode_infos evs))}"

lemma success_sbids_simps [simp]:
  "success_sbids [] = {}"
  "success_sbids (evs @ evs') = success_sbids evs \<union> success_sbids evs'"
  "success_sbids (RxTrace p # evs) = success_sbids evs"
  by (auto simp: success_sbids_def)

lemma advance_block_successes:
  "success_sbids (snd (advance_block sbid d)) =
    (if 0 \<le> d_sbid d \<and> d_rqkval d \<le> d_sb_nrcv d then {of_int (d_sbid d)} else {})"
  by (auto simp: advance_block_def success_sbids_def PopulateDecodeInfo_def)

definition block_base ::
  "nat \<Rightarrow> (nat \<Rightarrow> nat list) \<Rightarrow> 'a RqDecoder_scheme \<Rightarrow> nat list \<Rightarrow> nat \<Rightarrow> nat \<Rightarrow> u32" where
  "block_base N \<Sigma> d0 ms b i = m_nbuffered (d_slotStates d0 ! i)
     + d_rqtval d0 * of_nat (\<Sum>b' < b. block_credit (\<Sigma> b') (positions N b' ms) i)"

definition recv_inv ::
  "nat \<Rightarrow> nat \<Rightarrow> nat \<Rightarrow> (nat \<Rightarrow> nat list) \<Rightarrow> 'a RqDecoder_scheme \<Rightarrow> 'a RqDecoder_scheme \<Rightarrow> nat list
     \<Rightarrow> dec_event list \<Rightarrow> bool" where
  "recv_inv N K n \<Sigma> d0 d ms evs \<longleftrightarrow> same_outside d0 d
     \<and> (ms = [] \<longrightarrow> d = d0)
     \<and> (ms \<noteq> [] \<longrightarrow> d_sbid d = int (last ms div N)
         \<and> block_state n (block_base N \<Sigma> d0 ms (last ms div N)) (\<Sigma> (last ms div N))
             (positions N (last ms div N) ms) (Suc (last ms mod N)) d)
     \<and> success_sbids evs = of_nat ` {b. K \<le> length (positions N b ms)}"

lemma receive_packet_header:
  assumes "dec_config N K n d" "block_ok K n (\<Sigma> (m div N))" "m < 2 ^ 31" "GetMinSerializedSize \<le> peeked"
  shows "receive_packet d (peeked, packet_header N K n \<Sigma> m) =
    (if d_sbid d < int (m div N)
     then bindE (process_symbol (int (m mod N)) (packet_header N K n \<Sigma> m) (fst (advance_block (int (m div N)) d)))
       (\<lambda>(d', evs). Inr (d', RxTrace (peeked, packet_header N K n \<Sigma> m) # snd (advance_block (int (m div N)) d) @ evs))
     else if int (m div N) < d_sbid d then Inr (d, [RxTrace (peeked, packet_header N K n \<Sigma> m)])
     else bindE (process_symbol (int (m mod N)) (packet_header N K n \<Sigma> m) d)
       (\<lambda>(d', evs). Inr (d', RxTrace (peeked, packet_header N K n \<Sigma> m) # evs)))"
proof -
  have "IsValid (packet_header N K n \<Sigma> m)" "d_rqnval d = int N" "\<not> peeked < GetMinSerializedSize"
    using assms by (auto simp: packet_header_def block_header_def dec_config_def GetMinSerializedSize_def)
  then show ?thesis
    by (simp add: receive_packet_def packet_header_id [OF assms(3)] sdiv_smod_nat Let_def
        split: prod.split)
qed

lemma block_base_cong:
  assumes "\<And>b'. b' < b \<Longrightarrow> positions N b' ms = positions N b' ms'"
  shows "block_base N \<Sigma> d0 ms b = block_base N \<Sigma> d0 ms' b"
  unfolding block_base_def using assms by (intro ext) simp

lemma block_state_base:
  "block_state n base \<sigma> js q d \<Longrightarrow> (\<And>i. i < n \<Longrightarrow> base i = base' i) \<Longrightarrow> block_state n base' \<sigma> js q d"
  by (simp add: block_state_def)

text \<open>What the slots have buffered when the blocks before \<open>b\<close> are over.\<close>

lemma recv_inv_base:
  assumes inv: "recv_inv N K n \<Sigma> d0 d ms evs" and ok: "\<And>b. \<Sigma> b \<noteq> []"
    and below: "ms \<noteq> [] \<Longrightarrow> last ms div N < b" and srt: "sorted_wrt (<) ms" and i: "i < n"
  shows "m_nbuffered (d_slotStates d ! i) = block_base N \<Sigma> d0 ms b i"
proof (cases "ms = []")
  case True
  with inv ok show ?thesis by (simp add: recv_inv_def block_base_def)
next
  case False
  let ?l = "last ms div N"
  have "positions N b' ms = []" if "?l < b'" for b'
    using that sorted_wrt_last [OF srt] by (intro positions_beyond) (metis div_le_mono le_less_trans)
  then have "(\<Sum>b' < b. block_credit (\<Sigma> b') (positions N b' ms) i)
      = (\<Sum>b' < Suc ?l. block_credit (\<Sigma> b') (positions N b' ms) i)"
    using below [OF False] ok by (intro sum.mono_neutral_right) auto
  moreover have "m_nbuffered (d_slotStates d ! i) = block_base N \<Sigma> d0 ms ?l i
      + d_rqtval d0 * of_nat (block_credit (\<Sigma> ?l) (positions N ?l ms) i)"
    using inv False i by (simp add: recv_inv_def block_state_def same_outside_def)
  ultimately show ?thesis by (simp add: block_base_def algebra_simps)
qed

lemma full_blocks_snoc:
  "{b. K \<le> length (positions N b (ms @ [m]))} = {b. K \<le> length (positions N b ms)}
     \<union> (if Suc (length (positions N (m div N) ms)) = K then {m div N} else {})"
  by (auto split: if_splits)

lemma recv_inv_extend:
  assumes same: "same_outside d0 d'" and sbid: "d_sbid d' = int (m div N)"
    and st: "block_state n (block_base N \<Sigma> d0 ms (m div N)) (\<Sigma> (m div N))
               (positions N (m div N) ms @ [m mod N]) (Suc (m mod N)) d'"
    and succ: "success_sbids evs = of_nat ` {b. K \<le> length (positions N b ms)}"
      "success_sbids evs' \<union> of_nat ` {b. K \<le> length (positions N b ms)} = of_nat ` {b. K \<le> length (positions N b (ms @ [m]))}"
  shows "recv_inv N K n \<Sigma> d0 d' (ms @ [m]) (evs @ evs')"
proof -
  have "block_base N \<Sigma> d0 ms (m div N) = block_base N \<Sigma> d0 (ms @ [m]) (m div N)"
    by (rule block_base_cong) simp
  with same sbid st succ show ?thesis by (simp add: recv_inv_def Un_commute)
qed

text \<open>The next packet of the block being received, and the first packet of a later one.\<close>

lemma recv_inv_same_block:
  assumes inv: "recv_inv N K n \<Sigma> d0 d ms evs" and cfg: "dec_config N K n d"
    and ok: "\<And>b. block_ok K n (\<Sigma> b)" and srt: "sorted_wrt (<) (ms @ [m])"
    and ne: "ms \<noteq> []" and b: "last ms div N = m div N"
  shows "\<exists>d' evs'. process_symbol (int (m mod N)) (packet_header N K n \<Sigma> m) d = Inr (d', evs')
    \<and> recv_inv N K n \<Sigma> d0 d' (ms @ [m]) (evs @ evs')"
proof -
  let ?b = "m div N" and ?j = "m mod N"
  have N: "0 < N" using cfg by (auto simp: dec_config_def)
  have same: "same_outside d0 d" and succ: "success_sbids evs = of_nat ` {b. K \<le> length (positions N b ms)}"
    and sb: "d_sbid d = int ?b"
    and st: "block_state n (block_base N \<Sigma> d0 ms ?b) (\<Sigma> ?b) (positions N ?b ms) (Suc (last ms mod N)) d"
    using inv ne b by (auto simp: recv_inv_def)
  have "last ms < m" using srt ne by (auto simp: sorted_wrt_append)
  then have q: "Suc (last ms mod N) \<le> Suc ?j"
    using b by (metis div_mult_mod_eq nat_add_left_cancel_less less_imp_le_nat Suc_le_mono)
  from process_symbol_state [OF st cfg ok positions_below [OF srt N] q, of "int ?j" ?b]
  obtain d' evs' where d': "process_symbol (int ?j) (packet_header N K n \<Sigma> m) d = Inr (d', evs')"
    "block_state n (block_base N \<Sigma> d0 ms ?b) (\<Sigma> ?b) (positions N ?b ms @ [?j]) (Suc ?j) d'"
    "same_outside d d'" "d_sbid d' = d_sbid d"
    and evs': "map (\<lambda>I. (i_sbid I, i_success I)) (decode_infos evs') =
      (if Suc (length (positions N ?b ms)) = K then [(of_int (d_sbid d), True)] else [])"
    unfolding packet_header_def by blast
  have "success_sbids evs' = (if Suc (length (positions N ?b ms)) = K then {of_nat ?b} else {})"
    unfolding success_sbids_def evs' using sb by auto
  then have "recv_inv N K n \<Sigma> d0 d' (ms @ [m]) (evs @ evs')"
    using d' sb succ same_outside_trans [OF same d'(3)] full_blocks_snoc [of K N ms m]
    by (intro recv_inv_extend) auto
  with d'(1) show ?thesis by blast
qed

lemma recv_inv_advance_successes:
  assumes "recv_inv N K n \<Sigma> d0 d ms evs" "d_sbid d0 < 0" "dec_config N K n d"
  shows "success_sbids (snd (advance_block sbid d)) \<subseteq> of_nat ` {b. K \<le> length (positions N b ms)}"
proof (cases "ms = []")
  case True
  with assms show ?thesis by (simp add: recv_inv_def advance_block_successes)
next
  case False
  with assms have "d_sbid d = int (last ms div N)" "d_sb_nrcv d = int (length (positions N (last ms div N) ms))"
    "d_rqkval d = int K"
    by (auto simp: recv_inv_def block_state_def dec_config_def)
  then show ?thesis by (auto simp: advance_block_successes)
qed

lemma recv_inv_new_block:
  assumes inv: "recv_inv N K n \<Sigma> d0 d ms evs" and cfg: "dec_config N K n d" and fresh: "d_sbid d0 < 0"
    and ok: "\<And>b. block_ok K n (\<Sigma> b)" and srt: "sorted_wrt (<) (ms @ [m])"
    and b: "ms \<noteq> [] \<Longrightarrow> last ms div N < m div N"
  shows "\<exists>d' evs'. process_symbol (int (m mod N)) (packet_header N K n \<Sigma> m)
        (fst (advance_block (int (m div N)) d)) = Inr (d', evs')
    \<and> recv_inv N K n \<Sigma> d0 d' (ms @ [m]) (evs @ snd (advance_block (int (m div N)) d) @ evs')"
proof -
  let ?b = "m div N" and ?j = "m mod N"
  obtain d1 evs1 where adv: "advance_block (int ?b) d = (d1, evs1)" by fastforce
  have st1: "block_state n (\<lambda>i. m_nbuffered (d_slotStates d ! i)) (\<Sigma> ?b) [] 0 d1"
    and same1: "same_outside d d1" and sb1: "d_sbid d1 = int ?b"
    using advance_block_state [OF cfg ok adv] by auto
  have ne: "\<Sigma> b \<noteq> []" for b using ok [of b] cfg by (auto simp: block_ok_def dec_config_def)
  have srt': "sorted_wrt (<) ms" using srt by (simp add: sorted_wrt_append)
  have st2: "block_state n (block_base N \<Sigma> d0 ms ?b) (\<Sigma> ?b) [] 0 d1"
    by (rule block_state_base [OF st1]) (rule recv_inv_base [OF inv ne b srt'])
  have cfg1: "dec_config N K n d1" using same1 cfg by (simp add: same_outside_config)
  have pos: "positions N ?b ms = []"
    using b sorted_wrt_last [OF srt'] by (cases "ms = []") (simp, intro positions_beyond, metis div_le_mono le_less_trans)
  have same: "same_outside d0 d" and succ: "success_sbids evs = of_nat ` {b. K \<le> length (positions N b ms)}"
    using inv by (auto simp: recv_inv_def)
  from process_symbol_state [OF st2 cfg1 ok, of "?j" "int ?j" ?b]
  obtain d' evs' where d': "process_symbol (int ?j) (packet_header N K n \<Sigma> m) d1 = Inr (d', evs')"
    "block_state n (block_base N \<Sigma> d0 ms ?b) (\<Sigma> ?b) ([] @ [?j]) (Suc ?j) d'"
    "same_outside d1 d'" "d_sbid d' = d_sbid d1"
    and evs': "map (\<lambda>I. (i_sbid I, i_success I)) (decode_infos evs') =
      (if Suc (length ([] :: nat list)) = K then [(of_int (d_sbid d1), True)] else [])"
    unfolding packet_header_def by auto
  have "success_sbids evs' = (if Suc 0 = K then {of_nat ?b} else {})"
    unfolding success_sbids_def evs' using sb1 by auto
  then have "recv_inv N K n \<Sigma> d0 d' (ms @ [m]) (evs @ evs1 @ evs')"
    using d' sb1 succ same_outside_trans [OF same_outside_trans [OF same same1] d'(3)]
      recv_inv_advance_successes [OF inv fresh cfg, of "int ?b"] adv full_blocks_snoc [of K N ms m] pos
    by (intro recv_inv_extend) auto
  with d'(1) adv show ?thesis by auto
qed

lemma recv_inv_trace: "recv_inv N K n \<Sigma> d0 d ms (evs @ RxTrace p # evs') = recv_inv N K n \<Sigma> d0 d ms (evs @ evs')"
  by (simp add: recv_inv_def)

lemma recv_inv_step:
  assumes inv: "recv_inv N K n \<Sigma> d0 d ms evs" and cfg0: "dec_config N K n d0" and fresh: "d_sbid d0 < 0"
    and ok: "\<And>b. block_ok K n (\<Sigma> b)" and srt: "sorted_wrt (<) (ms @ [m])" and m: "m < 2 ^ 31"
    and peek: "GetMinSerializedSize \<le> peeked"
  shows "\<exists>d' evs'. receive_packet d (peeked, packet_header N K n \<Sigma> m) = Inr (d', evs')
    \<and> recv_inv N K n \<Sigma> d0 d' (ms @ [m]) (evs @ evs')"
proof -
  have cfg: "dec_config N K n d" using inv cfg0 same_outside_config [of d0 d] by (auto simp: recv_inv_def)
  note rcv = receive_packet_header [OF cfg ok m peek]
  show ?thesis
  proof (cases "ms \<noteq> [] \<and> last ms div N = m div N")
    case True
    then have "d_sbid d = int (m div N)" using inv by (auto simp: recv_inv_def)
    with recv_inv_same_block [OF inv cfg ok srt] True rcv show ?thesis by (auto simp: recv_inv_trace)
  next
    case False
    then have older: "ms \<noteq> [] \<Longrightarrow> last ms div N < m div N"
      using srt by (auto simp: sorted_wrt_append) (metis div_le_mono last_in_set le_neq_implies_less less_imp_le_nat)
    then have "d_sbid d < int (m div N)" using inv fresh by (cases "ms = []") (auto simp: recv_inv_def)
    with recv_inv_new_block [OF inv cfg fresh ok srt older] rcv show ?thesis by (auto simp: recv_inv_trace)
  qed
qed

definition wire_packets :: "RqHeader list \<Rightarrow> rx_packet list" where
  "wire_packets hs = map (\<lambda>h. (GetSerializedSize h, h)) hs"

lemma peek_size:
  assumes "n \<le> 8"
  shows "GetMinSerializedSize \<le> GetSerializedSize (packet_header N K n \<Sigma> m)"
proof -
  have "n \<in> {0, 1, 2, 3, 4, 5, 6, 7, 8}" using assms by auto
  then show ?thesis
    by (auto simp: GetSerializedSize_def GetMinSerializedSize_def packet_header_def block_header_def)
qed

lemma receive_all_snoc:
  "receive_all d (pkts @ [p]) = bindE (receive_all d pkts) (\<lambda>(d', evs).
     bindE (receive_packet d' p) (\<lambda>(d'', evs'). Inr (d'', evs @ evs')))"
  by (simp add: receive_all_def foldE_append case_prod_unfold)

lemma receive_all_inv:
  assumes cfg: "dec_config N K n d" and fresh: "d_sbid d < 0" and ok: "\<And>b. block_ok K n (\<Sigma> b)"
    and srt: "sorted_wrt (<) ms" and small: "\<forall>m \<in> set ms. m < 2 ^ 31"
  shows "\<exists>d' evs. receive_all d (wire_packets (map (packet_header N K n \<Sigma>) ms)) = Inr (d', evs)
    \<and> recv_inv N K n \<Sigma> d d' ms evs"
  using srt small
proof (induction ms rule: rev_induct)
  case Nil
  have "0 < K" using cfg by (simp add: dec_config_def)
  then show ?case by (simp add: receive_all_def wire_packets_def recv_inv_def)
next
  case (snoc m ms)
  then obtain d' evs where IH: "receive_all d (wire_packets (map (packet_header N K n \<Sigma>) ms)) = Inr (d', evs)"
    "recv_inv N K n \<Sigma> d d' ms evs" by (auto simp: sorted_wrt_append)
  have "n \<le> 8" using cfg by (simp add: dec_config_def)
  from recv_inv_step [OF IH(2) cfg fresh ok snoc.prems(1) _ peek_size [OF this]] snoc.prems(2) IH(1)
  show ?case by (fastforce simp: receive_all_snoc wire_packets_def)
qed

section \<open>What a run of the decoder gives\<close>

text \<open>The source packets of stream \<open>i\<close> known after the packets \<open>ms\<close>, over all blocks seen.\<close>

definition stream_credit :: "nat \<Rightarrow> (nat \<Rightarrow> nat list) \<Rightarrow> nat list \<Rightarrow> nat \<Rightarrow> nat" where
  "stream_credit N \<Sigma> ms i = (\<Sum>b \<in> set (map (\<lambda>m. m div N) ms). block_credit (\<Sigma> b) (positions N b ms) i)"

lemma stream_credit_upto:
  assumes "\<And>b. \<Sigma> b \<noteq> []" and "\<forall>m \<in> set ms. m div N < B"
  shows "(\<Sum>b < B. block_credit (\<Sigma> b) (positions N b ms) i) = stream_credit N \<Sigma> ms i"
  unfolding stream_credit_def
proof (rule sum.mono_neutral_right)
  show "\<forall>b \<in> {..<B} - set (map (\<lambda>m. m div N) ms). block_credit (\<Sigma> b) (positions N b ms) i = 0"
  proof
    fix b
    assume "b \<in> {..<B} - set (map (\<lambda>m. m div N) ms)"
    then have "positions N b ms = []" by (auto simp: positions_def filter_empty_conv)
    with assms(1) show "block_credit (\<Sigma> b) (positions N b ms) i = 0" by simp
  qed
qed (use assms(2) in auto)

lemma recv_inv_credit:
  assumes inv: "recv_inv N K n \<Sigma> d0 d ms evs" and ok: "\<And>b. \<Sigma> b \<noteq> []" and srt: "sorted_wrt (<) ms" and i: "i < n"
  shows "m_nbuffered (d_slotStates d ! i)
    = m_nbuffered (d_slotStates d0 ! i) + d_rqtval d0 * of_nat (stream_credit N \<Sigma> ms i)"
proof -
  let ?B = "Suc (last ms div N)"
  have "\<forall>m \<in> set ms. m div N < ?B" using sorted_wrt_last [OF srt] by (auto simp: less_Suc_eq_le div_le_mono)
  then have "(\<Sum>b < ?B. block_credit (\<Sigma> b) (positions N b ms) i) = stream_credit N \<Sigma> ms i"
    using ok by (intro stream_credit_upto) auto
  moreover have "m_nbuffered (d_slotStates d ! i) = block_base N \<Sigma> d0 ms ?B i"
    by (rule recv_inv_base [OF inv ok _ srt i]) simp
  ultimately show ?thesis by (simp only: block_base_def)
qed

text \<open>
  What the decoder forwards is what the code can recover. Let the packets \<open>ms\<close> (any subset of
  the encoder's packet numbers, in order) arrive at a freshly started decoder configured like the
  encoder. Then no packet aborts it, and the bytes credited to stream \<open>i\<close> are \<open>T\<close> times the source
  packets of that stream which are recoverable: all of those of each block with at least \<open>K\<close>
  packets received, and those before the first lost packet of the stream in every other block.
\<close>

theorem decoder_credits_recoverable:
  assumes "dec_config N K n d" and "d_sbid d < 0" and "\<And>b. block_ok K n (\<Sigma> b)"
    and "sorted_wrt (<) ms" and "\<forall>m \<in> set ms. m < 2 ^ 31"
  shows "\<exists>d' evs. receive_all d (wire_packets (map (packet_header N K n \<Sigma>) ms)) = Inr (d', evs)
    \<and> (\<forall>i < n. m_nbuffered (d_slotStates d' ! i)
          = m_nbuffered (d_slotStates d ! i) + d_rqtval d * of_nat (stream_credit N \<Sigma> ms i))
    \<and> m_txSlots d' = m_txSlots d \<and> m_rxSlots d' = m_rxSlots d"
proof -
  have ne: "\<Sigma> b \<noteq> []" for b using assms(1) assms(3) [of b] by (auto simp: block_ok_def dec_config_def)
  obtain d' evs where "receive_all d (wire_packets (map (packet_header N K n \<Sigma>) ms)) = Inr (d', evs)"
    "recv_inv N K n \<Sigma> d d' ms evs"
    using receive_all_inv assms by blast
  with recv_inv_credit [OF _ ne assms(4)] show ?thesis by (fastforce simp: recv_inv_def same_outside_def)
qed

text \<open>
  The decoding trace reports success for exactly the blocks of which at least \<open>K\<close> packets have
  arrived.
\<close>

theorem decoder_reports_full_blocks:
  assumes "dec_config N K n d" and "d_sbid d < 0" and "\<And>b. block_ok K n (\<Sigma> b)"
    and "sorted_wrt (<) ms" and "\<forall>m \<in> set ms. m < 2 ^ 31"
    and "receive_all d (wire_packets (map (packet_header N K n \<Sigma>) ms)) = Inr (d', evs)"
  shows "success_sbids evs = of_nat ` {b. K \<le> length (positions N b ms)}"
proof -
  from receive_all_inv [where \<Sigma> = \<Sigma>, OF assms(1,2) assms(3) assms(4,5)] assms(6)
  have "recv_inv N K n \<Sigma> d d' ms evs" by auto
  then show ?thesis by (simp add: recv_inv_def)
qed

definition example_decoder :: RqDecoder where
  "example_decoder = init_RqDecoder
     \<lparr>d_rqkval := 2, d_rqnval := 3, d_rqtval := 10, d_nslots := 1,
      m_rxSlots := init_RxSlot\<lparr>rx_addr := InetAddr 5 1002, listen_sock := Some 4\<rparr> # replicate 7 init_RxSlot,
      m_txSlots := init_TxSlot\<lparr>tx_addr := InetAddr 6 1003, tx_sock := Some 9, connected := True\<rparr> # replicate 7 init_TxSlot\<rparr>"

lemma example_decoder_config: "dec_config 3 2 1 example_decoder" "d_sbid example_decoder < 0"
    "block_ok 2 1 [0, 0]"
  by (simp_all add: example_decoder_def init_RqDecoder_def dec_config_def block_ok_def ProxyBase.defs)

text \<open>Packet 1 of block 0 is lost and repaired by packet 2; of block 1 only the first packet arrives.\<close>

theorem decoder_credits_recoverable_witness:
  "\<exists>d' evs. receive_all example_decoder (wire_packets (map (packet_header 3 2 1 (\<lambda>_. [0, 0])) [0, 2, 3]))
       = Inr (d', evs)
     \<and> m_nbuffered (d_slotStates d' ! 0) = 30"
proof -
  have "stream_credit 3 (\<lambda>_. [0, 0]) [0, 2, 3] 0 = 3" by code_simp
  moreover have "m_nbuffered (d_slotStates example_decoder ! 0) = 0" "d_rqtval example_decoder = 10"
    by (simp_all add: example_decoder_def init_RqDecoder_def ProxyBase.defs init_SlotState_def)
  ultimately show ?thesis
    using decoder_credits_recoverable [OF example_decoder_config(1,2), of "\<lambda>_. [0, 0]" "[0, 2, 3]"]
      example_decoder_config(3)
    by auto
qed

lemma example_decoder_run:
  "case receive_all example_decoder (wire_packets (map (packet_header 3 2 1 (\<lambda>_. [0, 0])) [0, 2, 3])) of
     Inl _ \<Rightarrow> False | Inr (d', evs) \<Rightarrow> map i_sbid (decode_infos evs) = [0, 0]"
  by code_simp

theorem decoder_reports_full_blocks_witness:
  "\<exists>d' evs. receive_all example_decoder (wire_packets (map (packet_header 3 2 1 (\<lambda>_. [0, 0])) [0, 2, 3]))
       = Inr (d', evs) \<and> success_sbids evs = of_nat ` {b. 2 \<le> length (positions 3 b [0, 2, 3])}"
proof -
  obtain d' evs where
    run: "receive_all example_decoder (wire_packets (map (packet_header 3 2 1 (\<lambda>_. [0, 0])) [0, 2, 3])) = Inr (d', evs)"
    using example_decoder_run by (auto split: sum.splits)
  have "success_sbids evs = of_nat ` {b. 2 \<le> length (positions 3 b [0, 2, 3])}"
    by (rule decoder_reports_full_blocks [OF example_decoder_config(1,2) example_decoder_config(3) _ _ run])
      simp_all
  with run show ?thesis by blast
qed

text \<open>The packets of an encoder run are the first packets of a block assignment.\<close>

lemma encoder_packets:
  assumes "enc_abs e []" and "enc_seq e = 0" and "enc_run envs e = Inr (e', evs)" and "length envs < 2 ^ 31"
    and "dec_config (unat (e_rqnval e)) (unat (e_rqkval e)) (e_nRxSlots e) d"
  obtains \<Sigma> where "\<And>b. block_ok (unat (e_rqkval e)) (e_nRxSlots e) (\<Sigma> b)"
    and "sent_headers evs = map (packet_header (unat (e_rqnval e)) (unat (e_rqkval e)) (e_nRxSlots e) \<Sigma>) [0..<length (sent_headers evs)]"
    and "length (sent_headers evs) < 2 ^ 31"
proof -
  have "0 < unat (e_rqnval e)" using assms(5) by (auto simp: dec_config_def)
  then have "length envs < unat (e_rqnval e) * 2 ^ 32" using assms(4) by (cases "unat (e_rqnval e)") auto
  from enc_run_blocks [OF assms(1-3) this] that assms(4) show thesis
    unfolding block_ok_def packet_header_def by (meson le_less_trans)
qed

lemma encoder_stream_credit:
  assumes "enc_abs e []" and "enc_seq e = 0" and "enc_run envs e = Inr (e', evs)"
    and "length envs < 2 ^ 31"
    and "dec_config (unat (e_rqnval e)) (unat (e_rqkval e)) (e_nRxSlots e) d" and "d_sbid d < 0"
  shows "\<exists>\<Sigma>. (\<forall>b. block_ok (unat (e_rqkval e)) (e_nRxSlots e) (\<Sigma> b))
    \<and> (\<forall>I. \<exists>d' devs. receive_all d (wire_packets (nths (sent_headers evs) I)) = Inr (d', devs)
        \<and> (\<forall>i < e_nRxSlots e. m_nbuffered (d_slotStates d' ! i) = m_nbuffered (d_slotStates d ! i)
            + d_rqtval d * of_nat (stream_credit (unat (e_rqnval e)) \<Sigma>
                                     (nths [0..<length (sent_headers evs)] I) i)))"
proof -
  let ?N = "unat (e_rqnval e)" and ?K = "unat (e_rqkval e)" and ?n = "e_nRxSlots e"
  obtain \<Sigma> where ok: "\<And>b. block_ok ?K ?n (\<Sigma> b)"
    and hs: "sent_headers evs = map (packet_header ?N ?K ?n \<Sigma>) [0..<length (sent_headers evs)]"
    and len: "length (sent_headers evs) < 2 ^ 31"
    using encoder_packets [OF assms(1-5)] by blast
  have ne: "\<Sigma> b \<noteq> []" for b using ok [of b] assms(5) by (auto simp: block_ok_def dec_config_def)
  have "\<exists>d' devs. receive_all d (wire_packets (nths (sent_headers evs) I)) = Inr (d', devs)
        \<and> (\<forall>i < ?n. m_nbuffered (d_slotStates d' ! i) = m_nbuffered (d_slotStates d ! i)
            + d_rqtval d * of_nat (stream_credit ?N \<Sigma> (nths [0..<length (sent_headers evs)] I) i))" for I
  proof -
    let ?ms = "nths [0..<length (sent_headers evs)] I"
    have srt: "sorted_wrt (<) ?ms" by (simp add: strict_sorted_iff sorted_nths)
    have "\<forall>m \<in> set ?ms. m < 2 ^ 31"
      using set_nths_subset [of "[0..<length (sent_headers evs)]" I] len by fastforce
    from receive_all_inv [where \<Sigma> = \<Sigma>, OF assms(5,6) ok srt this] obtain d' devs where
      "receive_all d (wire_packets (map (packet_header ?N ?K ?n \<Sigma>) ?ms)) = Inr (d', devs)"
      and inv: "recv_inv ?N ?K ?n \<Sigma> d d' ?ms devs" by blast
    moreover have "nths (sent_headers evs) I = map (packet_header ?N ?K ?n \<Sigma>) ?ms"
      by (subst hs) (simp only: nths_map)
    ultimately show ?thesis using recv_inv_credit [OF inv ne srt] by auto
  qed
  with ok show ?thesis by blast
qed



section \<open>Forwarding\<close>

text \<open>The bytes slot \<open>i\<close> can forward: what is buffered, as far as the socket takes it.\<close>

definition forwarded :: "dec_env \<Rightarrow> 'a RqDecoder_scheme \<Rightarrow> nat \<Rightarrow> u32" where
  "forwarded env d i = (if connected (m_txSlots d ! i)
     then min (dec_tx_available env i) (m_nbuffered (d_slotStates d ! i)) else 0)"

definition slot_forwarded ::
  "dec_env \<Rightarrow> 'a RqDecoder_scheme \<Rightarrow> 'a RqDecoder_scheme \<Rightarrow> nat \<Rightarrow> bool" where
  "slot_forwarded env d d' i \<longleftrightarrow>
     m_nbuffered (d_slotStates d' ! i) = m_nbuffered (d_slotStates d ! i) - forwarded env d i
     \<and> tx_total (m_txSlots d' ! i) = tx_total (m_txSlots d ! i) + ucast (forwarded env d i)"

definition same_slot :: "'a RqDecoder_scheme \<Rightarrow> 'a RqDecoder_scheme \<Rightarrow> nat \<Rightarrow> bool" where
  "same_slot d d' i \<longleftrightarrow> d_slotStates d' ! i = d_slotStates d ! i \<and> m_txSlots d' ! i = m_txSlots d ! i"

definition same_shape :: "'a RqDecoder_scheme \<Rightarrow> 'a RqDecoder_scheme \<Rightarrow> bool" where
  "same_shape d d' \<longleftrightarrow> length (d_slotStates d') = length (d_slotStates d) \<and> length (m_txSlots d') = length (m_txSlots d)
     \<and> m_rxSlots d' = m_rxSlots d \<and> d_nslots d' = d_nslots d \<and> d_sbid d' = d_sbid d \<and> d_sb_nrcv d' = d_sb_nrcv d"

lemma min_zero_cases: "(min (a :: u32) b = 0) = (a = 0 \<or> b = 0)"
  by (auto simp: min_def)

lemma TryToSend_effect:
  assumes "i < length (m_txSlots d)" "i < length (d_slotStates d)" "TryToSend env i d = Inr (d', evs)"
  shows "slot_forwarded env d d' i \<and> (\<forall>k. k \<noteq> i \<longrightarrow> same_slot d d' k) \<and> same_shape d d'
    \<and> (connected (m_txSlots d' ! i) = connected (m_txSlots d ! i))"
  using assms
  by (auto simp: TryToSend_def Let_def forwarded_def slot_forwarded_def same_slot_def same_shape_def
      nth_list_update_cases split: if_splits)

lemma try_all_snoc:
  "try_all env d (is @ [i]) = bindE (try_all env d is) (\<lambda>(d', evs).
     bindE (TryToSend env i d') (\<lambda>(d'', evs'). Inr (d'', evs @ evs')))"
  by (simp add: try_all_def foldE_append case_prod_unfold)

lemma try_all_effect:
  assumes "try_all env d is = Inr (d', evs)" "distinct is"
    and "\<forall>i \<in> set is. i < length (m_txSlots d) \<and> i < length (d_slotStates d)"
  shows "same_shape d d' \<and> (\<forall>i. if i \<in> set is then slot_forwarded env d d' i else same_slot d d' i)"
  using assms
proof (induction "is" arbitrary: d' evs rule: rev_induct)
  case Nil
  then show ?case by (simp add: try_all_def same_shape_def same_slot_def)
next
  case (snoc k "is")
  from snoc.prems(1) obtain d1 evs1 evs2 where d1: "try_all env d is = Inr (d1, evs1)"
    and step: "TryToSend env k d1 = Inr (d', evs2)" by (auto simp: try_all_snoc)
  from snoc.IH [OF d1] snoc.prems(2,3) have
    IH: "same_shape d d1" "\<And>i. if i \<in> set is then slot_forwarded env d d1 i else same_slot d d1 i" by auto
  then have k: "same_slot d d1 k" "k < length (m_txSlots d1)" "k < length (d_slotStates d1)"
    using snoc.prems(2,3) IH(2) [of k] by (auto simp: same_shape_def)
  from TryToSend_effect [OF k(2,3) step] have
    st: "slot_forwarded env d1 d' k" "\<And>i. i \<noteq> k \<Longrightarrow> same_slot d1 d' i" "same_shape d1 d'" by auto
  have "slot_forwarded env d d' k"
    using st(1) k(1) by (simp add: slot_forwarded_def same_slot_def forwarded_def)
  moreover have "if i \<in> set is then slot_forwarded env d d' i else same_slot d d' i" if "i \<noteq> k" for i
    using IH(2) [of i] st(2) [OF that] by (auto simp: slot_forwarded_def same_slot_def)
  moreover have "same_shape d d'" using IH(1) st(3) by (simp add: same_shape_def)
  ultimately show ?case by (metis Un_iff empty_iff empty_set insert_iff list.simps(15) set_append)
qed

lemma forwarded_le: "forwarded env d i \<le> m_nbuffered (d_slotStates d ! i)"
  by (simp add: forwarded_def)

lemma ucast_minus_u32: "(b :: u32) \<le> a \<Longrightarrow> (ucast (a - b) :: u64) + ucast b = ucast a"
proof -
  assume "b \<le> a"
  then have "unat (a - b) + unat b = unat a" by (simp add: unat_sub word_le_nat_alt)
  then show ?thesis by (metis ucast_of_nat_unat of_nat_add)
qed

text \<open>
  C13. Forwarding loses and invents no byte. When the send loop at the end of \<open>HandleRead\<close>
  succeeds, every stream in use has sent exactly what its socket could take of its buffered bytes
  (nothing while unconnected), those bytes are added to the slot's total, and bytes sent plus
  bytes buffered are unchanged; the other slots keep their state.
\<close>

theorem forwarding_conserves_bytes:
  assumes "dec_wf d" and "try_all env d [0..<d_nslots d] = Inr (d', evs)" and "i < TX_SLOT_COUNT"
  shows "m_nbuffered (d_slotStates d' ! i)
      = m_nbuffered (d_slotStates d ! i) - (if i < d_nslots d then forwarded env d i else 0)
    \<and> tx_total (m_txSlots d' ! i) = tx_total (m_txSlots d ! i) + (if i < d_nslots d then ucast (forwarded env d i) else 0)
    \<and> tx_total (m_txSlots d' ! i) + ucast (m_nbuffered (d_slotStates d' ! i))
        = tx_total (m_txSlots d ! i) + ucast (m_nbuffered (d_slotStates d ! i))"
proof -
  have "if i < d_nslots d then slot_forwarded env d d' i else same_slot d d' i"
    using try_all_effect [OF assms(2)] assms(1) by (auto simp: dec_wf_def wf_slots_def)
  then show ?thesis
    using ucast_minus_u32 [OF forwarded_le [of env d i]]
    by (auto simp: slot_forwarded_def same_slot_def add.assoc [symmetric] split: if_splits)
      (simp add: algebra_simps)
qed

definition example_dec_env :: dec_env where
  "example_dec_env = \<lparr>dec_tx_available = (\<lambda>_. 7), dec_send_result = (\<lambda>_ n. n)\<rparr>"

lemma example_forward:
  "case try_all example_dec_env (example_decoder\<lparr>d_slotStates := init_SlotState\<lparr>m_nbuffered := 10\<rparr> # replicate 7 init_SlotState\<rparr>) [0..<1] of
     Inl _ \<Rightarrow> False | Inr (d', evs) \<Rightarrow> m_nbuffered (d_slotStates d' ! 0) = 3 \<and> tx_total (m_txSlots d' ! 0) = 7"
  by code_simp

theorem forwarding_conserves_bytes_witness:
  "\<exists>d d' evs. try_all example_dec_env (d :: RqDecoder) [0..<d_nslots d] = Inr (d', evs)
     \<and> m_nbuffered (d_slotStates d' ! 0) = 3
     \<and> tx_total (m_txSlots d' ! 0) + ucast (m_nbuffered (d_slotStates d' ! 0))
        = tx_total (m_txSlots d ! 0) + ucast (m_nbuffered (d_slotStates d ! 0))"
proof -
  let ?d = "example_decoder\<lparr>d_slotStates := init_SlotState\<lparr>m_nbuffered := 10\<rparr> # replicate 7 init_SlotState\<rparr>"
  have n: "d_nslots ?d = 1" and wf: "dec_wf ?d"
    by (simp_all add: example_decoder_def init_RqDecoder_def dec_wf_def wf_slots_def ProxyBase.defs)
  obtain d' evs where run: "try_all example_dec_env ?d [0..<d_nslots ?d] = Inr (d', evs)"
    and left: "m_nbuffered (d_slotStates d' ! 0) = 3"
    using example_forward unfolding n by (auto split: sum.splits)
  have "0 < TX_SLOT_COUNT" by simp
  from forwarding_conserves_bytes [OF wf run this]
  have sum: "tx_total (m_txSlots d' ! 0) + ucast (m_nbuffered (d_slotStates d' ! 0))
      = tx_total (m_txSlots ?d ! 0) + ucast (m_nbuffered (d_slotStates ?d ! 0))" by blast
  show ?thesis by (intro exI conjI, rule run, rule left, rule sum)
qed

section \<open>Any packets\<close>

text \<open>What holds whatever headers arrive, also those no encoder sends.\<close>

definition dec_inv :: "'a RqDecoder_scheme \<Rightarrow> bool" where
  "dec_inv d \<longleftrightarrow> dec_wf d \<and> 0 \<le> d_sb_nsrcrcv d \<and> d_sb_nsrcrcv d \<le> d_sb_nrcv d
     \<and> (\<forall>st \<in> set (d_slotStates d). 0 \<le> m_nsymbcontig st \<and> m_nsymbcontig st \<le> m_nsymb st)"

lemma set_map_slots:
  assumes "\<forall>st \<in> set sts. P st" "\<And>i st. P st \<Longrightarrow> P (f i st)"
  shows "\<forall>st \<in> set (map_slots n f sts). P st"
  using assms by (auto simp: map_slots_def)

lemma dec_inv_slots:
  assumes "dec_inv d" "dec_wf d'" "0 \<le> d_sb_nsrcrcv d'" "d_sb_nsrcrcv d' \<le> d_sb_nrcv d'"
    and "d_slotStates d' = map_slots k f (d_slotStates d)"
    and "\<And>i st. 0 \<le> m_nsymbcontig st \<and> m_nsymbcontig st \<le> m_nsymb st \<Longrightarrow>
      0 \<le> m_nsymbcontig (f i st) \<and> m_nsymbcontig (f i st) \<le> m_nsymb (f i st)"
  shows "dec_inv d'"
  unfolding dec_inv_def
proof (intro conjI)
  show "\<forall>st \<in> set (d_slotStates d'). 0 \<le> m_nsymbcontig st \<and> m_nsymbcontig st \<le> m_nsymb st"
    unfolding assms(5) using assms(1,6) by (intro set_map_slots) (auto simp: dec_inv_def)
qed (use assms(2-4) in auto)

lemma dec_inv_advance: "dec_inv d \<Longrightarrow> dec_inv (fst (advance_block sbid d))"
  by (rule dec_inv_slots [where d = d and k = "d_nslots d" and f = "\<lambda>_ st. st\<lparr>m_nsymbcontig := 0, m_nsymb := 0\<rparr>"])
    (auto simp: advance_block_def dec_inv_def dec_wf_def wf_slots_def)

lemma dec_inv_update_nsymb: "dec_inv d \<Longrightarrow> dec_inv (update_nsymb iseq d)"
  by (rule dec_inv_slots [where d = d and k = "d_nslots d"
        and f = "\<lambda>i st. if sint (iseq ! i) > m_nsymb st then st\<lparr>m_nsymb := sint (iseq ! i)\<rparr> else st"])
    (auto simp: update_nsymb_def dec_inv_def dec_wf_def wf_slots_def)

lemma dec_inv_update_stream:
  assumes "dec_inv d" "update_stream s d = Inr d'"
  shows "dec_inv d'"
proof (cases "s = -1 \<or> s < 0 \<or> int (length (d_slotStates d)) \<le> s")
  case True
  with assms show ?thesis by (auto simp: update_stream_def split: if_splits)
next
  case False
  then have "d_slotStates d ! nat s \<in> set (d_slotStates d)" by (intro nth_mem) auto
  with assms(1) have "0 \<le> m_nsymb (d_slotStates d ! nat s)" by (fastforce simp: dec_inv_def)
  with assms False show ?thesis
    by (auto simp: update_stream_def Let_def dec_inv_def dec_wf_def wf_slots_def split: if_splits
        dest!: set_update_subset_insert [THEN subsetD])
qed

lemma dec_inv_try_decode:
  assumes "dec_inv d"
  shows "dec_inv (fst (try_decode (count_symbol esi d)))"
proof -
  have c: "dec_inv (count_symbol esi d)"
    using assms by (auto simp: count_symbol_def dec_inv_def dec_wf_def wf_slots_def)
  define e where "e = count_symbol esi d"
  show ?thesis
  proof (cases "d_sb_nrcv e = d_rqkval e")
    case True
    have inv: "dec_inv e" using c by (simp add: e_def)
    show ?thesis
      unfolding e_def [symmetric]
      by (rule dec_inv_slots [OF inv, where k = "d_nslots e" and f = "\<lambda>_ st. st\<lparr>m_nbuffered := m_nbuffered st
           + of_int (m_nsymb st - m_nsymbcontig st) * d_rqtval e\<rparr>"])
        (use True inv in \<open>auto simp: try_decode_def Let_def dec_inv_def dec_wf_def wf_slots_def\<close>)
  next
    case False
    with c show ?thesis unfolding e_def [symmetric] by (simp add: try_decode_def)
  qed
qed

definition dec_step_ok :: "'a RqDecoder_scheme \<Rightarrow> 'a RqDecoder_scheme \<Rightarrow> bool" where
  "dec_step_ok d d' \<longleftrightarrow> dec_inv d' \<and> d_sbid d \<le> d_sbid d' \<and> same_outside d d'"

lemma dec_step_ok_refl: "dec_inv d \<Longrightarrow> dec_step_ok d d"
  by (simp add: dec_step_ok_def)

lemma dec_step_ok_trans: "dec_step_ok d d' \<Longrightarrow> dec_step_ok d' d'' \<Longrightarrow> dec_step_ok d d''"
  by (auto simp: dec_step_ok_def intro: same_outside_trans)

lemma update_stream_same:
  "update_stream s d = Inr d' \<Longrightarrow> same_outside d d' \<and> d_sbid d' = d_sbid d"
  by (auto simp: update_stream_def Let_def same_outside_def split: if_splits)

lemma process_symbol_sbid: "process_symbol esi h d = Inr (d', evs) \<Longrightarrow> d_sbid d' = d_sbid d"
proof -
  assume run: "process_symbol esi h d = Inr (d', evs)"
  obtain d2 where d2: "update_stream (sint (m_iseq_streamid h)) (update_nsymb (m_iseq_data h) d) = Inr d2"
    and d': "d' = fst (try_decode (count_symbol esi d2))"
    using run by (fastforce simp: process_symbol_def)
  show ?thesis
    unfolding d' using update_stream_same [OF d2] try_decode_same [of d2 esi] by (simp add: update_nsymb_def)
qed

lemma process_symbol_ok:
  assumes "dec_inv d" "process_symbol esi h d = Inr (d', evs)"
  shows "dec_step_ok d d'"
proof -
  let ?d1 = "update_nsymb (m_iseq_data h) d"
  obtain d2 where d2: "update_stream (sint (m_iseq_streamid h)) ?d1 = Inr d2"
    and d': "d' = fst (try_decode (count_symbol esi d2))"
    using assms(2) by (fastforce simp: process_symbol_def)
  have "dec_inv d'"
    unfolding d' by (rule dec_inv_try_decode [OF dec_inv_update_stream [OF dec_inv_update_nsymb [OF assms(1)] d2]])
  moreover have "same_outside d d'"
    unfolding d' using update_nsymb_same [of d "m_iseq_data h"] update_stream_same [OF d2] try_decode_same [of d2 esi]
    by (blast intro: same_outside_trans)
  ultimately show ?thesis using process_symbol_sbid [OF assms(2)] by (simp add: dec_step_ok_def)
qed

lemma receive_packet_ok:
  assumes "dec_inv d" "receive_packet d p = Inr (d', evs)"
  shows "dec_step_ok d d'"
proof -
  let ?sbid = "packet_id (snd p) sdiv d_rqnval d"
  consider (new) evs' where "d_sbid d < ?sbid"
      "process_symbol (packet_id (snd p) smod d_rqnval d) (snd p) (fst (advance_block ?sbid d)) = Inr (d', evs')"
    | (old) "d' = d"
    | (same) evs' where "process_symbol (packet_id (snd p) smod d_rqnval d) (snd p) d = Inr (d', evs')"
    using assms(2) by (auto simp: receive_packet_def Let_def split: if_splits prod.splits)
  then show ?thesis
  proof cases
    case new
    have "same_outside d (fst (advance_block ?sbid d))" "d_sbid (fst (advance_block ?sbid d)) = ?sbid"
      by (simp_all add: advance_block_def same_outside_def)
    then have "dec_step_ok d (fst (advance_block ?sbid d))"
      using new(1) dec_inv_advance [OF assms(1)] by (simp add: dec_step_ok_def)
    with process_symbol_ok [OF dec_inv_advance [OF assms(1)] new(2)] show ?thesis by (blast intro: dec_step_ok_trans)
  qed (use assms(1) process_symbol_ok in \<open>auto intro: dec_step_ok_refl\<close>)
qed

text \<open>
  C32. Whatever packets arrive, valid or forged, a decoder that does not abort keeps its counters
  consistent: the block number never goes back, no stream has more contiguous than known source
  packets, source packets received are at most packets received, and the configuration, the
  sockets and the receive totals are untouched. In particular \<open>GetTotalRx\<close> never counts a byte.
\<close>

theorem decoder_invariant:
  assumes "dec_inv d" and "receive_all d pkts = Inr (d', evs)"
  shows "dec_inv d' \<and> d_sbid d \<le> d_sbid d' \<and> m_rxSlots d' = m_rxSlots d \<and> m_txSlots d' = m_txSlots d
    \<and> GetTotalRx d' = GetTotalRx d"
proof -
  have "dec_step_ok d (fst (d', evs))"
  proof (rule foldE_invariant [where I = "\<lambda>s. dec_step_ok d (fst s)", OF assms(2) [unfolded receive_all_def]])
    show "dec_step_ok d (fst (d, [] :: dec_event list))" by (simp add: dec_step_ok_refl assms(1))
  next
    fix s pkt s'
    assume ok: "dec_step_ok d (fst s)"
      and "(case s of (d, evs) \<Rightarrow> \<lambda>pkt. bindE (receive_packet d pkt) (\<lambda>(d', evs'). Inr (d', evs @ evs'))) pkt = Inr s'"
    then obtain e where "receive_packet (fst s) pkt = Inr (fst s', e)" by (cases s) auto
    with ok have "dec_step_ok (fst s) (fst s')" by (intro receive_packet_ok) (auto simp: dec_step_ok_def)
    with ok show "dec_step_ok d (fst s')" by (rule dec_step_ok_trans)
  qed
  then show ?thesis by (simp add: dec_step_ok_def same_outside_def GetTotalRx_def)
qed

theorem decoder_invariant_witness:
  "\<exists>d' evs. receive_all example_decoder (wire_packets (map (packet_header 3 2 1 (\<lambda>_. [0, 0])) [0, 2, 3]))
       = Inr (d', evs) \<and> dec_inv d' \<and> GetTotalRx d' = GetTotalRx example_decoder"
proof -
  obtain d' evs where
    run: "receive_all example_decoder (wire_packets (map (packet_header 3 2 1 (\<lambda>_. [0, 0])) [0, 2, 3])) = Inr (d', evs)"
    using example_decoder_run by (auto split: sum.splits)
  have "dec_inv example_decoder"
    by (simp add: example_decoder_def init_RqDecoder_def dec_inv_def dec_wf_def wf_slots_def init_SlotState_def
        ProxyBase.defs)
  from decoder_invariant [OF this run] run show ?thesis by blast
qed

section \<open>Limits of the decoder\<close>

text \<open>
  C38. The 64-bit sequence number is converted to \<open>int\<close>: from \<open>2 ^ 31\<close> up to the next multiple
  of \<open>2 ^ 32\<close> the packet number is negative, so a decoder past block 0 takes every such packet for
  one of an already processed block and drops it.
\<close>

theorem high_seqno_dropped:
  assumes "dec_config N K n d" and "0 < d_sbid d" and "2 ^ 31 \<le> m" and "m < 2 ^ 32"
  shows "receive_packet d (GetSerializedSize (packet_header N K n \<Sigma> m), packet_header N K n \<Sigma> m)
    = Inr (d, [RxTrace (GetSerializedSize (packet_header N K n \<Sigma> m), packet_header N K n \<Sigma> m)])"
proof -
  let ?h = "packet_header N K n \<Sigma> m"
  have "packet_id ?h = sint (of_nat m :: u32)"
    using assms(4) by (simp add: packet_id_def packet_header_def block_header_def unsigned_of_nat take_bit_nat_eq_self)
  also have "\<dots> = int m - 2 ^ 32"
    by (rule sint_of_nat_u32_high [OF assms(3,4)])
  also have "\<dots> < 0" using assms(4) by simp
  finally have neg: "packet_id ?h < 0" .
  have N: "0 < d_rqnval d" using assms(1) by (simp add: dec_config_def)
  have "packet_id ?h sdiv d_rqnval d \<le> 0"
    using neg N by (simp add: signed_divide_int_def sgn_if div_int_pos_iff)
  moreover have "n \<le> 8" "IsValid ?h" using assms(1) by (simp_all add: dec_config_def packet_header_def block_header_def)
  ultimately show ?thesis
    using assms(2) peek_size [of n N K \<Sigma> m]
    by (simp add: receive_packet_def Let_def)
qed

theorem high_seqno_dropped_witness:
  "receive_packet (example_decoder\<lparr>d_sbid := 3\<rparr>)
      (GetSerializedSize (packet_header 3 2 1 (\<lambda>_. [0, 0]) (2 ^ 31)), packet_header 3 2 1 (\<lambda>_. [0, 0]) (2 ^ 31))
    = Inr (example_decoder\<lparr>d_sbid := 3\<rparr>,
        [RxTrace (GetSerializedSize (packet_header 3 2 1 (\<lambda>_. [0, 0]) (2 ^ 31)), packet_header 3 2 1 (\<lambda>_. [0, 0]) (2 ^ 31))])"
proof (rule high_seqno_dropped)
  show "dec_config 3 2 1 (example_decoder\<lparr>d_sbid := 3\<rparr>)"
    using example_decoder_config(1) by (simp add: dec_config_def)
qed simp_all

text \<open>
  The order assumption of \<open>decoder_credits_recoverable\<close> is needed. A source packet that arrives
  after its block was decoded is credited a second time: its contiguity counter was not advanced
  by the decoding. Here a stream of two source packets is credited three.
\<close>

lemma late_packet_credited_twice:
  "case receive_all example_decoder (wire_packets (map (packet_header 3 2 1 (\<lambda>_. [0, 0])) [0, 2, 1])) of
     Inl _ \<Rightarrow> False
   | Inr (d', evs) \<Rightarrow> m_nbuffered (d_slotStates d' ! 0) = 3 * d_rqtval example_decoder
       \<and> stream_credit 3 (\<lambda>_. [0, 0]) [0, 2, 1] 0 = 2"
  by code_simp

end
