(* ===== verification/Timed_Proxy.thy ===== *)
theory Timed_Proxy
  imports Proxy_Base
begin

text \<open>
  \<open>TimedProxy\<close>, \<open>ns3_apps/timed-proxy.h\<close> and \<open>ns3_apps/timed-proxy.cc\<close>: a proxy that stores the
  packets it receives and forwards them one at a time in the active slices of a time cycle.

  A \<open>Time\<close> is its number of nanoseconds, an \<open>int\<close>, and the simulator's clock an argument of the
  handlers. How long a packet occupies the link is floating-point arithmetic of ns-3 and enters as
  the argument \<open>duration\<close>. A pending event is its expiry time.
\<close>

section \<open>State\<close>

type_synonym proxy_pkt = "nat \<times> u32"    \<comment> \<open>an identity and the size\<close>

record TimedProxy = ProxyBase +
  m_sendEv :: "int option"
  m_txEndTime :: int
  m_packetStore :: "proxy_pkt list"
  m_cbRate :: u64
  m_nSliceWidthMS :: u32
  m_nSliceTaperMS :: u32
  m_nSlices :: u32
  m_ActiveMap :: u32

definition init_TimedProxy :: TimedProxy where
  "init_TimedProxy = ProxyBase.extend init_ProxyBase
     \<lparr>m_sendEv = None, m_txEndTime = 0, m_packetStore = [], m_cbRate = 5000000, m_nSliceWidthMS = 20,
      m_nSliceTaperMS = 2, m_nSlices = 1, m_ActiveMap = 0xffff\<rparr>"

definition TimedProxy_attributes :: "attr_spec list" where
  "TimedProxy_attributes =
     [(''DataRate'', DataRateValue ''5Mbps'', None),
      (''SliceWidthMS'', UintegerValue 20, Some 0),
      (''SliceTaperMS'', UintegerValue 2, Some 0),
      (''nSlices'', UintegerValue 1, Some 0),
      (''ActiveMap'', UintegerValue 0xffff, Some 0)]
     @ SetTidDefaultProtocols ''ns3::UdpSocketFactory'' ''ns3::UdpSocketFactory''"

datatype timed_event =
    TimedRx nat proxy_pkt
  | TimedSend int sock proxy_pkt    \<comment> \<open>with the time of the call\<close>
  | TimedSchedule int               \<comment> \<open>the delay to the next \<open>SendNextPacket\<close>\<close>

section \<open>The next transmission opportunity\<close>

definition GetMilliSeconds :: "int \<Rightarrow> int" where
  "GetMilliSeconds t = t sdiv 1000000"

definition FromMS :: "int \<Rightarrow> int" where
  "FromMS ms = ms * 1000000"

text \<open>\<open>(1u << (slot % m_nSlices)) & m_ActiveMap\<close>: undefined for zero slices and for a shift by 32 or
  more.\<close>

definition slot_active :: "u32 \<Rightarrow> u32 \<Rightarrow> int \<Rightarrow> fault + bool" where
  "slot_active nSlices activeMap slot =
     (if nSlices = 0 then Inl ArithmeticError
      else let sh = slot smod uint nSlices
        in if 32 \<le> sh then Inl ArithmeticError
           else Inr (push_bit (nat sh) 1 AND activeMap \<noteq> 0))"

partial_function (option) next_slot :: "u32 \<Rightarrow> u32 \<Rightarrow> int \<Rightarrow> (fault + int) option" where
  "next_slot nSlices activeMap slot =
     (case slot_active nSlices activeMap (slot + 1) of
        Inl e \<Rightarrow> Some (Inl e)
      | Inr act \<Rightarrow> if act then Some (Inr (slot + 1)) else next_slot nSlices activeMap (slot + 1))"

declare next_slot.simps [code]

definition GetNextTxTime :: "int \<Rightarrow> 'a TimedProxy_scheme \<Rightarrow> fault + int" where
  "GetNextTxTime now p =
     (let min_t = max (m_txEndTime p) now; mn = GetMilliSeconds min_t; width = uint (m_nSliceWidthMS p)
      in if width = 0 then Inl ArithmeticError
         else let slot = mn sdiv width; slot_taper = (mn + uint (m_nSliceTaperMS p)) sdiv width
           in bindE (slot_active (m_nSlices p) (m_ActiveMap p) slot) (\<lambda>act.
              if act \<and> slot = slot_taper then Inr min_t
              else case next_slot (m_nSlices p) (m_ActiveMap p) slot of
                  None \<Rightarrow> Inl Diverges
                | Some r \<Rightarrow> bindE r (\<lambda>slot'. Inr (FromMS (slot' * width)))))"

section \<open>Receiving and sending\<close>

definition schedule_next ::
  "int \<Rightarrow> 'a TimedProxy_scheme \<Rightarrow> fault + ('a TimedProxy_scheme \<times> int \<times> timed_event list)" where
  "schedule_next now p =
     bindE (GetNextTxTime now p) (\<lambda>t. Inr (p\<lparr>m_sendEv := Some t\<rparr>, t, [TimedSchedule (t - now)]))"

definition read_packet ::
  "int \<Rightarrow> nat \<Rightarrow> 'a TimedProxy_scheme \<Rightarrow> proxy_pkt \<Rightarrow> fault + ('a TimedProxy_scheme \<times> timed_event list)" where
  "read_packet now slotID p pkt =
     (let sl = m_rxSlots p ! slotID;
          p1 = p\<lparr>m_rxSlots := (m_rxSlots p)[slotID := sl\<lparr>rx_total := rx_total sl + scast (snd pkt)\<rparr>]\<rparr>
      in bindE (if m_packetStore p1 = [] then bindE (schedule_next now p1) (\<lambda>(p2, t, evs). Inr (p2, evs))
                else Inr (p1, [])) (\<lambda>(p2, evs).
         Inr (p2\<lparr>m_packetStore := m_packetStore p2 @ [pkt]\<rparr>, TimedRx slotID pkt # evs)))"

definition Timed_HandleRead ::
  "int \<Rightarrow> nat \<Rightarrow> proxy_pkt list \<Rightarrow> 'a TimedProxy_scheme \<Rightarrow> fault + ('a TimedProxy_scheme \<times> timed_event list)" where
  "Timed_HandleRead now slotID pkts p =
     foldE (\<lambda>(p, evs) pkt. bindE (read_packet now slotID p pkt) (\<lambda>(p', evs'). Inr (p', evs @ evs'))) (p, []) pkts"

definition SendNextPacket ::
  "(u32 \<Rightarrow> u64 \<Rightarrow> int) \<Rightarrow> int \<Rightarrow> 'a TimedProxy_scheme \<Rightarrow> fault + ('a TimedProxy_scheme \<times> timed_event list)" where
  "SendNextPacket duration now p =
     bindE (guardE (m_sendEv p = None) AssertFail) (\<lambda>_.
     case m_packetStore p of [] \<Rightarrow> Inl AssertFail
     | pkt # rest \<Rightarrow>
        (let sl = m_txSlots p ! 0
         in case tx_sock sl of None \<Rightarrow> Inl NullPointer
            | Some s \<Rightarrow>
               let p1 = p\<lparr>m_packetStore := rest,
                          m_txSlots := (m_txSlots p)[0 := sl\<lparr>tx_total := tx_total sl + scast (snd pkt)\<rparr>]\<rparr>
               in if rest = [] then Inr (p1, [TimedSend now s pkt])
                  else bindE (schedule_next now p1) (\<lambda>(p2, t, evs).
                    Inr (p2\<lparr>m_txEndTime := t + duration (snd pkt) (m_cbRate p2)\<rparr>, TimedSend now s pkt # evs))))"

section \<open>Runs\<close>

record timed_run =
  tr_now :: int
  tr_app :: TimedProxy
  tr_events :: "timed_event list"

text \<open>The simulator: packets may arrive at any time up to the pending event, and the pending event
  fires at its time. An event that fires is no longer pending.\<close>

inductive timed_step :: "(u32 \<Rightarrow> u64 \<Rightarrow> int) \<Rightarrow> timed_run \<Rightarrow> timed_run \<Rightarrow> bool" for duration where
  receive: "tr_now s \<le> t \<Longrightarrow> slotID < RX_SLOT_COUNT \<Longrightarrow> (\<And>e. m_sendEv (tr_app s) = Some e \<Longrightarrow> t \<le> e) \<Longrightarrow>
    Timed_HandleRead t slotID pkts (tr_app s) = Inr (p', evs) \<Longrightarrow>
    timed_step duration s \<lparr>tr_now = t, tr_app = p', tr_events = tr_events s @ evs\<rparr>"
| fire: "m_sendEv (tr_app s) = Some t \<Longrightarrow>
    SendNextPacket duration t (tr_app s\<lparr>m_sendEv := None\<rparr>) = Inr (p', evs) \<Longrightarrow>
    timed_step duration s \<lparr>tr_now = t, tr_app = p', tr_events = tr_events s @ evs\<rparr>"

inductive timed_reachable :: "(u32 \<Rightarrow> u64 \<Rightarrow> int) \<Rightarrow> TimedProxy \<Rightarrow> timed_run \<Rightarrow> bool" for duration p0 where
  start: "timed_reachable duration p0 \<lparr>tr_now = 0, tr_app = p0, tr_events = []\<rparr>"
| step: "timed_reachable duration p0 s \<Longrightarrow> timed_step duration s s' \<Longrightarrow> timed_reachable duration p0 s'"

inductive_cases timed_stepE: "timed_step duration s s'"

fun received :: "timed_event list \<Rightarrow> proxy_pkt list" where
  "received [] = []"
| "received (TimedRx i pkt # evs) = pkt # received evs"
| "received (_ # evs) = received evs"

fun sent_pkts :: "timed_event list \<Rightarrow> proxy_pkt list" where
  "sent_pkts [] = []"
| "sent_pkts (TimedSend t s pkt # evs) = pkt # sent_pkts evs"
| "sent_pkts (_ # evs) = sent_pkts evs"

fun send_times :: "timed_event list \<Rightarrow> int list" where
  "send_times [] = []"
| "send_times (TimedSend t s pkt # evs) = t # send_times evs"
| "send_times (_ # evs) = send_times evs"

lemma timed_logs_append [simp]:
  "received (xs @ ys) = received xs @ received ys"
  "sent_pkts (xs @ ys) = sent_pkts xs @ sent_pkts ys"
  "send_times (xs @ ys) = send_times xs @ send_times ys"
proof -
  show "received (xs @ ys) = received xs @ received ys" by (induction xs rule: received.induct) simp_all
  show "sent_pkts (xs @ ys) = sent_pkts xs @ sent_pkts ys" by (induction xs rule: sent_pkts.induct) simp_all
  show "send_times (xs @ ys) = send_times xs @ send_times ys" by (induction xs rule: send_times.induct) simp_all
qed

section \<open>Active slots\<close>

definition config_ok :: "'a TimedProxy_scheme \<Rightarrow> bool" where
  "config_ok p \<longleftrightarrow> 0 < uint (m_nSliceWidthMS p) \<and> 0 < uint (m_nSlices p) \<and> uint (m_nSlices p) \<le> 32"

definition active :: "'a TimedProxy_scheme \<Rightarrow> int \<Rightarrow> bool" where
  "active p slot \<longleftrightarrow> bit (m_ActiveMap p) (nat (slot mod uint (m_nSlices p)))"

definition slot_of :: "'a TimedProxy_scheme \<Rightarrow> int \<Rightarrow> int" where
  "slot_of p t = t div FromMS (uint (m_nSliceWidthMS p))"

text \<open>A packet may be sent at time \<open>t\<close>: the slice is active and not in its last \<open>SliceTaperMS\<close>.\<close>

definition sendable :: "'a TimedProxy_scheme \<Rightarrow> int \<Rightarrow> bool" where
  "sendable p t \<longleftrightarrow> active p (slot_of p t)
     \<and> (t div 1000000 + uint (m_nSliceTaperMS p)) div uint (m_nSliceWidthMS p) = slot_of p t"

lemma smod_nonneg: "0 \<le> a \<Longrightarrow> 0 < b \<Longrightarrow> a smod b = a mod (b :: int)"
  by (simp add: signed_modulo_int_def signed_divide_int_def sgn_if minus_div_mult_eq_mod [symmetric])

lemma sdiv_nonneg: "0 \<le> a \<Longrightarrow> 0 < b \<Longrightarrow> a sdiv b = a div (b :: int)"
  by (auto simp: signed_divide_int_def sgn_if)

lemma push_bit_and: "(push_bit n 1 AND m \<noteq> 0) = bit (m :: u32) n"
  if "n < 32"
proof
  assume "push_bit n 1 AND m \<noteq> 0"
  then obtain k where "bit (push_bit n 1 AND m) k" by (metis bit_eq_iff bit_0_eq bot_apply bot_bool_def)
  then show "bit m n" by (auto simp: bit_simps)
next
  assume "bit m n"
  then have "bit (push_bit n 1 AND m) n" using that by (simp add: bit_simps)
  then show "push_bit n 1 AND m \<noteq> 0" by (metis bit_0_eq bot_apply bot_bool_def)
qed

lemma slot_active_ok:
  assumes "config_ok p" "0 \<le> slot"
  shows "slot_active (m_nSlices p) (m_ActiveMap p) slot = Inr (active p slot)"
proof -
  let ?n = "uint (m_nSlices p)"
  have n: "0 < ?n" "?n \<le> 32" "m_nSlices p \<noteq> 0" using assms(1) by (auto simp: config_ok_def)
  have "slot mod ?n < 32" "0 \<le> slot mod ?n"
    using less_le_trans [OF pos_mod_bound [OF n(1)] n(2)] pos_mod_sign [OF n(1)] by auto
  then show ?thesis
    using n assms(2) push_bit_and [of "nat (slot mod ?n)"]
    by (simp add: slot_active_def Let_def smod_nonneg active_def)
qed

definition some_active :: "'a TimedProxy_scheme \<Rightarrow> bool" where
  "some_active p \<longleftrightarrow> (\<exists>k. 0 \<le> k \<and> k < uint (m_nSlices p) \<and> bit (m_ActiveMap p) (nat k))"

lemma active_recurs:
  assumes "config_ok p" "some_active p"
  shows "\<exists>d < nat (uint (m_nSlices p)). active p (slot + 1 + int d)"
proof -
  let ?n = "uint (m_nSlices p)"
  obtain k where k: "0 \<le> k" "k < ?n" "bit (m_ActiveMap p) (nat k)" using assms(2) by (auto simp: some_active_def)
  have n: "0 < ?n" using assms(1) by (simp add: config_ok_def)
  let ?d = "(k - (slot + 1)) mod ?n"
  have "0 \<le> ?d" "?d < ?n" using n by (rule pos_mod_sign, rule pos_mod_bound)
  then have "nat ?d < nat ?n" "int (nat ?d) = ?d" using n by (simp_all only: nat_mono_iff int_nat_eq if_True)
  moreover have "(slot + 1 + ?d) mod ?n = k" using k by (simp add: mod_simps)
  ultimately show ?thesis using k by (intro exI [of _ "nat ?d"]) (simp only: active_def if_True simp_thms)
qed

lemma next_slot_skip:
  assumes "config_ok p" "0 \<le> slot" "\<And>i. i < d \<Longrightarrow> \<not> active p (slot + 1 + int i)"
  shows "next_slot (m_nSlices p) (m_ActiveMap p) slot = next_slot (m_nSlices p) (m_ActiveMap p) (slot + int d)"
  using assms(2,3)
proof (induction d arbitrary: slot)
  case (Suc d)
  have "\<not> active p (slot + 1)" using Suc.prems(2) [of 0] by simp
  then have "next_slot (m_nSlices p) (m_ActiveMap p) slot = next_slot (m_nSlices p) (m_ActiveMap p) (slot + 1)"
    using slot_active_ok [OF assms(1), of "slot + 1"] Suc.prems(1) by (subst next_slot.simps) simp
  moreover have "\<not> active p (slot + 1 + 1 + int i)" if "i < d" for i
    using Suc.prems(2) [of "Suc i"] that by (simp add: algebra_simps)
  ultimately show ?case using Suc.IH [of "slot + 1"] Suc.prems(1) by (simp add: algebra_simps)
qed simp

lemma next_slot_found:
  assumes ok: "config_ok p" and act: "some_active p" and pos: "0 \<le> slot"
  shows "\<exists>s. next_slot (m_nSlices p) (m_ActiveMap p) slot = Some (Inr s) \<and> slot < s \<and> active p s
    \<and> (\<forall>u. slot < u \<longrightarrow> u < s \<longrightarrow> \<not> active p u)"
proof -
  let ?P = "\<lambda>d. active p (slot + 1 + int d)"
  define d where "d = (LEAST d. ?P d)"
  have d: "?P d" "\<And>i. i < d \<Longrightarrow> \<not> ?P i"
    using active_recurs [OF ok act, of slot] unfolding d_def by (auto intro: LeastI dest: not_less_Least)
  have "next_slot (m_nSlices p) (m_ActiveMap p) slot = Some (Inr (slot + 1 + int d))"
    using next_slot_skip [OF ok pos d(2)] slot_active_ok [OF ok, of "slot + int d + 1"] d(1) pos
    by (subst (asm) (2) next_slot.simps) (simp add: algebra_simps)
  moreover have "\<not> active p u" if "slot < u" "u < slot + 1 + int d" for u
    using d(2) [of "nat (u - slot - 1)"] that by simp
  ultimately show ?thesis using d(1) by (intro exI [of _ "slot + 1 + int d"]) auto
qed

text \<open>Without an active slice the loop does not end.\<close>

lemma next_slot_diverges:
  assumes ok: "config_ok p" and none: "\<not> some_active p"
  shows "0 \<le> slot \<Longrightarrow> next_slot (m_nSlices p) (m_ActiveMap p) slot = None"
proof -
  have never: "\<not> active p s" for s
    using ok none by (auto simp: active_def some_active_def config_ok_def)
  have diverges: "\<not> (0 \<le> s \<and> n = m_nSlices p \<and> a = m_ActiveMap p)" if "next_slot n a s = Some r" for n a s r
    using that
  proof (rule next_slot.raw_induct [rotated])
    fix rec n a s r
    assume IH: "\<And>n a s r. rec n a s = Some r \<Longrightarrow> \<not> (0 \<le> s \<and> n = m_nSlices p \<and> a = m_ActiveMap p)"
      and body: "(case slot_active n a (s + 1) of Inl e \<Rightarrow> Some (Inl e)
        | Inr act \<Rightarrow> if act then Some (Inr (s + 1)) else rec n a (s + 1)) = Some r"
    show "\<not> (0 \<le> s \<and> n = m_nSlices p \<and> a = m_ActiveMap p)"
      using body slot_active_ok [OF ok, of "s + 1"] never [of "s + 1"] IH [of n a "s + 1" r] by auto
  qed
  show "next_slot (m_nSlices p) (m_ActiveMap p) slot = None" if "0 \<le> slot"
    using diverges that by (cases "next_slot (m_nSlices p) (m_ActiveMap p) slot") auto
qed

section \<open>\<open>GetNextTxTime\<close>\<close>

lemma slot_of_ms: "slot_of p t = t div 1000000 div uint (m_nSliceWidthMS p)"
  unfolding slot_of_def FromMS_def by (subst mult.commute) (rule zdiv_zmult2_eq, simp)

lemma min_slot:
  assumes "config_ok p" "0 \<le> t"
  shows "GetMilliSeconds t sdiv uint (m_nSliceWidthMS p) = slot_of p t"
    and "(GetMilliSeconds t + uint (m_nSliceTaperMS p)) sdiv uint (m_nSliceWidthMS p)
      = (t div 1000000 + uint (m_nSliceTaperMS p)) div uint (m_nSliceWidthMS p)"
proof -
  have w: "0 < uint (m_nSliceWidthMS p)" using assms(1) by (simp add: config_ok_def)
  have ms: "GetMilliSeconds t = t div 1000000" "0 \<le> t div 1000000"
    using assms(2) by (simp_all add: GetMilliSeconds_def sdiv_nonneg)
  show "GetMilliSeconds t sdiv uint (m_nSliceWidthMS p) = slot_of p t"
    using ms w by (simp add: sdiv_nonneg slot_of_ms)
  show "(GetMilliSeconds t + uint (m_nSliceTaperMS p)) sdiv uint (m_nSliceWidthMS p)
      = (t div 1000000 + uint (m_nSliceTaperMS p)) div uint (m_nSliceWidthMS p)"
    using ms w by (simp add: sdiv_nonneg)
qed

lemma GetNextTxTime_eq:
  assumes ok: "config_ok p" and now: "0 \<le> now"
  defines "t0 \<equiv> max (m_txEndTime p) now"
  shows "GetNextTxTime now p = (if sendable p t0 then Inr t0
    else case next_slot (m_nSlices p) (m_ActiveMap p) (slot_of p t0) of
        None \<Rightarrow> Inl Diverges | Some r \<Rightarrow> bindE r (\<lambda>s. Inr (FromMS (s * uint (m_nSliceWidthMS p)))))"
proof -
  have t0: "0 \<le> t0" using now by (simp add: t0_def)
  then have "0 \<le> slot_of p t0" using ok by (simp add: slot_of_def FromMS_def config_ok_def pos_imp_zdiv_nonneg_iff)
  then have act: "slot_active (m_nSlices p) (m_ActiveMap p) (slot_of p t0) = Inr (active p (slot_of p t0))"
    by (rule slot_active_ok [OF ok])
  have "uint (m_nSliceWidthMS p) \<noteq> 0" using ok by (simp add: config_ok_def)
  then show ?thesis
    unfolding GetNextTxTime_def Let_def t0_def [symmetric] min_slot [OF ok t0] act
    by (auto simp: sendable_def)
qed

lemma slot_of_FromMS:
  assumes "config_ok p"
  shows "slot_of p (FromMS (s * uint (m_nSliceWidthMS p))) = s"
    and "FromMS (s * uint (m_nSliceWidthMS p)) div 1000000 = s * uint (m_nSliceWidthMS p)"
  using assms by (simp_all add: slot_of_def FromMS_def config_ok_def)

lemma slot_of_less:
  assumes "config_ok p" "slot_of p t < s"
  shows "t < FromMS (s * uint (m_nSliceWidthMS p))"
proof (rule ccontr)
  assume "\<not> ?thesis"
  then have "slot_of p (FromMS (s * uint (m_nSliceWidthMS p))) \<le> slot_of p t"
    using assms(1) unfolding slot_of_def by (intro zdiv_mono1) (auto simp: config_ok_def FromMS_def)
  with assms slot_of_FromMS(1) [OF assms(1)] show False by simp
qed

lemma slot_of_mono: "config_ok p \<Longrightarrow> t \<le> u \<Longrightarrow> slot_of p t \<le> slot_of p u"
  unfolding slot_of_def by (intro zdiv_mono1) (auto simp: config_ok_def FromMS_def)

text \<open>Once a slice has entered its taper it stays there until its end.\<close>

lemma not_sendable_same_slot:
  assumes ok: "config_ok p" and no: "\<not> sendable p t" and le: "t \<le> u" and same: "slot_of p u = slot_of p t"
  shows "\<not> sendable p u"
proof (cases "active p (slot_of p t)")
  case True
  let ?w = "uint (m_nSliceWidthMS p)" and ?c = "uint (m_nSliceTaperMS p)"
  have w: "0 < ?w" using ok by (simp add: config_ok_def)
  have "t div 1000000 div ?w \<le> (t div 1000000 + ?c) div ?w" using w by (intro zdiv_mono1) auto
  moreover have "slot_of p t = t div 1000000 div ?w"
    by (rule slot_of_ms)
  moreover have "(t div 1000000 + ?c) div ?w \<le> (u div 1000000 + ?c) div ?w"
    using w le by (intro zdiv_mono1 add_right_mono) auto
  ultimately show ?thesis using no True same by (auto simp: sendable_def)
qed (simp add: sendable_def same)

lemma slot_before:
  assumes ok: "config_ok p" and u: "u < FromMS (s * uint (m_nSliceWidthMS p))"
  shows "slot_of p u < s"
proof (rule ccontr)
  let ?w = "uint (m_nSliceWidthMS p)"
  have w: "0 < ?w" using ok by (simp add: config_ok_def)
  assume "\<not> slot_of p u < s"
  then have "s * ?w \<le> u div 1000000 div ?w * ?w" using w by (simp add: slot_of_ms mult_right_mono)
  also have "\<dots> \<le> u div 1000000"
    using pos_mod_sign [OF w, of "u div 1000000"] div_mult_mod_eq [of "u div 1000000" ?w] by linarith
  finally have "s * ?w * 1000000 \<le> u div 1000000 * 1000000" by simp
  also have "\<dots> \<le> u" by simp
  finally show False using u by (simp add: FromMS_def)
qed

lemma next_tx_time:
  assumes ok: "config_ok p" and now: "0 \<le> now" and act: "some_active p"
  shows "\<exists>t. GetNextTxTime now p = Inr t \<and> max (m_txEndTime p) now \<le> t \<and> active p (slot_of p t)
    \<and> (uint (m_nSliceTaperMS p) < uint (m_nSliceWidthMS p) \<longrightarrow> sendable p t)
    \<and> (\<forall>u. max (m_txEndTime p) now \<le> u \<longrightarrow> u < t \<longrightarrow> \<not> sendable p u)"
proof -
  define t0 where "t0 = max (m_txEndTime p) now"
  let ?w = "uint (m_nSliceWidthMS p)"
  have w: "0 < ?w" using ok by (simp add: config_ok_def)
  have pos: "0 \<le> slot_of p t0"
    using now ok by (simp add: slot_of_def FromMS_def config_ok_def pos_imp_zdiv_nonneg_iff t0_def)
  show ?thesis
  proof (cases "sendable p t0")
    case True
    then show ?thesis
      using GetNextTxTime_eq [OF ok now] by (auto simp: t0_def [symmetric] sendable_def)
  next
    case False
    obtain s where s: "next_slot (m_nSlices p) (m_ActiveMap p) (slot_of p t0) = Some (Inr s)" "slot_of p t0 < s"
      "active p s" "\<And>u. slot_of p t0 < u \<Longrightarrow> u < s \<Longrightarrow> \<not> active p u"
      using next_slot_found [OF ok act pos] by blast
    let ?t = "FromMS (s * ?w)"
    have run: "GetNextTxTime now p = Inr ?t"
      using GetNextTxTime_eq [OF ok now] s(1) False by (simp add: t0_def [symmetric])
    have later: "t0 < ?t" by (rule slot_of_less [OF ok s(2)])
    have "\<not> sendable p u" if u: "t0 \<le> u" "u < ?t" for u
    proof (cases "slot_of p u = slot_of p t0")
      case True
      then show ?thesis using not_sendable_same_slot [OF ok False u(1)] by simp
    next
      case new: False
      then have "slot_of p t0 < slot_of p u" using slot_of_mono [OF ok u(1)] by simp
      with slot_before [OF ok u(2)] s(4) show ?thesis by (simp add: sendable_def)
    qed
    moreover have "sendable p ?t" if "uint (m_nSliceTaperMS p) < ?w"
      using that s(3) w by (simp add: sendable_def slot_of_FromMS [OF ok])
    ultimately show ?thesis
      using run later s(3) slot_of_FromMS(1) [OF ok] unfolding t0_def [symmetric]
      by (intro exI [of _ ?t]) auto
  qed
qed

text \<open>
  C33. \<open>TimedProxy::GetNextTxTime\<close> finds the earliest opportunity. With a positive slice width, one
  to 32 slices and a taper shorter than a slice, it returns a time that is not before now nor the
  end of the current transmission, lies in an active slice outside its taper, and no earlier time
  does; if no slice of the cycle is active, the search does not return.
\<close>

theorem GetNextTxTime_earliest:
  assumes "config_ok p" and "0 \<le> now" and "uint (m_nSliceTaperMS p) < uint (m_nSliceWidthMS p)"
  shows "if some_active p
    then \<exists>t. GetNextTxTime now p = Inr t \<and> max (m_txEndTime p) now \<le> t \<and> sendable p t
       \<and> (\<forall>u. max (m_txEndTime p) now \<le> u \<longrightarrow> u < t \<longrightarrow> \<not> sendable p u)
    else GetNextTxTime now p = Inl Diverges"
proof (cases "some_active p")
  case True
  with next_tx_time [OF assms(1,2) True] assms(3) show ?thesis by auto
next
  case False
  let ?t0 = "max (m_txEndTime p) now"
  have pos: "0 \<le> slot_of p ?t0"
    using assms(1,2) by (simp add: slot_of_def FromMS_def config_ok_def pos_imp_zdiv_nonneg_iff)
  have "\<not> active p s" for s
    using assms(1) False by (auto simp: active_def some_active_def config_ok_def)
  then have "\<not> sendable p ?t0" by (simp add: sendable_def)
  with False show ?thesis
    using GetNextTxTime_eq [OF assms(1,2)] next_slot_diverges [OF assms(1) False pos] by simp
qed

definition example_proxy :: TimedProxy where
  "example_proxy = init_TimedProxy
     \<lparr>m_nSlices := 4, m_ActiveMap := 2, m_cbRate := 8000,
      m_rxSlots := init_RxSlot\<lparr>rx_addr := InetAddr 0 1001, listen_sock := Some 4\<rparr> # replicate 7 init_RxSlot,
      m_txSlots := init_TxSlot\<lparr>tx_addr := InetAddr 5 1002, tx_sock := Some 9, connected := True\<rparr> # replicate 7 init_TxSlot\<rparr>"

lemma example_proxy_config: "config_ok example_proxy" "some_active example_proxy"
  "uint (m_nSliceTaperMS example_proxy) < uint (m_nSliceWidthMS example_proxy)"
proof -
  show "config_ok example_proxy" "uint (m_nSliceTaperMS example_proxy) < uint (m_nSliceWidthMS example_proxy)"
    by (simp_all add: config_ok_def example_proxy_def init_TimedProxy_def ProxyBase.defs)
  show "some_active example_proxy"
    unfolding some_active_def
    by (intro exI [of _ 1]) (simp add: example_proxy_def init_TimedProxy_def ProxyBase.defs bit_simps)
qed

theorem GetNextTxTime_earliest_witness:
  "\<exists>t. GetNextTxTime 0 example_proxy = Inr t \<and> sendable example_proxy t"
  using GetNextTxTime_earliest [OF example_proxy_config(1) order_refl example_proxy_config(3)]
    example_proxy_config(2) by auto

section \<open>Every run\<close>

definition timed_config :: "'a TimedProxy_scheme \<Rightarrow> 'b TimedProxy_scheme \<Rightarrow> bool" where
  "timed_config p q \<longleftrightarrow> m_nSliceWidthMS q = m_nSliceWidthMS p \<and> m_nSliceTaperMS q = m_nSliceTaperMS p
     \<and> m_nSlices q = m_nSlices p \<and> m_ActiveMap q = m_ActiveMap p"

lemma timed_config_facts:
  assumes "timed_config p q"
  shows "config_ok q = config_ok p" "some_active q = some_active p" "sendable q = sendable p"
    "(uint (m_nSliceTaperMS q) < uint (m_nSliceWidthMS q)) = (uint (m_nSliceTaperMS p) < uint (m_nSliceWidthMS p))"
  using assms
  by (auto simp: timed_config_def config_ok_def some_active_def sendable_def slot_of_def active_def fun_eq_iff)

definition good_config :: "'a TimedProxy_scheme \<Rightarrow> bool" where
  "good_config p \<longleftrightarrow> config_ok p \<and> some_active p \<and> uint (m_nSliceTaperMS p) < uint (m_nSliceWidthMS p)"

text \<open>Between events: the next transmission is pending exactly when the store is not empty, at a
  time that is not past and at which sending is allowed.\<close>

definition timed_inv :: "TimedProxy \<Rightarrow> int \<Rightarrow> TimedProxy \<Rightarrow> bool" where
  "timed_inv p0 now p \<longleftrightarrow> timed_config p0 p \<and> 0 \<le> now
     \<and> (m_sendEv p = None \<longleftrightarrow> m_packetStore p = [])
     \<and> (\<forall>t. m_sendEv p = Some t \<longrightarrow> now \<le> t \<and> sendable p0 t)
     \<and> length (m_txSlots p) = TX_SLOT_COUNT \<and> (\<exists>s. tx_sock (m_txSlots p ! 0) = Some s)"

lemma schedule_next_good:
  assumes "good_config p0" "timed_config p0 p" "0 \<le> now"
  shows "\<exists>t. schedule_next now p = Inr (p\<lparr>m_sendEv := Some t\<rparr>, t, [TimedSchedule (t - now)])
    \<and> now \<le> t \<and> sendable p0 t"
proof -
  have "config_ok p" "some_active p" "uint (m_nSliceTaperMS p) < uint (m_nSliceWidthMS p)"
    using assms(1) timed_config_facts [OF assms(2)] by (auto simp: good_config_def)
  from next_tx_time [OF this(1) assms(3) this(2)] this(3) obtain t where
    "GetNextTxTime now p = Inr t" "now \<le> t" "sendable p t" by auto
  with timed_config_facts(3) [OF assms(2)] show ?thesis by (auto simp: schedule_next_def)
qed

lemma read_packet_inv:
  assumes good: "good_config p0" and inv: "timed_inv p0 now p"
  shows "\<exists>p' evs. read_packet now slotID p pkt = Inr (p', evs) \<and> timed_inv p0 now p'
    \<and> m_packetStore p' = m_packetStore p @ [pkt] \<and> received evs = [pkt] \<and> sent_pkts evs = [] \<and> send_times evs = []"
proof -
  let ?sl = "m_rxSlots p ! slotID"
  let ?p1 = "p\<lparr>m_rxSlots := (m_rxSlots p)[slotID := ?sl\<lparr>rx_total := rx_total ?sl + scast (snd pkt)\<rparr>]\<rparr>"
  have "timed_config p0 ?p1" "0 \<le> now" using inv by (auto simp: timed_inv_def timed_config_def)
  from schedule_next_good [OF good this] obtain t where
    t: "schedule_next now ?p1 = Inr (?p1\<lparr>m_sendEv := Some t\<rparr>, t, [TimedSchedule (t - now)])" "now \<le> t" "sendable p0 t"
    by blast
  show ?thesis
  proof (cases "m_packetStore p = []")
    case True
    with t inv show ?thesis
      by (simp add: read_packet_def Let_def) (auto simp: timed_inv_def timed_config_def)
  next
    case False
    with inv show ?thesis
      by (simp add: read_packet_def Let_def) (auto simp: timed_inv_def timed_config_def)
  qed
qed

lemma Timed_HandleRead_snoc:
  "Timed_HandleRead now i (pkts @ [pkt]) p = bindE (Timed_HandleRead now i pkts p) (\<lambda>(p', evs).
     bindE (read_packet now i p' pkt) (\<lambda>(p'', evs'). Inr (p'', evs @ evs')))"
  by (simp add: Timed_HandleRead_def foldE_append case_prod_unfold)

lemma Timed_HandleRead_inv:
  assumes good: "good_config p0" and inv: "timed_inv p0 now p"
  shows "\<exists>p' evs. Timed_HandleRead now slotID pkts p = Inr (p', evs) \<and> timed_inv p0 now p'
    \<and> m_packetStore p' = m_packetStore p @ pkts \<and> received evs = pkts \<and> sent_pkts evs = [] \<and> send_times evs = []"
proof (induction pkts rule: rev_induct)
  case Nil
  with inv show ?case by (simp add: Timed_HandleRead_def)
next
  case (snoc pkt pkts)
  then obtain p1 evs1 where p1: "Timed_HandleRead now slotID pkts p = Inr (p1, evs1)" "timed_inv p0 now p1"
    "m_packetStore p1 = m_packetStore p @ pkts" "received evs1 = pkts" "sent_pkts evs1 = []" "send_times evs1 = []"
    by blast
  with read_packet_inv [OF good p1(2), of slotID pkt] show ?case by (auto simp: Timed_HandleRead_snoc)
qed

lemma SendNextPacket_inv:
  assumes good: "good_config p0" and inv: "timed_inv p0 now p" and ev: "m_sendEv p = Some t"
  shows "\<exists>p' evs pkt rest. SendNextPacket duration t (p\<lparr>m_sendEv := None\<rparr>) = Inr (p', evs) \<and> timed_inv p0 t p'
    \<and> m_packetStore p = pkt # rest \<and> m_packetStore p' = rest \<and> received evs = [] \<and> sent_pkts evs = [pkt] \<and> send_times evs = [t]"
proof -
  obtain pkt rest where st: "m_packetStore p = pkt # rest"
    using inv ev by (cases "m_packetStore p") (auto simp: timed_inv_def)
  obtain s where s: "tx_sock (m_txSlots p ! 0) = Some s" using inv by (auto simp: timed_inv_def)
  let ?sl = "m_txSlots p ! 0"
  let ?p1 = "p\<lparr>m_sendEv := None, m_packetStore := rest,
    m_txSlots := (m_txSlots p)[0 := ?sl\<lparr>tx_total := tx_total ?sl + scast (snd pkt)\<rparr>]\<rparr>"
  have t: "0 \<le> t" using inv ev by (auto simp: timed_inv_def)
  have "timed_config p0 ?p1" using inv by (auto simp: timed_inv_def timed_config_def)
  from schedule_next_good [OF good this t] obtain u where
    u: "schedule_next t ?p1 = Inr (?p1\<lparr>m_sendEv := Some u\<rparr>, u, [TimedSchedule (u - t)])" "t \<le> u" "sendable p0 u" by blast
  have len: "0 < length (m_txSlots p)" using inv by (simp add: timed_inv_def)
  show ?thesis
  proof (cases "rest = []")
    case True
    with st s inv t len show ?thesis
      by (simp add: SendNextPacket_def Let_def) (auto simp: timed_inv_def timed_config_def)
  next
    case False
    with st s inv t u len show ?thesis
      by (simp add: SendNextPacket_def Let_def) (auto simp: timed_inv_def timed_config_def)
  qed
qed

lemma timed_reachable_inv:
  assumes good: "good_config p0" and start: "timed_inv p0 0 p0" "m_packetStore p0 = []"
    and reach: "timed_reachable duration p0 s"
  shows "timed_inv p0 (tr_now s) (tr_app s)
    \<and> received (tr_events s) = sent_pkts (tr_events s) @ m_packetStore (tr_app s)
    \<and> (\<forall>t \<in> set (send_times (tr_events s)). sendable p0 t) \<and> sorted (send_times (tr_events s))
    \<and> (\<forall>t \<in> set (send_times (tr_events s)). t \<le> tr_now s)"
  using reach
proof (induction rule: timed_reachable.induct)
  case start
  with assms show ?case by simp
next
  case (step s s')
  from step.hyps(2) show ?case
  proof (cases rule: timed_stepE [consumes 1, case_names receive fire])
    case (receive t slotID pkts p' evs)
    have "timed_inv p0 t (tr_app s)" using step.IH receive(2,4) by (auto simp: timed_inv_def)
    from Timed_HandleRead_inv [OF good this, of slotID pkts] receive step.IH show ?thesis by fastforce
  next
    case (fire t p' evs)
    have "tr_now s \<le> t" "sendable p0 t" using step.IH fire(2) by (auto simp: timed_inv_def)
    from SendNextPacket_inv [OF good _ fire(2), of "tr_now s" duration] step.IH fire(3) obtain pkt rest where
      "timed_inv p0 t p'" "m_packetStore (tr_app s) = pkt # rest" "m_packetStore p' = rest"
      "received evs = []" "sent_pkts evs = [pkt]" "send_times evs = [t]"
      by auto
    with fire(1) step.IH \<open>tr_now s \<le> t\<close> \<open>sendable p0 t\<close> show ?thesis by (auto simp: sorted_append)
  qed
qed

text \<open>
  C12. A timed proxy forwards first in first out, and only when it may. In every run of a proxy
  whose configuration has an active slice and a taper shorter than a slice, whatever arrives and
  whatever durations the link has, packets leave in the order they came and none is lost or
  doubled (received is sent followed by stored), every send happens in an active slice outside
  its taper, and in time order.
\<close>

theorem timed_proxy_fifo_in_slots:
  assumes "good_config p0" and "timed_inv p0 0 p0" and "m_packetStore p0 = []"
    and "timed_reachable duration p0 s"
  shows "received (tr_events s) = sent_pkts (tr_events s) @ m_packetStore (tr_app s)
    \<and> (\<forall>t \<in> set (send_times (tr_events s)). sendable p0 t) \<and> sorted (send_times (tr_events s))"
  using timed_reachable_inv [OF assms] by simp

text \<open>
  C29. The assertions of \<open>SendNextPacket\<close> never fail and no packet is stuck. In every reachable
  state with a stored packet a transmission is pending, and when it fires \<open>SendNextPacket\<close>
  succeeds and sends the oldest stored packet.
\<close>

theorem timed_proxy_never_stuck:
  assumes "good_config p0" and "timed_inv p0 0 p0" and "m_packetStore p0 = []"
    and "timed_reachable duration p0 s" and "m_packetStore (tr_app s) = pkt # rest"
  shows "\<exists>t p' evs. m_sendEv (tr_app s) = Some t \<and> tr_now s \<le> t
    \<and> SendNextPacket duration t (tr_app s\<lparr>m_sendEv := None\<rparr>) = Inr (p', evs)
    \<and> sent_pkts evs = [pkt] \<and> m_packetStore p' = rest"
proof -
  have inv: "timed_inv p0 (tr_now s) (tr_app s)" using timed_reachable_inv [OF assms(1-4)] by simp
  with assms(5) obtain t where t: "m_sendEv (tr_app s) = Some t" "tr_now s \<le> t" by (auto simp: timed_inv_def)
  from SendNextPacket_inv [OF assms(1) inv t(1), of duration] t assms(5) show ?thesis by auto
qed

lemma example_proxy_good: "good_config example_proxy" "timed_inv example_proxy 0 example_proxy"
  "m_packetStore example_proxy = []"
proof -
  show "good_config example_proxy" using example_proxy_config by (simp add: good_config_def)
  show "timed_inv example_proxy 0 example_proxy" "m_packetStore example_proxy = []"
    by (simp_all add: timed_inv_def timed_config_def example_proxy_def init_TimedProxy_def ProxyBase.defs)
qed

text \<open>Two packets of 1000 bytes at 8 kbit/s, that is, one second each.\<close>

definition example_duration :: "u32 \<Rightarrow> u64 \<Rightarrow> int" where
  "example_duration sz rate = uint sz * 8 * 1000000000 div uint rate"

lemma example_timed_receive:
  "case Timed_HandleRead 0 0 [(1, 1000), (2, 1000), (3, 1000)] example_proxy of Inl _ \<Rightarrow> False
   | Inr (p', evs) \<Rightarrow> m_sendEv p' = Some 20000000 \<and> m_packetStore p' = [(1, 1000), (2, 1000), (3, 1000)]"
  by code_simp

lemma example_timed_reach:
  "\<exists>s. timed_reachable example_duration example_proxy s \<and> m_packetStore (tr_app s) = [(1, 1000), (2, 1000), (3, 1000)]"
proof -
  from example_timed_receive obtain p' evs where
    run: "Timed_HandleRead 0 0 [(1, 1000), (2, 1000), (3, 1000)] example_proxy = Inr (p', evs)"
    "m_packetStore p' = [(1, 1000), (2, 1000), (3, 1000)]"
    by (auto split: sum.splits)
  have "timed_step example_duration \<lparr>tr_now = 0, tr_app = example_proxy, tr_events = []\<rparr>
      \<lparr>tr_now = 0, tr_app = p', tr_events = [] @ evs\<rparr>"
    using timed_step.receive [of "\<lparr>tr_now = 0, tr_app = example_proxy, tr_events = []\<rparr>" 0 0 "[(1, 1000), (2, 1000), (3, 1000)]" p' evs example_duration]
      run(1) example_proxy_good(2,3) by (simp add: timed_inv_def)
  from timed_reachable.step [OF timed_reachable.start this] run(2) show ?thesis by fastforce
qed

theorem timed_proxy_fifo_in_slots_witness:
  "\<exists>s. timed_reachable example_duration example_proxy s
     \<and> received (tr_events s) = sent_pkts (tr_events s) @ [(1, 1000), (2, 1000), (3, 1000)]"
  using example_timed_reach timed_proxy_fifo_in_slots [OF example_proxy_good] by metis

theorem timed_proxy_never_stuck_witness:
  "\<exists>s t p' evs. timed_reachable example_duration example_proxy s \<and> m_sendEv (tr_app s) = Some t
     \<and> SendNextPacket example_duration t (tr_app s\<lparr>m_sendEv := None\<rparr>) = Inr (p', evs)
     \<and> sent_pkts evs = [(1, 1000)]"
proof -
  obtain s where s: "timed_reachable example_duration example_proxy s"
    "m_packetStore (tr_app s) = (1, 1000) # [(2, 1000), (3, 1000)]" using example_timed_reach by auto
  from timed_proxy_never_stuck [OF example_proxy_good s] s(1) show ?thesis by blast
qed

text \<open>
  The rate is not kept at the head of a burst: the end of a transmission is recorded only after the
  next one has been scheduled, so the second packet of a burst is sent at the very time of the
  first, although the first occupies the link for a second.
\<close>

lemma first_two_packets_together:
  "case Timed_HandleRead 0 0 [(1, 1000), (2, 1000), (3, 1000)] example_proxy of Inl _ \<Rightarrow> False
   | Inr (p1, _) \<Rightarrow>
      (case SendNextPacket example_duration 20000000 (p1\<lparr>m_sendEv := None\<rparr>) of Inl _ \<Rightarrow> False
       | Inr (p2, _) \<Rightarrow> m_sendEv p1 = Some 20000000 \<and> m_sendEv p2 = Some 20000000
           \<and> example_duration 1000 (m_cbRate example_proxy) = 1000000000)"
  by code_simp

end
