(* ===== verification/Stream_Path.thy ===== *)
theory Stream_Path
  imports Rq_Decoding Timed_Proxy "HOL-Library.Sublist"
begin

text \<open>
  The path of a coded stream through the mesh: from a \<open>RqEncoder\<close> over any number of \<open>TimedProxy\<close>
  applications, with losses on every link, to a \<open>RqDecoder\<close>. A proxy forwards packets without
  looking into them, so the packets on the path are identified by their numbers.
\<close>

section \<open>Hops\<close>

definition proxy_ready :: "TimedProxy \<Rightarrow> bool" where
  "proxy_ready p \<longleftrightarrow> good_config p \<and> timed_inv p 0 p \<and> m_packetStore p = []"

definition arrived :: "timed_run \<Rightarrow> nat list" where
  "arrived s = map fst (received (tr_events s))"

definition departed :: "timed_run \<Rightarrow> nat list" where
  "departed s = map fst (sent_pkts (tr_events s))"

text \<open>\<open>relayed duration ps xs ys\<close>: of the packets \<open>xs\<close> that enter a path through the proxies \<open>ps\<close>, \<open>ys\<close>
  leave it. A link loses packets; a proxy is in any reachable state, with packets still stored.\<close>

inductive relayed :: "(u32 \<Rightarrow> u64 \<Rightarrow> int) \<Rightarrow> TimedProxy list \<Rightarrow> nat list \<Rightarrow> nat list \<Rightarrow> bool" for duration where
  link: "subseq ys xs \<Longrightarrow> relayed duration [] xs ys"
| hop: "proxy_ready p \<Longrightarrow> timed_reachable duration p s \<Longrightarrow> subseq (arrived s) xs \<Longrightarrow> relayed duration ps (departed s) ys \<Longrightarrow>
    relayed duration (p # ps) xs ys"

inductive_simps relayed_simps: "relayed duration [] xs ys" "relayed duration (p # ps) xs ys"

text \<open>A proxy keeps the order and invents nothing.\<close>

lemma departed_prefix:
  assumes "proxy_ready p" and "timed_reachable duration p s"
  shows "prefix (departed s) (arrived s)"
  using timed_reachable_inv [of p duration s] assms by (auto simp: proxy_ready_def arrived_def departed_def)

lemma relayed_subseq: "relayed duration ps xs ys \<Longrightarrow> subseq ys xs"
proof (induction ps arbitrary: xs)
  case (Cons p ps)
  then obtain s where s: "subseq ys (departed s)" "subseq (arrived s) xs" "prefix (departed s) (arrived s)"
    by (auto simp: relayed_simps dest: departed_prefix)
  then show ?case by (meson prefix_imp_subseq subseq_order.order_trans)
qed (simp add: relayed_simps)

lemma nths_map_nth: "nths xs I = map ((!) xs) (nths [0..<length xs] I)"
  by (metis map_nth nths_map)


lemma example_proxy_sends:
  "case Timed_HandleRead 0 0 [(1, 1000), (2, 1000), (3, 1000)] example_proxy of Inl _ \<Rightarrow> False
   | Inr (p, evs) \<Rightarrow> received evs = [(1, 1000), (2, 1000), (3, 1000)] \<and> sent_pkts evs = []
      \<and> (case m_sendEv p of None \<Rightarrow> False | Some t \<Rightarrow>
          (case SendNextPacket example_duration t (p\<lparr>m_sendEv := None\<rparr>) of Inl _ \<Rightarrow> False
           | Inr (p', evs') \<Rightarrow> received evs' = [] \<and> sent_pkts evs' = [(1, 1000)]))"
  by code_simp

lemma example_hop:
  obtains s where "timed_reachable example_duration example_proxy s" and "arrived s = [1, 2, 3]" and "departed s = [1]"
proof -
  obtain p evs t p' evs' where
    r: "Timed_HandleRead 0 0 [(1, 1000), (2, 1000), (3, 1000)] example_proxy = Inr (p, evs)"
      "received evs = [(1, 1000), (2, 1000), (3, 1000)]" "sent_pkts evs = []" "m_sendEv p = Some t"
      "SendNextPacket example_duration t (p\<lparr>m_sendEv := None\<rparr>) = Inr (p', evs')" "received evs' = []" "sent_pkts evs' = [(1, 1000)]"
    using example_proxy_sends by (auto split: sum.split_asm prod.split_asm option.split_asm) (metis sum.exhaust surj_pair)
  let ?s0 = "\<lparr>tr_now = 0, tr_app = example_proxy, tr_events = []\<rparr>" and ?s1 = "\<lparr>tr_now = 0, tr_app = p, tr_events = [] @ evs\<rparr>"
  let ?s2 = "\<lparr>tr_now = t, tr_app = p', tr_events = ([] @ evs) @ evs'\<rparr>"
  have "timed_step example_duration ?s0 ?s1"
    using timed_step.receive [of ?s0 0 0 "[(1, 1000), (2, 1000), (3, 1000)]" p evs example_duration] r(1) example_proxy_good(2)
    by (simp add: timed_inv_def)
  moreover have "timed_step example_duration ?s1 ?s2"
    using timed_step.fire [of ?s1 t example_duration p' evs'] r(4,5) by simp
  ultimately have "timed_reachable example_duration example_proxy ?s2"
    by (blast intro: timed_reachable.intros)
  with that r show thesis by (simp add: arrived_def departed_def)
qed


end
