(* ===== verification/App_Rq_Dec_Cb.thy ===== *)
theory App_Rq_Dec_Cb
  imports Rq_Decoding
begin

text \<open>
  \<open>AppRqDecCb\<close>, \<open>sim/app_rq_dec_cb.h\<close> and \<open>sim/app_rq_dec_cb.cc\<close>: the trace sink that logs decoding
  events. Several events of one source block arrive in a row; the object caches the newest and
  writes it when an event of another block arrives or when it is destroyed. The file is the list
  of the lines written.
\<close>

section \<open>State and operations\<close>

record AppRqDecCb =
  dc_lines :: "string list"
  dc_open :: bool
  has_cached :: bool
  cached_info :: DecodeInfo

definition AppRqDecCb_make :: "DecodeInfo \<Rightarrow> AppRqDecCb" where
  "AppRqDecCb_make uninit = \<lparr>dc_lines = [], dc_open = True, has_cached = False, cached_info = uninit\<rparr>"

definition bool_int :: "bool \<Rightarrow> int" where
  "bool_int b = (if b then 1 else 0)"

text \<open>The block number is an \<open>unsigned\<close> printed with \<open>%d\<close>.\<close>

definition print_decinfo :: "DecodeInfo \<Rightarrow> string" where
  "print_decinfo I = dec_int (sint (i_sbid I)) @ '' '' @ dec_int (bool_int (i_success I)) @ '' '' @
     dec_int (i_n_rcv I) @ '' '' @ dec_int (i_n_src_rcv I) @ [CHR 0x0A]"

definition rqDecCb :: "AppRqDecCb \<Rightarrow> DecodeInfo \<Rightarrow> AppRqDecCb" where
  "rqDecCb cb I =
     (let cb' = (if has_cached cb \<and> i_sbid (cached_info cb) \<noteq> i_sbid I
                 then cb\<lparr>dc_lines := dc_lines cb @ [print_decinfo (cached_info cb)], has_cached := False\<rparr>
                 else cb)
      in cb'\<lparr>cached_info := I, has_cached := True\<rparr>)"

definition AppRqDecCb_destroy :: "AppRqDecCb \<Rightarrow> AppRqDecCb" where
  "AppRqDecCb_destroy cb =
     (let cb' = (if has_cached cb
                 then cb\<lparr>dc_lines := dc_lines cb @ [print_decinfo (cached_info cb)], has_cached := False\<rparr>
                 else cb)
      in cb'\<lparr>dc_open := False\<rparr>)"

text \<open>The file after the events \<open>Is\<close> and the destructor.\<close>

definition dec_log :: "DecodeInfo \<Rightarrow> DecodeInfo list \<Rightarrow> string list" where
  "dec_log uninit Is = dc_lines (AppRqDecCb_destroy (foldl rqDecCb (AppRqDecCb_make uninit) Is))"

section \<open>One line per run of events\<close>

fun last_of_runs :: "DecodeInfo list \<Rightarrow> DecodeInfo list" where
  "last_of_runs [] = []"
| "last_of_runs [I] = [I]"
| "last_of_runs (I # J # Is) =
     (if i_sbid I = i_sbid J then last_of_runs (J # Is) else I # last_of_runs (J # Is))"

lemma cached_runs:
  "has_cached cb \<Longrightarrow> dc_lines (AppRqDecCb_destroy (foldl rqDecCb cb Is))
     = dc_lines cb @ map print_decinfo (last_of_runs (cached_info cb # Is))"
proof (induction Is arbitrary: cb)
  case Nil
  then show ?case by (simp add: AppRqDecCb_destroy_def)
next
  case (Cons I Is)
  have "has_cached (rqDecCb cb I)" by (simp add: rqDecCb_def Let_def)
  from Cons.IH [OF this] Cons.prems show ?case by (simp add: rqDecCb_def Let_def)
qed

lemma dec_log_runs: "dec_log uninit Is = map print_decinfo (last_of_runs Is)"
proof (cases Is)
  case Nil
  then show ?thesis by (simp add: dec_log_def AppRqDecCb_make_def AppRqDecCb_destroy_def)
next
  case (Cons I Is')
  have "has_cached (rqDecCb (AppRqDecCb_make uninit) I)" by (simp add: rqDecCb_def Let_def)
  from cached_runs [OF this, of Is'] Cons show ?thesis
    by (simp add: dec_log_def rqDecCb_def AppRqDecCb_make_def)
qed

lemma last_of_runs_subset: "set (last_of_runs Is) \<subseteq> set Is"
  by (induction Is rule: last_of_runs.induct) auto

definition sbid_val :: "DecodeInfo \<Rightarrow> int" where
  "sbid_val I = sint (i_sbid I)"

lemma sbid_val_eq: "sbid_val I = sbid_val J \<longleftrightarrow> i_sbid I = i_sbid J"
  unfolding sbid_val_def by (rule word_eq_iff_signed [symmetric])

lemma last_of_runs_strict:
  "sorted (map sbid_val Is) \<Longrightarrow> sorted_wrt (<) (map sbid_val (last_of_runs Is))"
proof (induction Is rule: last_of_runs.induct)
  case (3 I J Is)
  have "sbid_val J \<le> sbid_val x" if "x \<in> set (last_of_runs (J # Is))" for x
    using that last_of_runs_subset [of "J # Is"] 3(3) by auto
  with 3 show ?case by (fastforce simp: sbid_val_eq [symmetric])
qed simp_all

lemma last_of_runs_nonempty: "Is \<noteq> [] \<Longrightarrow> last_of_runs Is \<noteq> []"
  by (induction Is rule: last_of_runs.induct) auto

lemma last_of_runs_last: "Is \<noteq> [] \<Longrightarrow> last (last_of_runs Is) = last Is"
  by (induction Is rule: last_of_runs.induct) (auto simp: last_of_runs_nonempty)

lemma last_of_runs_sbids: "i_sbid ` set (last_of_runs Is) = i_sbid ` set Is"
  by (induction Is rule: last_of_runs.induct) auto

section \<open>The events of a decoder\<close>

text \<open>The block numbers of the events are in order and lie between the decoder's before and after.\<close>

definition infos_between :: "int \<Rightarrow> int \<Rightarrow> dec_event list \<Rightarrow> bool" where
  "infos_between l u evs \<longleftrightarrow> sorted (map sbid_val (decode_infos evs))
     \<and> (\<forall>I \<in> set (decode_infos evs). l \<le> sbid_val I \<and> sbid_val I \<le> u)"

lemma infos_between_append:
  "infos_between l m evs \<Longrightarrow> infos_between m u evs' \<Longrightarrow> l \<le> m \<Longrightarrow> m \<le> u \<Longrightarrow> infos_between l u (evs @ evs')"
  by (fastforce simp: infos_between_def sorted_append intro: order_trans)

lemma infos_between_Rx [simp]: "infos_between l u (RxTrace p # evs) = infos_between l u evs"
  by (simp add: infos_between_def)

lemma infos_between_Nil [simp]: "infos_between l u []"
  by (simp add: infos_between_def)

lemma sint_of_int_u32: "- (2 ^ 31) \<le> k \<Longrightarrow> k < 2 ^ 31 \<Longrightarrow> sint (of_int k :: u32) = k"
  by (simp add: signed_of_int signed_take_bit_int_eq_self)

definition sbid_range :: "int \<Rightarrow> bool" where
  "sbid_range s \<longleftrightarrow> -1 \<le> s \<and> s < 2 ^ 31"

lemma sbid_val_populate: "sbid_range (d_sbid d) \<Longrightarrow> sbid_val (PopulateDecodeInfo d) = d_sbid d"
  by (simp add: sbid_val_def PopulateDecodeInfo_def sint_of_int_u32 sbid_range_def)

lemma process_symbol_infos:
  assumes "process_symbol esi h d = Inr (d', evs)" "sbid_range (d_sbid d)"
  shows "infos_between (d_sbid d) (d_sbid d) evs"
proof -
  obtain d2 where d2: "update_stream (sint (m_iseq_streamid h)) (update_nsymb (m_iseq_data h) d) = Inr d2"
    and evs: "evs = snd (try_decode (count_symbol esi d2))"
    using assms(1) by (fastforce simp: process_symbol_def)
  have "d_sbid d2 = d_sbid d" using update_stream_same [OF d2] by (simp add: update_nsymb_def)
  with assms(2) show ?thesis
    unfolding evs by (auto simp: try_decode_def Let_def infos_between_def sbid_val_populate count_symbol_def)
qed

lemma packet_id_bound: "packet_id h < 2 ^ 31"
  using sint_less [where 'a = 32] by (simp add: packet_id_def)

lemma receive_packet_infos:
  assumes inv: "dec_inv d" and rng: "sbid_range (d_sbid d)" and run: "receive_packet d p = Inr (d', evs)"
  shows "sbid_range (d_sbid d') \<and> infos_between (d_sbid d) (d_sbid d') evs"
proof -
  let ?sbid = "packet_id (snd p) sdiv d_rqnval d" and ?esi = "packet_id (snd p) smod d_rqnval d"
  let ?adv = "advance_block ?sbid d"
  consider (new) evs' where "d_sbid d < ?sbid"
      "process_symbol ?esi (snd p) (fst ?adv) = Inr (d', evs')" "evs = RxTrace p # snd ?adv @ evs'"
    | (old) "d' = d" "evs = [RxTrace p]"
    | (same) evs' where "process_symbol ?esi (snd p) d = Inr (d', evs')" "evs = RxTrace p # evs'"
    using run by (auto simp: receive_packet_def Let_def split: if_splits prod.splits)
  then show ?thesis
  proof cases
    case new
    have "0 < d_rqnval d" using inv by (simp add: dec_inv_def dec_wf_def)
    have "?sbid < 2 ^ 31"
    proof (cases "0 \<le> packet_id (snd p)")
      case True
      then have "?sbid = packet_id (snd p) div d_rqnval d"
        using \<open>0 < d_rqnval d\<close> by (auto simp: signed_divide_int_def sgn_if)
      also have "\<dots> \<le> packet_id (snd p)" using True \<open>0 < d_rqnval d\<close> zdiv_mono2 [of "packet_id (snd p)" 1 "d_rqnval d"] by simp
      finally show ?thesis using packet_id_bound [of "snd p"] by simp
    next
      case False
      then have "?sbid \<le> 0" using \<open>0 < d_rqnval d\<close>
        by (simp add: signed_divide_int_def sgn_if pos_imp_zdiv_nonneg_iff)
      then show ?thesis by simp
    qed
    then have rng1: "sbid_range (d_sbid (fst ?adv))" and adv: "d_sbid (fst ?adv) = ?sbid"
      using new(1) rng by (auto simp: advance_block_def sbid_range_def)
    have "infos_between (d_sbid d) ?sbid (snd ?adv)"
      using rng new(1) by (simp add: advance_block_def infos_between_def sbid_val_populate)
    moreover have "infos_between ?sbid ?sbid evs'" using process_symbol_infos [OF new(2) rng1] adv by simp
    moreover have "d_sbid d' = ?sbid" using process_symbol_sbid [OF new(2)] adv by simp
    ultimately show ?thesis using new(1,3) rng1 adv by (auto intro: infos_between_append)
  next
    case old
    with rng show ?thesis by simp
  next
    case same
    from process_symbol_infos [OF same(1) rng] process_symbol_sbid [OF same(1)] same(2) rng show ?thesis by simp
  qed
qed

lemma receive_all_infos:
  assumes "dec_inv d" "sbid_range (d_sbid d)" "receive_all d pkts = Inr (d', evs)"
  shows "infos_between (d_sbid d) (d_sbid d') evs"
proof -
  have "infos_between (d_sbid d) (d_sbid d') evs \<and> dec_inv d' \<and> sbid_range (d_sbid d') \<and> d_sbid d \<le> d_sbid d'"
    using assms(3)
  proof (induction pkts arbitrary: d' evs rule: rev_induct)
    case Nil
    with assms(1,2) show ?case by (simp add: receive_all_def)
  next
    case (snoc p pkts)
    then obtain d1 evs1 evs2 where "receive_all d pkts = Inr (d1, evs1)"
      and step: "receive_packet d1 p = Inr (d', evs2)" and evs: "evs = evs1 @ evs2"
      by (auto simp: receive_all_snoc)
    from snoc.IH [OF this(1)] have
      IH: "infos_between (d_sbid d) (d_sbid d1) evs1" "dec_inv d1" "sbid_range (d_sbid d1)" "d_sbid d \<le> d_sbid d1"
      by auto
    from receive_packet_infos [OF IH(2,3) step] receive_packet_ok [OF IH(2) step] IH evs
    show ?case by (auto simp: dec_step_ok_def intro: infos_between_append)
  qed
  then show ?thesis by simp
qed


lemma example_log:
  "case receive_all example_decoder (wire_packets (map (packet_header 3 2 1 (\<lambda>_. [0, 0])) [0, 2, 3])) of
     Inl _ \<Rightarrow> False
   | Inr (d', evs) \<Rightarrow> dec_log (PopulateDecodeInfo d') (decode_infos evs) = [''0 1 2 1'' @ [CHR 0x0A]]"
  by code_simp


end
