(* ===== verification/Decoding_Log.thy ===== *)
theory Decoding_Log
  imports App_Rq_Dec_Cb
begin

text \<open>
  The decoding log of a coded stream, line by line. The decoder counts the packets of the current
  block and traces events; the trace sink keeps the newest event of each block. Over the packets of
  an encoder that arrive, the file is a function of their numbers alone.
\<close>

section \<open>Keys of events\<close>

text \<open>What a line shows of an event, and the newest event of each run of events of one block.\<close>

type_synonym info_key = "u32 \<times> bool \<times> int \<times> int"

definition info_key :: "DecodeInfo \<Rightarrow> info_key" where
  "info_key I = (i_sbid I, i_success I, i_n_rcv I, i_n_src_rcv I)"

definition key_line :: "info_key \<Rightarrow> string" where
  "key_line k = (case k of (sbid, success, n_rcv, n_src) \<Rightarrow>
     dec_int (sint sbid) @ '' '' @ dec_int (bool_int success) @ '' '' @ dec_int n_rcv @ '' '' @ dec_int n_src @ [CHR 0x0A])"

lemma print_key: "print_decinfo I = key_line (info_key I)"
  by (simp add: print_decinfo_def key_line_def info_key_def)

definition log_add :: "info_key list \<Rightarrow> info_key \<Rightarrow> info_key list" where
  "log_add L k = (if L \<noteq> [] \<and> fst (last L) = fst k then butlast L else L) @ [k]"

lemma last_of_runs_snoc:
  "last_of_runs (Is @ [I]) = (if Is \<noteq> [] \<and> i_sbid (last Is) = i_sbid I then butlast (last_of_runs Is) else last_of_runs Is) @ [I]"
proof (induction Is rule: last_of_runs.induct)
  case (3 I J Is)
  then show ?case by (auto simp: last_of_runs_nonempty)
qed auto

definition log_keys :: "DecodeInfo list \<Rightarrow> info_key list" where
  "log_keys Is = map info_key (last_of_runs Is)"

lemma log_keys_snoc: "log_keys (Is @ [I]) = log_add (log_keys Is) (info_key I)"
  using last_of_runs_last [of Is] last_of_runs_nonempty [of Is]
  by (cases "Is = []") (auto simp: log_keys_def log_add_def last_of_runs_snoc last_map map_butlast info_key_def)

lemma log_keys_append: "log_keys (Is @ Js) = foldl log_add (log_keys Is) (map info_key Js)"
  by (induction Js rule: rev_induct) (simp_all add: log_keys_snoc flip: append_assoc)

lemma dec_log_keys: "dec_log uninit Is = map key_line (log_keys Is)"
  by (simp add: dec_log_runs log_keys_def print_key)

section \<open>The file as a function of the packets received\<close>

definition blocks_of :: "nat \<Rightarrow> nat list \<Rightarrow> nat list" where
  "blocks_of N ms = remdups_adj (map (\<lambda>m. m div N) ms)"

text \<open>The line of a block with the packets \<open>js\<close>, and all lines: one for every block that a later one has
  followed, and one for the last block once \<open>K\<close> of its packets have arrived.\<close>

definition block_key :: "nat \<Rightarrow> nat \<times> nat list \<Rightarrow> info_key" where
  "block_key K bj = (of_nat (fst bj), K \<le> length (snd bj), int (length (snd bj)), int (length (filter (\<lambda>j. j < K) (snd bj))))"

definition logged :: "nat \<Rightarrow> nat \<Rightarrow> nat list \<Rightarrow> (nat \<times> nat list) list" where
  "logged N K ms = map (\<lambda>b. (b, positions N b ms)) (butlast (blocks_of N ms))
     @ (if ms \<noteq> [] \<and> K \<le> length (positions N (last ms div N) ms)
        then [(last ms div N, take K (positions N (last ms div N) ms))] else [])"

definition log_file :: "nat \<Rightarrow> nat \<Rightarrow> nat list \<Rightarrow> string list" where
  "log_file N K ms = map (key_line \<circ> block_key K) (logged N K ms)"

lemma remdups_adj_snoc: "remdups_adj (xs @ [x]) = (if xs \<noteq> [] \<and> last xs = x then remdups_adj xs else remdups_adj xs @ [x])"
  by (induction xs rule: remdups_adj.induct) auto

lemma blocks_of_Nil [simp]: "blocks_of N [] = []"
  by (simp add: blocks_of_def)

lemma blocks_of_snoc:
  "blocks_of N (ms @ [m]) = (if ms \<noteq> [] \<and> last ms div N = m div N then blocks_of N ms else blocks_of N ms @ [m div N])"
  by (cases "ms = []") (simp_all add: blocks_of_def remdups_adj_snoc last_map)

lemma blocks_of_single [simp]: "blocks_of N [m] = [m div N]"
  by (simp add: blocks_of_def)

lemma blocks_of_last: "ms \<noteq> [] \<Longrightarrow> blocks_of N ms \<noteq> [] \<and> last (blocks_of N ms) = last ms div N"
  by (induction ms rule: rev_induct) (auto simp: blocks_of_snoc)

lemma last_block_le:
  fixes ms :: "nat list"
  assumes "sorted_wrt (<) (ms @ [m])" and "ms \<noteq> []"
  shows "last ms div N \<le> m div N"
proof -
  have "last ms < m" using assms by (simp add: sorted_wrt_append)
  then show ?thesis by (simp add: div_le_mono)
qed

lemma blocks_of_strict: "sorted_wrt (<) ms \<Longrightarrow> sorted_wrt (<) (blocks_of N ms)"
proof (induction ms rule: rev_induct)
  case (snoc m ms)
  then have IH: "sorted_wrt (<) (blocks_of N ms)" by (simp add: sorted_wrt_append)
  have "x < m div N" if x: "x \<in> set (blocks_of N ms)" and new: "last ms div N \<noteq> m div N" for x
  proof -
    have ms: "ms \<noteq> []" using x by auto
    have "x \<le> last ms div N" using sorted_wrt_last [OF IH x] blocks_of_last [OF ms] by simp
    with last_block_le [OF snoc.prems ms, of N] new show ?thesis by simp
  qed
  with IH show ?case by (cases "ms = []") (auto simp: blocks_of_snoc sorted_wrt_append)
qed simp

lemma earlier_blocks:
  assumes "sorted_wrt (<) ms" and "b \<in> set (butlast (blocks_of N ms))"
  shows "b < last ms div N"
proof -
  have ms: "ms \<noteq> []" using assms(2) by auto
  have "sorted_wrt (<) (butlast (blocks_of N ms) @ [last ms div N])"
    using blocks_of_strict [OF assms(1), of N] blocks_of_last [OF ms, of N] by (metis append_butlast_last_id)
  with assms(2) show ?thesis by (simp add: sorted_wrt_append)
qed

lemma blocks_split: "ms \<noteq> [] \<Longrightarrow> blocks_of N ms = butlast (blocks_of N ms) @ [last ms div N]"
  using blocks_of_last [of ms N] by (metis append_butlast_last_id)

text \<open>How the list of lines grows with the next packet: in the block of the last one, or in a later block.\<close>

lemma logged_same_block:
  assumes "sorted_wrt (<) (ms @ [m])" and "ms \<noteq> []" and "last ms div N = m div N" and "js = positions N (m div N) ms"
  shows "logged N K (ms @ [m]) = logged N K ms @ (if Suc (length js) = K then [(m div N, js @ [m mod N])] else [])"
proof -
  have "sorted_wrt (<) ms" using assms(1) by (simp add: sorted_wrt_append)
  from earlier_blocks [OF this, of _ N] assms(3)
  have "map (\<lambda>b. (b, positions N b (ms @ [m]))) (butlast (blocks_of N ms)) = map (\<lambda>b. (b, positions N b ms)) (butlast (blocks_of N ms))"
    by auto
  then show ?thesis using assms(2-4) by (auto simp: logged_def blocks_of_snoc)
qed

lemma logged_new_block:
  assumes "sorted_wrt (<) (ms @ [m])" and "ms \<noteq> [] \<Longrightarrow> last ms div N < m div N" and "0 < K"
  shows "logged N K (ms @ [m]) = map (\<lambda>b. (b, positions N b ms)) (blocks_of N ms) @ (if K = 1 then [(m div N, [m mod N])] else [])"
proof -
  have srt: "sorted_wrt (<) ms" using assms(1) by (simp add: sorted_wrt_append)
  have le: "b < m div N" if "b \<in> set (blocks_of N ms)" for b
  proof -
    have ms: "ms \<noteq> []" using that by auto
    have "b \<le> last ms div N" using sorted_wrt_last [OF blocks_of_strict [OF srt] that] blocks_of_last [OF ms] by simp
    with assms(2) [OF ms] show ?thesis by simp
  qed
  then have "map (\<lambda>b. (b, positions N b (ms @ [m]))) (blocks_of N ms) = map (\<lambda>b. (b, positions N b ms)) (blocks_of N ms)" by auto
  moreover have "positions N (m div N) ms = []"
    using assms(2) sorted_wrt_last [OF srt] by (cases "ms = []") (simp, intro positions_beyond, metis div_le_mono le_less_trans)
  ultimately show ?thesis using assms(2,3) by (auto simp: logged_def blocks_of_snoc)
qed

lemma log_add_fresh: "\<forall>k \<in> set L. fst k \<noteq> fst x \<Longrightarrow> log_add L x = L @ [x]"
  by (auto simp: log_add_def)

lemma block_key_fresh:
  assumes "\<forall>p \<in> set ps. fst p < b" and "b < 2 ^ 31"
  shows "log_add (map (block_key K) ps) (block_key K (b, js)) = map (block_key K) (ps @ [(b, js)])"
proof -
  have "(of_nat a :: u32) \<noteq> of_nat b" if "a < b" for a
  proof -
    have "unat (of_nat a :: u32) = a" "unat (of_nat b :: u32) = b" using that assms(2) by (simp_all add: unat_of_nat_small)
    with that show ?thesis by (metis less_irrefl)
  qed
  with assms(1) show ?thesis by (subst log_add_fresh) (auto simp: block_key_def)
qed

lemma logged_earlier: "sorted_wrt (<) ms \<Longrightarrow> \<not> K \<le> length (positions N (last ms div N) ms) \<Longrightarrow> \<forall>p \<in> set (logged N K ms). fst p < last ms div N"
  using earlier_blocks by (auto simp: logged_def)

text \<open>The event that closes a block takes the place of the event of its success, if there was one.\<close>

lemma log_add_closing:
  assumes srt: "sorted_wrt (<) ms" and ms: "ms \<noteq> []" and b: "last ms div N < 2 ^ 31"
  shows "log_add (map (block_key K) (logged N K ms)) (block_key K (last ms div N, positions N (last ms div N) ms))
    = map (block_key K) (map (\<lambda>b. (b, positions N b ms)) (blocks_of N ms))"
proof (cases "K \<le> length (positions N (last ms div N) ms)")
  case True
  then show ?thesis using ms
    by (subst blocks_split [OF ms]) (simp add: log_add_def logged_def block_key_def)
next
  case False
  then have "log_add (map (block_key K) (logged N K ms)) (block_key K (last ms div N, positions N (last ms div N) ms))
      = map (block_key K) (logged N K ms @ [(last ms div N, positions N (last ms div N) ms)])"
    by (rule block_key_fresh [OF logged_earlier [OF srt] b])
  with False show ?thesis by (subst blocks_split [OF ms]) (simp add: logged_def)
qed

section \<open>The counters of the decoder\<close>

definition block_counts :: "nat \<Rightarrow> nat \<Rightarrow> nat list \<Rightarrow> 'a RqDecoder_scheme \<Rightarrow> bool" where
  "block_counts K b js d \<longleftrightarrow> d_sbid d = int b \<and> d_sb_nrcv d = int (length js)
     \<and> d_sb_nsrcrcv d = int (length (filter (\<lambda>j. j < K) js))"

lemma symbol_counts:
  assumes c: "block_counts K b js d" and run: "process_symbol (int j) h d = Inr (d', evs)" and K: "d_rqkval d = int K"
  shows "block_counts K b (js @ [j]) d'
    \<and> map info_key (decode_infos evs) = (if Suc (length js) = K then [block_key K (b, js @ [j])] else [])"
proof -
  obtain d2 where d2: "update_stream (sint (m_iseq_streamid h)) (update_nsymb (m_iseq_data h) d) = Inr d2"
    and r: "(d', evs) = try_decode (count_symbol (int j) d2)"
    using run by (fastforce simp: process_symbol_def)
  have s: "d_sbid d2 = d_sbid d" "d_sb_nrcv d2 = d_sb_nrcv d" "d_sb_nsrcrcv d2 = d_sb_nsrcrcv d" "d_rqkval d2 = d_rqkval d"
    using d2 by (auto simp: update_stream_def update_nsymb_def Let_def split: if_splits)
  show ?thesis
    using r c K by (auto simp: block_counts_def try_decode_def count_symbol_def Let_def s PopulateDecodeInfo_def
        info_key_def block_key_def split: if_splits)
qed

lemma advance_counts:
  "block_counts K b [] (fst (advance_block (int b) d))" "d_rqkval (fst (advance_block s d)) = d_rqkval d"
  by (simp_all add: block_counts_def advance_block_def)

lemma advance_key:
  "d_sbid d < 0 \<Longrightarrow> decode_infos (snd (advance_block s d)) = []"
  "block_counts K b js d \<Longrightarrow> d_rqkval d = int K \<Longrightarrow>
    map info_key (decode_infos (snd (advance_block s d))) = [block_key K (b, js)]"
  by (auto simp: advance_block_def block_counts_def info_key_def PopulateDecodeInfo_def block_key_def)

section \<open>The log of a run\<close>

definition log_inv :: "nat \<Rightarrow> nat \<Rightarrow> 'a RqDecoder_scheme \<Rightarrow> nat list \<Rightarrow> dec_event list \<Rightarrow> bool" where
  "log_inv N K d ms evs \<longleftrightarrow>
     (if ms = [] then d_sbid d < 0 else block_counts K (last ms div N) (positions N (last ms div N) ms) d)
     \<and> log_keys (decode_infos evs) = map (block_key K) (logged N K ms)"

lemma log_inv_step:
  assumes inv: "log_inv N K d ms evs" and cfg: "dec_config N K n d" and ok: "\<And>b. block_ok K n (\<Sigma> b)"
    and srt: "sorted_wrt (<) (ms @ [m])" and m: "m < 2 ^ 31" and peek: "GetMinSerializedSize \<le> peeked"
    and run: "receive_packet d (peeked, packet_header N K n \<Sigma> m) = Inr (d', evs')"
  shows "log_inv N K d' (ms @ [m]) (evs @ evs')"
proof -
  let ?h = "packet_header N K n \<Sigma> m" and ?b = "m div N" and ?j = "m mod N"
  let ?keys = "\<lambda>evs. map info_key (decode_infos evs)"
  have K: "d_rqkval d = int K" "0 < K" using cfg by (auto simp: dec_config_def)
  have b: "?b < 2 ^ 31" using m div_le_dividend le_less_trans by blast
  have srt': "sorted_wrt (<) ms" using srt by (simp add: sorted_wrt_append)
  note rcv = receive_packet_header [where \<Sigma> = \<Sigma>, OF cfg ok m peek, unfolded run]
  note keys = log_keys_append [of "decode_infos evs"]
  show ?thesis
  proof (cases "ms \<noteq> [] \<and> last ms div N = ?b")
    case True
    with inv have c: "block_counts K ?b (positions N ?b ms) d" and L: "log_keys (decode_infos evs) = map (block_key K) (logged N K ms)"
      by (auto simp: log_inv_def)
    then have "d_sbid d = int ?b" by (simp add: block_counts_def)
    with rcv obtain evs1 where r: "process_symbol (int ?j) ?h d = Inr (d', evs1)" "evs' = RxTrace (peeked, ?h) # evs1"
      by (auto simp: bindE_def split: sum.splits prod.splits)
    from symbol_counts [OF c r(1) K(1)] True srt' L b
    show ?thesis
      using logged_earlier [OF srt', of K N] block_key_fresh [of "logged N K ms" ?b K]
      by (auto simp: log_inv_def keys r(2) logged_same_block [OF srt _ _ refl])
  next
    case False
    then have older: "ms \<noteq> [] \<Longrightarrow> last ms div N < ?b" using last_block_le [OF srt, of N] by auto
    then have "d_sbid d < int ?b" using inv by (cases "ms = []") (auto simp: log_inv_def block_counts_def)
    with rcv obtain evs1 where r: "process_symbol (int ?j) ?h (fst (advance_block (int ?b) d)) = Inr (d', evs1)"
      "evs' = RxTrace (peeked, ?h) # snd (advance_block (int ?b) d) @ evs1"
      by (auto simp: bindE_def split: sum.splits prod.splits)
    have pos: "positions N ?b ms = []"
      using older sorted_wrt_last [OF srt'] by (cases "ms = []") (simp, intro positions_beyond, metis div_le_mono le_less_trans)
    let ?closed = "map (\<lambda>b. (b, positions N b ms)) (blocks_of N ms)"
    have closed: "foldl log_add (log_keys (decode_infos evs)) (?keys (snd (advance_block (int ?b) d))) = map (block_key K) ?closed"
    proof (cases "ms = []")
      case True
      with inv show ?thesis by (simp add: log_inv_def advance_key(1) logged_def)
    next
      case ms: False
      with inv have c: "block_counts K (last ms div N) (positions N (last ms div N) ms) d" by (simp add: log_inv_def)
      have "last ms div N < 2 ^ 31" using older [OF ms] b by simp
      with log_add_closing [OF srt' ms this] advance_key(2) [OF c K(1)] inv ms show ?thesis by (simp add: log_inv_def)
    qed
    have "\<forall>p \<in> set ?closed. fst p < ?b"
    proof
      fix p assume p: "p \<in> set ?closed"
      then have ms: "ms \<noteq> []" by auto
      have "fst p \<le> last ms div N"
        using p sorted_wrt_last [OF blocks_of_strict [OF srt']] blocks_of_last [OF ms, of N] by fastforce
      with older [OF ms] show "fst p < ?b" by simp
    qed
    from block_key_fresh [OF this b, of K "[?j]"] symbol_counts [OF advance_counts(1) r(1)] advance_counts(2) [of "int ?b" d] K
      logged_new_block [OF srt older K(2)]
    show ?thesis by (auto simp: log_inv_def keys r(2) closed pos)
  qed
qed

lemma receive_all_log:
  assumes cfg: "dec_config N K n d" and fresh: "d_sbid d < 0" and ok: "\<And>b. block_ok K n (\<Sigma> b)"
    and "sorted_wrt (<) ms" and "\<forall>m \<in> set ms. m < 2 ^ 31"
    and "receive_all d (wire_packets (map (packet_header N K n \<Sigma>) ms)) = Inr (d', evs)"
  shows "log_inv N K d' ms evs"
  using assms(4-6)
proof (induction ms arbitrary: d' evs rule: rev_induct)
  case Nil
  with fresh show ?case by (simp add: receive_all_def wire_packets_def log_inv_def log_keys_def logged_def)
next
  case (snoc m ms)
  let ?h = "packet_header N K n \<Sigma> m"
  from snoc.prems(3) obtain d1 evs1 evs2 where
    r: "receive_all d (wire_packets (map (packet_header N K n \<Sigma>) ms)) = Inr (d1, evs1)"
      "receive_packet d1 (GetSerializedSize ?h, ?h) = Inr (d', evs2)" "evs = evs1 @ evs2"
    by (auto simp: wire_packets_def receive_all_snoc)
  have p: "sorted_wrt (<) ms" "\<forall>m \<in> set ms. m < 2 ^ 31" "m < 2 ^ 31" using snoc.prems by (simp_all add: sorted_wrt_append)
  from receive_all_inv [where \<Sigma> = \<Sigma>, OF cfg fresh ok p(1,2)] r(1) have "dec_config N K n d1"
    using cfg same_outside_config [of d d1] by (auto simp: recv_inv_def)
  moreover have "n \<le> 8" using cfg by (simp add: dec_config_def)
  ultimately show ?case
    using log_inv_step [OF snoc.IH [OF p(1,2) r(1)] _ ok snoc.prems(1) p(3) peek_size r(2)] r(3) by simp
qed

text \<open>
  C14. The decoding log, line by line. Let the packets \<open>ms\<close> of an encoder arrive, any subset in order,
  at a fresh decoder of the same code. The log file has a line for every block in \<open>ms\<close> that a later
  block has followed, with all its packets received, all its source packets received and whether it
  had at least \<open>K\<close>; and as soon as the last block has \<open>K\<close> packets, a line for it that counts the first
  \<open>K\<close>. There is no other line.
\<close>

theorem decoding_log_of_packets:
  assumes "dec_config N K n d" and "d_sbid d < 0" and "\<And>b. block_ok K n (\<Sigma> b)"
    and "sorted_wrt (<) ms" and "\<forall>m \<in> set ms. m < 2 ^ 31"
    and "receive_all d (wire_packets (map (packet_header N K n \<Sigma>) ms)) = Inr (d', evs)"
  shows "dec_log uninit (decode_infos evs) = log_file N K ms"
  using receive_all_log [where \<Sigma> = \<Sigma>, OF assms] by (simp add: log_inv_def dec_log_keys log_file_def)

lemma example_log_file: "log_file 3 2 [0, 2, 3] = [''0 1 2 1'' @ [CHR 0x0A]]" "log_file 3 2 [0, 3, 5] = [''0 0 1 1'' @ [CHR 0x0A], ''1 1 2 1'' @ [CHR 0x0A]]"
  by code_simp+

theorem decoding_log_of_packets_witness:
  "\<exists>d' evs. receive_all example_decoder (wire_packets (map (packet_header 3 2 1 (\<lambda>_. [0, 0])) [0, 3, 5])) = Inr (d', evs)
     \<and> dec_log (PopulateDecodeInfo example_decoder) (decode_infos evs) = [''0 0 1 1'' @ [CHR 0x0A], ''1 1 2 1'' @ [CHR 0x0A]]"
proof -
  have p: "sorted_wrt (<) [0, 3, 5 :: nat]" "\<forall>m \<in> set [0, 3, 5 :: nat]. m < 2 ^ 31" by simp_all
  note ex = example_decoder_config(1,2) example_decoder_config(3)
  from receive_all_inv [OF ex p] obtain d' evs where
    run: "receive_all example_decoder (wire_packets (map (packet_header 3 2 1 (\<lambda>_. [0, 0])) [0, 3, 5])) = Inr (d', evs)" by blast
  from decoding_log_of_packets [OF ex p run] run example_log_file(2) show ?thesis by auto
qed

end
