(* ===== verification/Binary_Heap.thy ===== *)
theory Binary_Heap
  imports Prelude
begin

text \<open>
  The standard library's \<open>push_heap\<close> and \<open>pop_heap\<close> on an array of integers, as the packet loss
  log uses them, with the contract they promise stated as a locale and discharged by an
  interpretation on the model.
\<close>

section \<open>The contract\<close>

text \<open>\<open>push\<close> inserts the last element of the array into the heap before it; \<open>pop\<close> moves the
  greatest element to the end and leaves a heap before it.\<close>

locale heap_ops =
  fixes is_heap :: "int list \<Rightarrow> bool"
    and push :: "int list \<Rightarrow> int list"
    and pop :: "int list \<Rightarrow> int list"
  assumes is_heap_Nil: "is_heap []"
    and mset_push: "is_heap xs \<Longrightarrow> mset (push (xs @ [x])) = add_mset x (mset xs)"
    and is_heap_push: "is_heap xs \<Longrightarrow> is_heap (push (xs @ [x]))"
    and mset_pop: "is_heap xs \<Longrightarrow> mset (pop xs) = mset xs"
    and is_heap_pop: "is_heap xs \<Longrightarrow> is_heap (butlast (pop xs))"
    and pop_greatest: "is_heap xs \<Longrightarrow> y \<in> set xs \<Longrightarrow> y \<le> last (pop xs)"
begin

lemma pop_nonempty: "is_heap xs \<Longrightarrow> xs \<noteq> [] \<Longrightarrow> pop xs \<noteq> []"
  using mset_pop [of xs] by auto

lemma length_push: "is_heap xs \<Longrightarrow> length (push (xs @ [x])) = Suc (length xs)"
  using mset_push [of xs x] by (metis size_add_mset size_mset)

lemma length_pop: "is_heap xs \<Longrightarrow> length (butlast (pop xs)) = length xs - 1"
  using mset_pop [of xs] by (metis length_butlast size_mset)

lemma pop_is_Max:
  assumes "is_heap xs" "xs \<noteq> []"
  shows "last (pop xs) = Max_mset (mset xs)"
proof (rule Max_eqI [symmetric])
  show "finite (set_mset (mset xs))" by simp
  show "y \<le> last (pop xs)" if "y \<in># mset xs" for y using that assms(1) by (auto intro: pop_greatest)
  have "last (pop xs) \<in> set (pop xs)" using pop_nonempty [OF assms] by simp
  then show "last (pop xs) \<in># mset xs" using mset_pop [OF assms(1)] by (metis set_mset_mset)
qed

lemma pop_rest:
  assumes "is_heap xs" "xs \<noteq> []"
  shows "mset (butlast (pop xs)) = mset xs - {#Max_mset (mset xs)#}"
proof -
  have "mset (butlast (pop xs) @ [last (pop xs)]) = mset xs"
    using pop_nonempty [OF assms] mset_pop [OF assms(1)] by simp
  then have "add_mset (Max_mset (mset xs)) (mset (butlast (pop xs))) = mset xs"
    using pop_is_Max [OF assms] by simp
  then show ?thesis by (metis add_mset_remove_trivial)
qed

end

section \<open>The model\<close>

definition parent :: "nat \<Rightarrow> nat" where
  "parent i = (i - 1) div 2"

definition swap_at :: "nat \<Rightarrow> nat \<Rightarrow> int list \<Rightarrow> int list" where
  "swap_at i j xs = xs[i := xs ! j, j := xs ! i]"

function sift_up :: "nat \<Rightarrow> int list \<Rightarrow> int list" where
  "sift_up i xs =
     (if i = 0 \<or> xs ! i \<le> xs ! parent i then xs else sift_up (parent i) (swap_at i (parent i) xs))"
  by pat_completeness auto
termination by (relation "measure fst") (auto simp: parent_def)

definition larger_child :: "nat \<Rightarrow> nat \<Rightarrow> int list \<Rightarrow> nat" where
  "larger_child i n xs = (if 2 * i + 2 < n \<and> xs ! (2 * i + 1) < xs ! (2 * i + 2) then 2 * i + 2 else 2 * i + 1)"

function sift_down :: "nat \<Rightarrow> nat \<Rightarrow> int list \<Rightarrow> int list" where
  "sift_down i n xs =
     (if n \<le> 2 * i + 1 \<or> xs ! larger_child i n xs \<le> xs ! i then xs
      else sift_down (larger_child i n xs) n (swap_at i (larger_child i n xs) xs))"
  by pat_completeness auto
termination by (relation "measure (\<lambda>(i, n, xs). n - i)") (auto simp: larger_child_def)

declare sift_up.simps [simp del] sift_down.simps [simp del]

definition push_heap :: "int list \<Rightarrow> int list" where
  "push_heap xs = (if xs = [] then [] else sift_up (length xs - 1) xs)"

definition pop_heap :: "int list \<Rightarrow> int list" where
  "pop_heap xs = (if xs = [] then [] else sift_down 0 (length xs - 1) (swap_at 0 (length xs - 1) xs))"

definition is_heap :: "int list \<Rightarrow> bool" where
  "is_heap xs \<longleftrightarrow> (\<forall>i < length xs. 0 < i \<longrightarrow> xs ! i \<le> xs ! parent i)"

section \<open>The model keeps the contract\<close>

lemma parent_less [simp]: "0 < i \<Longrightarrow> parent i < i"
  by (simp add: parent_def)

lemma parent_lt [simp]: "i < n \<Longrightarrow> parent i < n"
  unfolding parent_def by arith

lemma parent_eq_iff: "0 < j \<Longrightarrow> parent j = i \<longleftrightarrow> j = 2 * i + 1 \<or> j = 2 * i + 2"
  by (auto simp: parent_def)

lemma swap_at_length [simp]: "length (swap_at i j xs) = length xs"
  by (simp add: swap_at_def)

lemma swap_at_mset [simp]: "i < length xs \<Longrightarrow> j < length xs \<Longrightarrow> mset (swap_at i j xs) = mset xs"
  by (simp add: swap_at_def mset_swap)

lemma swap_at_nth:
  "i < length xs \<Longrightarrow> j < length xs \<Longrightarrow> k < length xs \<Longrightarrow>
    swap_at i j xs ! k = (if k = j then xs ! i else if k = i then xs ! j else xs ! k)"
  by (simp add: swap_at_def nth_list_update_cases)

lemma larger_child_bounds:
  "2 * i + 1 < n \<Longrightarrow> larger_child i n xs < n \<and> i < larger_child i n xs \<and> parent (larger_child i n xs) = i"
  by (auto simp: larger_child_def parent_def)

lemma larger_child_max:
  "0 < j \<Longrightarrow> j < n \<Longrightarrow> parent j = i \<Longrightarrow> xs ! j \<le> xs ! larger_child i n xs"
  by (auto simp: larger_child_def parent_eq_iff)

text \<open>A heap except that the element at \<open>i\<close> may be greater than its parent.\<close>

definition heap_but_up :: "nat \<Rightarrow> int list \<Rightarrow> bool" where
  "heap_but_up i xs \<longleftrightarrow> i < length xs
     \<and> (\<forall>j < length xs. 0 < j \<longrightarrow> j \<noteq> i \<longrightarrow> xs ! j \<le> xs ! parent j)
     \<and> (\<forall>j < length xs. 0 < j \<longrightarrow> 0 < i \<longrightarrow> parent j = i \<longrightarrow> xs ! j \<le> xs ! parent i)"

lemma heap_but_up_step:
  assumes h: "heap_but_up i xs" and i: "0 < i" and gt: "xs ! parent i < xs ! i"
  shows "heap_but_up (parent i) (swap_at i (parent i) xs)"
proof -
  let ?p = "parent i" and ?ys = "swap_at i (parent i) xs"
  have len: "i < length xs" "?p < length xs" "?p \<noteq> i" using h i parent_less [OF i] by (auto simp: heap_but_up_def)
  have nth: "?ys ! k = (if k = ?p then xs ! i else if k = i then xs ! ?p else xs ! k)" if "k < length xs" for k
    using len that by (intro swap_at_nth)
  have edge: "xs ! j \<le> xs ! parent j" if "j < length xs" "0 < j" "j \<noteq> i" for j
    using h that by (simp add: heap_but_up_def)
  have child: "xs ! j \<le> xs ! ?p" if "j < length xs" "0 < j" "parent j = i" for j
    using h i that by (simp add: heap_but_up_def)
  have "?ys ! j \<le> ?ys ! parent j" if j: "j < length xs" "0 < j" "j \<noteq> ?p" for j
  proof -
    have pj: "parent j < length xs" using j parent_less [of j] by simp
    show ?thesis
    proof (cases "j = i")
      case True
      then show ?thesis using nth [OF j(1)] nth [OF pj] len gt by simp
    next
      case False
      then show ?thesis
        using nth [OF j(1)] nth [OF pj] edge [OF j(1,2) False] child [OF j(1,2)] gt j(3)
        by (auto split: if_splits)
    qed
  qed
  moreover have "?ys ! j \<le> ?ys ! parent ?p" if j: "j < length xs" "0 < j" "0 < ?p" "parent j = ?p" for j
  proof -
    have pp: "parent ?p < length xs" "parent ?p \<noteq> ?p" "parent ?p \<noteq> i" "j \<noteq> ?p"
      using len parent_less [OF j(3)] parent_less [OF i] parent_less [OF j(2)] j(4) by auto
    have "xs ! ?p \<le> xs ! parent ?p" using edge [OF len(2) j(3)] len(3) by simp
    moreover have "j \<noteq> i \<Longrightarrow> xs ! j \<le> xs ! ?p" using edge [OF j(1,2)] j(4) by simp
    ultimately show ?thesis using nth [OF j(1)] nth [OF pp(1)] pp by auto
  qed
  ultimately show ?thesis using len by (simp add: heap_but_up_def)
qed

lemma sift_up_heap: "heap_but_up i xs \<Longrightarrow> is_heap (sift_up i xs) \<and> mset (sift_up i xs) = mset xs"
proof (induction i xs rule: sift_up.induct)
  case (1 i xs)
  show ?case
  proof (cases "i = 0 \<or> xs ! i \<le> xs ! parent i")
    case True
    then show ?thesis using 1(2)
      by (subst (1 2) sift_up.simps) (auto simp: is_heap_def heap_but_up_def)
  next
    case False
    then have step: "heap_but_up (parent i) (swap_at i (parent i) xs)"
      using heap_but_up_step [OF 1(2)] by simp
    have "mset (swap_at i (parent i) xs) = mset xs"
      using 1(2) False parent_less [of i] by (intro swap_at_mset) (auto simp: heap_but_up_def)
    with 1(1) [OF False step] False show ?thesis by (subst (1 2) sift_up.simps) simp
  qed
qed

text \<open>A heap on the first \<open>n\<close> elements except that a child of \<open>i\<close> may be greater than it.\<close>

definition heap_but_down :: "nat \<Rightarrow> nat \<Rightarrow> int list \<Rightarrow> bool" where
  "heap_but_down i n xs \<longleftrightarrow> n \<le> length xs
     \<and> (\<forall>j < n. 0 < j \<longrightarrow> parent j \<noteq> i \<longrightarrow> xs ! j \<le> xs ! parent j)
     \<and> (\<forall>j < n. 0 < j \<longrightarrow> 0 < i \<longrightarrow> parent j = i \<longrightarrow> xs ! j \<le> xs ! parent i)"

definition heap_prefix :: "nat \<Rightarrow> int list \<Rightarrow> bool" where
  "heap_prefix n xs \<longleftrightarrow> n \<le> length xs \<and> (\<forall>j < n. 0 < j \<longrightarrow> xs ! j \<le> xs ! parent j)"

lemma heap_but_down_step:
  assumes h: "heap_but_down i n xs" and i: "2 * i + 1 < n" and gt: "xs ! i < xs ! larger_child i n xs"
  shows "heap_but_down (larger_child i n xs) n (swap_at i (larger_child i n xs) xs)"
proof -
  let ?c = "larger_child i n xs" and ?ys = "swap_at i (larger_child i n xs) xs"
  have c: "?c < n" "i < ?c" "parent ?c = i" using larger_child_bounds [OF i] by auto
  have n: "n \<le> length xs" using h by (simp add: heap_but_down_def)
  have nth: "?ys ! k = (if k = ?c then xs ! i else if k = i then xs ! ?c else xs ! k)" if "k < n" for k
    using c i n that by (intro swap_at_nth) auto
  have edge: "xs ! j \<le> xs ! parent j" if "j < n" "0 < j" "parent j \<noteq> i" for j
    using h that by (simp add: heap_but_down_def)
  have max: "xs ! j \<le> xs ! ?c" if "j < n" "0 < j" "parent j = i" for j
    using larger_child_max that by blast
  have above: "xs ! ?c \<le> xs ! parent i" if "0 < i"
    using h c that by (simp add: heap_but_down_def)
  have "?ys ! j \<le> ?ys ! parent j" if j: "j < n" "0 < j" "parent j \<noteq> ?c" for j
  proof -
    have pj: "parent j < n" using j(1) by simp
    consider "j = i" | "parent j = i" | "j \<noteq> i" "parent j \<noteq> i" by blast
    then show ?thesis
    proof cases
      case 1
      then have "parent j \<noteq> i" "parent j \<noteq> ?c" using parent_less [OF j(2)] c by auto
      with 1 j above c show ?thesis using nth [OF j(1)] nth [OF pj] by simp
    next
      case 2
      then show ?thesis using nth [OF j(1)] nth [OF pj] max [OF j(1,2)] gt j(3) parent_less [OF j(2)] by auto
    next
      case 3
      then show ?thesis using nth [OF j(1)] nth [OF pj] edge [OF j(1,2)] j(3) c by auto
    qed
  qed
  moreover have "?ys ! j \<le> ?ys ! parent ?c" if j: "j < n" "0 < j" "parent j = ?c" for j
  proof -
    have "j \<noteq> i" "j \<noteq> ?c" using parent_less [OF j(2)] j(3) c by auto
    then have "?ys ! j = xs ! j" using nth [OF j(1)] by simp
    moreover have "xs ! j \<le> xs ! ?c" using edge [OF j(1,2)] j(3) c by simp
    moreover have "?ys ! i = xs ! ?c" using nth [of i] c i by simp
    ultimately show ?thesis using c by simp
  qed
  ultimately show ?thesis using n by (simp add: heap_but_down_def)
qed

lemma sift_down_heap:
  "heap_but_down i n xs \<Longrightarrow> heap_prefix n (sift_down i n xs) \<and> mset (sift_down i n xs) = mset xs
     \<and> drop n (sift_down i n xs) = drop n xs"
proof (induction i n xs rule: sift_down.induct)
  case (1 i n xs)
  let ?c = "larger_child i n xs"
  show ?case
  proof (cases "n \<le> 2 * i + 1 \<or> xs ! ?c \<le> xs ! i")
    case True
    have "xs ! j \<le> xs ! parent j" if j: "j < n" "0 < j" for j
    proof (cases "parent j = i")
      case True
      then have "2 * i + 1 < n \<or> j = n" using j by (auto simp: parent_eq_iff)
      with True \<open>n \<le> 2 * i + 1 \<or> xs ! ?c \<le> xs ! i\<close> j show ?thesis
        using larger_child_max [OF j(2,1) True, of xs] by auto
    qed (use 1(2) j in \<open>auto simp: heap_but_down_def\<close>)
    with True 1(2) show ?thesis
      by (subst (1 2 3) sift_down.simps) (simp add: heap_prefix_def heap_but_down_def)
  next
    case False
    then have step: "heap_but_down ?c n (swap_at i ?c xs)"
      using heap_but_down_step [OF 1(2)] by simp
    have c: "?c < n" "i < ?c" "n \<le> length xs" using larger_child_bounds [of i n xs] False 1(2) by (auto simp: heap_but_down_def)
    then have "mset (swap_at i ?c xs) = mset xs" "drop n (swap_at i ?c xs) = drop n xs"
      by (auto simp: swap_at_def mset_swap)
    with 1(1) [OF False step] False show ?thesis by (subst (1 2 3) sift_down.simps) simp
  qed
qed

lemma is_heap_root: "heap_prefix n xs \<Longrightarrow> j < n \<Longrightarrow> xs ! j \<le> xs ! 0"
proof (induction j rule: less_induct)
  case (less j)
  show ?case
  proof (cases "j = 0")
    case False
    then have "xs ! parent j \<le> xs ! 0" using less by simp
    moreover have "xs ! j \<le> xs ! parent j" using less False by (simp add: heap_prefix_def)
    ultimately show ?thesis by simp
  qed simp
qed

lemma is_heap_prefix: "is_heap xs = heap_prefix (length xs) xs"
  by (simp add: is_heap_def heap_prefix_def)

lemma pop_heap_Cons:
  assumes h: "is_heap xs" and ne: "xs \<noteq> []"
  shows "mset (pop_heap xs) = mset xs" and "is_heap (butlast (pop_heap xs))" and "last (pop_heap xs) = xs ! 0"
proof -
  let ?n = "length xs - 1"
  let ?ys = "swap_at 0 ?n xs"
  have len: "0 < length xs" using ne by simp
  have "heap_but_down 0 ?n ?ys"
    unfolding heap_but_down_def
  proof (intro conjI allI impI)
    fix j
    assume j: "j < ?n" "0 < j" "parent j \<noteq> 0"
    then show "?ys ! j \<le> ?ys ! parent j"
      using h len parent_lt [OF j(1)] parent_less [OF j(2)] by (auto simp: swap_at_nth is_heap_def)
  qed auto
  from sift_down_heap [OF this] have down: "heap_prefix ?n (pop_heap xs)" "mset (pop_heap xs) = mset ?ys"
    "drop ?n (pop_heap xs) = drop ?n ?ys"
    using ne by (auto simp: pop_heap_def)
  show ms: "mset (pop_heap xs) = mset xs" using down(2) len by simp
  then have l: "length (pop_heap xs) = length xs" by (metis size_mset)
  have "last (pop_heap xs) = pop_heap xs ! ?n" using l ne by (metis last_conv_nth length_0_conv)
  also have "\<dots> = hd (drop ?n (pop_heap xs))" using l len by (simp add: hd_drop_conv_nth)
  also have "\<dots> = ?ys ! ?n" using down(3) len by (simp add: hd_drop_conv_nth)
  also have "\<dots> = xs ! 0" using len by (simp add: swap_at_nth)
  finally show "last (pop_heap xs) = xs ! 0" .
  have "heap_prefix ?n (butlast (pop_heap xs))"
    using down(1) l by (auto simp: heap_prefix_def nth_butlast)
  then show "is_heap (butlast (pop_heap xs))" using l by (simp add: is_heap_prefix)
qed

lemma push_heap_heap:
  assumes "is_heap xs"
  shows "is_heap (push_heap (xs @ [x])) \<and> mset (push_heap (xs @ [x])) = add_mset x (mset xs)"
proof -
  have "heap_but_up (length xs) (xs @ [x])"
    using assms by (auto simp: heap_but_up_def is_heap_def nth_append parent_eq_iff less_Suc_eq)
  from sift_up_heap [OF this] show ?thesis by (simp add: push_heap_def)
qed

interpretation binary_heap: heap_ops is_heap push_heap pop_heap
proof
  show "is_heap []" by (simp add: is_heap_def)
  show "is_heap (push_heap (xs @ [x]))" "mset (push_heap (xs @ [x])) = add_mset x (mset xs)" if "is_heap xs" for xs x
    using push_heap_heap [OF that] by auto
  show "mset (pop_heap xs) = mset xs" "is_heap (butlast (pop_heap xs))" if "is_heap xs" for xs
    using pop_heap_Cons [OF that] that by (cases "xs = []"; simp add: pop_heap_def)+
  show "y \<le> last (pop_heap xs)" if h: "is_heap xs" and y: "y \<in> set xs" for xs y
  proof -
    have "xs \<noteq> []" using y by auto
    moreover obtain j where "j < length xs" "y = xs ! j" using y by (auto simp: in_set_conv_nth)
    ultimately show ?thesis
      using pop_heap_Cons(3) [OF h] is_heap_root [of "length xs" xs j] h by (simp add: is_heap_prefix)
  qed
qed

end
