(* ===== verification/App_Rx_Cb.thy ===== *)
theory App_Rx_Cb
  imports Rq_Header Ns3_Env Binary_Heap
begin

text \<open>
  \<open>AppRxCb\<close>, \<open>sim/app_rx_cb.h\<close> and \<open>sim/app_rx_cb.cc\<close>: the receive trace sink. It logs the bytes
  received over time and, for streams with sequence numbers, the losses: sequence numbers enter a
  heap of bounded size, and the smallest one is checked for gaps, duplicates and late packets when
  it leaves.

  The byte and sequence counters are \<open>long int\<close> and \<open>int64_t\<close>: their values are \<open>int\<close>s, with the
  64-bit wrap-around written at the two negations. The loss file is the list of its lines, or
  \<open>None\<close> for a null pointer.
\<close>

section \<open>State and operations\<close>

datatype loss_event =
    LargeReorder int int
  | Dup int
  | LostRange int int
  | LargestProcessed int

fun loss_line :: "loss_event \<Rightarrow> string" where
  "loss_line (LargeReorder v l) = ''large_reorder '' @ dec_int v @ '' '' @ dec_int l @ [CHR 0x0A]"
| "loss_line (Dup v) = ''dup '' @ dec_int v @ [CHR 0x0A]"
| "loss_line (LostRange a b) = ''lost_range '' @ dec_int a @ '' '' @ dec_int b @ [CHR 0x0A]"
| "loss_line (LargestProcessed v) = ''largest_seqno_processed '' @ dec_int v @ [CHR 0x0A]"

record AppRxCb =
  rx_byte_lines :: "string list"
  rx_byte_count :: int
  pl_fp :: "loss_event list option"
  n_pl_heap_max_sz :: nat
  pl_heap :: "int list"               \<comment> \<open>the first \<open>n_pl_heap_size\<close> elements\<close>
  pl_largest_popped :: int

record rx_pkt =
  rx_size :: u32
  rx_header :: RqHeader               \<comment> \<open>what \<open>PeekHeader\<close> fills in\<close>

definition AppRxCb_make :: "bool \<Rightarrow> nat \<Rightarrow> AppRxCb" where
  "AppRxCb_make has_pl pl_window_size =
     \<lparr>rx_byte_lines = [], rx_byte_count = 0, pl_fp = (if has_pl then Some [] else None),
      n_pl_heap_max_sz = pl_window_size, pl_heap = [], pl_largest_popped = -1\<rparr>"

definition AppRxCb_destroy :: "AppRxCb \<Rightarrow> AppRxCb" where
  "AppRxCb_destroy cb =
     (case pl_fp cb of None \<Rightarrow> cb
      | Some log \<Rightarrow>
          if pl_largest_popped cb > -1
          then cb\<lparr>pl_fp := Some (log @ [LargestProcessed (pl_largest_popped cb)])\<rparr> else cb)"

definition LogAndUpdateByteCounts :: "u64 \<Rightarrow> rx_pkt \<Rightarrow> AppRxCb \<Rightarrow> AppRxCb" where
  "LogAndUpdateByteCounts time_us pkt cb =
     (let n = rx_byte_count cb + int (unat (rx_size pkt))
      in cb\<lparr>rx_byte_count := n,
           rx_byte_lines := rx_byte_lines cb @ [dec_int (sint time_us) @ '' '' @ dec_int n @ [CHR 0x0A]]\<rparr>)"

definition neg64 :: "int \<Rightarrow> int" where
  "neg64 x = sint (- (of_int x :: u64))"

text \<open>The checks for reordering, duplicates and losses on a popped number.\<close>

definition check_popped :: "int \<Rightarrow> int \<Rightarrow> loss_event list" where
  "check_popped v largest =
     (if v < largest then [LargeReorder v largest]
      else if v = largest then [Dup v]
      else if v > largest + 1 then [LostRange (largest + 1) (v - 1)]
      else [])"

definition pop_if_full :: "loss_event list \<Rightarrow> AppRxCb \<Rightarrow> fault + AppRxCb" where
  "pop_if_full log cb =
     (if length (pl_heap cb) = n_pl_heap_max_sz cb
      then if pl_heap cb = [] then Inl OutOfBounds
           else let h = pop_heap (pl_heap cb); v = neg64 (last h); largest = pl_largest_popped cb
             in Inr (cb\<lparr>pl_heap := butlast h, pl_fp := Some (log @ check_popped v largest),
                       pl_largest_popped := (if v > largest then v else largest)\<rparr>)
      else Inr cb)"

definition push_seqno :: "u64 \<Rightarrow> AppRxCb \<Rightarrow> AppRxCb" where
  "push_seqno seqno cb = cb\<lparr>pl_heap := push_heap (pl_heap cb @ [sint (- seqno)])\<rparr>"

definition LogAndUpdateLosses :: "rx_pkt \<Rightarrow> AppRxCb \<Rightarrow> fault + AppRxCb" where
  "LogAndUpdateLosses pkt cb =
     (case pl_fp cb of None \<Rightarrow> Inr cb
      | Some log \<Rightarrow>
          if rx_size pkt < GetMinSerializedSize then Inr cb
          else if \<not> IsValid (rx_header pkt) then Inr cb
          else bindE (guardE (length (pl_heap cb) \<le> n_pl_heap_max_sz cb) AssertFail) (\<lambda>_.
               bindE (pop_if_full log cb) (\<lambda>cb'.
                 Inr (push_seqno (GetSeqno (rx_header pkt)) cb'))))"

definition rxCb :: "u64 \<Rightarrow> rx_pkt \<Rightarrow> AppRxCb \<Rightarrow> fault + AppRxCb" where
  "rxCb time_us pkt cb = LogAndUpdateLosses pkt (LogAndUpdateByteCounts time_us pkt cb)"

text \<open>A stream of received packets with their times.\<close>

definition rx_run :: "AppRxCb \<Rightarrow> (u64 \<times> rx_pkt) list \<Rightarrow> fault + AppRxCb" where
  "rx_run cb pkts = foldE (\<lambda>cb (t, p). rxCb t p cb) cb pkts"

section \<open>The loss log over multisets\<close>

text \<open>The specification: a window of at most \<open>w\<close> sequence numbers, the smallest of which leaves
  when it is full. No heap, no negation, no machine integers.\<close>

record loss_state =
  window :: "nat multiset"
  largest :: int
  losses :: "loss_event list"

definition loss_step :: "nat \<Rightarrow> loss_state \<Rightarrow> nat \<Rightarrow> loss_state" where
  "loss_step w S s =
     (if size (window S) = w
      then let v = Min_mset (window S)
        in \<lparr>window = add_mset s (window S - {#v#}), largest = max (largest S) (int v),
            losses = losses S @ check_popped (int v) (largest S)\<rparr>
      else S\<lparr>window := add_mset s (window S)\<rparr>)"

definition loss_machine :: "nat \<Rightarrow> nat list \<Rightarrow> loss_state" where
  "loss_machine w ss = foldl (loss_step w) \<lparr>window = {#}, largest = -1, losses = []\<rparr> ss"

lemma loss_machine_snoc: "loss_machine w (ss @ [s]) = loss_step w (loss_machine w ss) s"
  by (simp add: loss_machine_def)

lemma loss_machine_Nil: "loss_machine w [] = \<lparr>window = {#}, largest = -1, losses = []\<rparr>"
  by (simp add: loss_machine_def)

text \<open>The packets that count: large enough and with a valid header.\<close>

definition counted :: "rx_pkt \<Rightarrow> bool" where
  "counted p \<longleftrightarrow> \<not> rx_size p < GetMinSerializedSize \<and> IsValid (rx_header p)"

definition seqnos :: "(u64 \<times> rx_pkt) list \<Rightarrow> nat list" where
  "seqnos pkts = map (unat \<circ> GetSeqno \<circ> rx_header \<circ> snd) (filter (counted \<circ> snd) pkts)"

definition abs_rel :: "nat \<Rightarrow> AppRxCb \<Rightarrow> loss_state \<Rightarrow> bool" where
  "abs_rel w cb S \<longleftrightarrow> n_pl_heap_max_sz cb = w \<and> is_heap (pl_heap cb)
     \<and> mset (pl_heap cb) = image_mset (\<lambda>s. - int s) (window S)
     \<and> (\<forall>s \<in># window S. s < 2 ^ 63) \<and> size (window S) \<le> w
     \<and> pl_largest_popped cb = largest S \<and> pl_fp cb = Some (losses S)"

lemma neg64_neg: "s < 2 ^ 63 \<Longrightarrow> neg64 (- int s) = int s"
  by (simp add: neg64_def signed_of_nat signed_take_bit_int_eq_self)

lemma sint_minus_nat: "n < 2 ^ 63 \<Longrightarrow> sint (- of_nat n :: u64) = - int n"
proof -
  assume n: "n < 2 ^ 63"
  have "sint (- of_nat n :: u64) = sint (of_int (- int n) :: u64)" by simp
  also have "\<dots> = signed_take_bit 63 (- int n)" by (subst signed_of_int) simp
  also have "\<dots> = - int n" using n by (intro signed_take_bit_int_eq_self) auto
  finally show ?thesis .
qed

lemma sint_minus_seqno: "unat s < 2 ^ 63 \<Longrightarrow> sint (- s :: u64) = - int (unat s)"
  using sint_minus_nat [of "unat s"] by simp

lemma Max_image_neg: "M \<noteq> {#} \<Longrightarrow> Max_mset (image_mset (\<lambda>s. - int s) M) = - int (Min_mset M)"
  by (rule Max_eqI) (auto intro: imageI)

lemma pop_if_full_abs:
  assumes rel: "abs_rel w cb S" and full: "size (window S) = w" and w: "0 < w"
  shows "\<exists>cb'. pop_if_full (losses S) cb = Inr cb'
    \<and> abs_rel w cb' \<lparr>window = window S - {#Min_mset (window S)#},
        largest = max (largest S) (int (Min_mset (window S))),
        losses = losses S @ check_popped (int (Min_mset (window S))) (largest S)\<rparr>
    \<and> rx_byte_count cb' = rx_byte_count cb"
proof -
  let ?M = "window S" and ?h = "pl_heap cb"
  have ne: "?M \<noteq> {#}" using full w by auto
  have h: "is_heap ?h" "mset ?h = image_mset (\<lambda>s. - int s) ?M" using rel by (auto simp: abs_rel_def)
  have len: "length ?h = w" using full h(2) by (metis size_image_mset size_mset)
  then have hne: "?h \<noteq> []" using w by auto
  have last: "last (pop_heap ?h) = - int (Min_mset ?M)"
    using binary_heap.pop_is_Max [OF h(1) hne] Max_image_neg [OF ne] h(2) by simp
  have "Min_mset ?M < 2 ^ 63" using rel ne by (simp add: abs_rel_def)
  then have v: "neg64 (last (pop_heap ?h)) = int (Min_mset ?M)" using last by (simp add: neg64_neg)
  have "mset (butlast (pop_heap ?h)) = image_mset (\<lambda>s. - int s) (?M - {#Min_mset ?M#})"
    using binary_heap.pop_rest [OF h(1) hne] Max_image_neg [OF ne] h(2) ne
    by (simp add: image_mset_Diff)
  moreover have "is_heap (butlast (pop_heap ?h))" by (rule binary_heap.is_heap_pop [OF h(1)])
  moreover have "size (?M - {#Min_mset ?M#}) \<le> w" using full by (metis diff_subset_eq_self size_mset_mono)
  ultimately show ?thesis
    using rel len hne v full by (auto simp: abs_rel_def pop_if_full_def Let_def max_def dest: in_diffD)
qed

lemma push_seqno_abs:
  assumes "abs_rel w cb S" "size (window S) < w" "unat s < 2 ^ 63"
  shows "abs_rel w (push_seqno s cb) (S\<lparr>window := add_mset (unat s) (window S)\<rparr>)"
  using assms binary_heap.mset_push [of "pl_heap cb"] binary_heap.is_heap_push [of "pl_heap cb"]
  by (auto simp: abs_rel_def push_seqno_def sint_minus_seqno)

lemma LogAndUpdateLosses_skip: "\<not> counted p \<Longrightarrow> LogAndUpdateLosses p cb = Inr cb"
  by (auto simp: LogAndUpdateLosses_def counted_def split: option.split)

lemma LogAndUpdateLosses_abs:
  assumes rel: "abs_rel w cb S" and w: "0 < w" and c: "counted p"
    and small: "unat (GetSeqno (rx_header p)) < 2 ^ 63"
  shows "\<exists>cb'. LogAndUpdateLosses p cb = Inr cb'
    \<and> abs_rel w cb' (loss_step w S (unat (GetSeqno (rx_header p)))) \<and> rx_byte_count cb' = rx_byte_count cb"
proof -
  let ?s = "GetSeqno (rx_header p)"
  have fp: "pl_fp cb = Some (losses S)" and max: "n_pl_heap_max_sz cb = w"
    and len: "length (pl_heap cb) = size (window S)" and le: "size (window S) \<le> w"
    using rel by (auto simp: abs_rel_def) (metis size_image_mset size_mset)
  have run: "LogAndUpdateLosses p cb = bindE (pop_if_full (losses S) cb) (\<lambda>cb'. Inr (push_seqno ?s cb'))"
    using fp max len le c by (simp add: LogAndUpdateLosses_def counted_def)
  show ?thesis
  proof (cases "size (window S) = w")
    case True
    from pop_if_full_abs [OF rel True w] obtain cb' where
      cb': "pop_if_full (losses S) cb = Inr cb'" "rx_byte_count cb' = rx_byte_count cb"
      "abs_rel w cb' \<lparr>window = window S - {#Min_mset (window S)#},
        largest = max (largest S) (int (Min_mset (window S))),
        losses = losses S @ check_popped (int (Min_mset (window S))) (largest S)\<rparr>" by blast
    have "window S \<noteq> {#}" using True w by auto
    then have "Min_mset (window S) \<in># window S" by simp
    then have "size (window S - {#Min_mset (window S)#}) < w" using True w by (simp add: size_Diff_singleton)
    from push_seqno_abs [OF cb'(3) _ small] this cb' run True show ?thesis
      by (auto simp: loss_step_def Let_def push_seqno_def)
  next
    case False
    then have "pop_if_full (losses S) cb = Inr cb" using max len by (simp add: pop_if_full_def)
    moreover have "abs_rel w (push_seqno ?s cb) (S\<lparr>window := add_mset (unat ?s) (window S)\<rparr>)"
      using False le small by (intro push_seqno_abs [OF rel]) auto
    ultimately show ?thesis using False run by (simp add: loss_step_def push_seqno_def)
  qed
qed

lemma abs_rel_bytes [simp]: "abs_rel w (LogAndUpdateByteCounts t p cb) S = abs_rel w cb S"
  by (simp add: abs_rel_def LogAndUpdateByteCounts_def Let_def)

definition bytes_received :: "(u64 \<times> rx_pkt) list \<Rightarrow> int" where
  "bytes_received pkts = (\<Sum>(t, p)\<leftarrow>pkts. int (unat (rx_size p)))"

lemma rx_run_snoc: "rx_run cb (pkts @ [(t, p)]) = bindE (rx_run cb pkts) (rxCb t p)"
  by (simp add: rx_run_def foldE_append)

lemma seqnos_snoc:
  "seqnos (pkts @ [(t, p)]) = seqnos pkts @ (if counted p then [unat (GetSeqno (rx_header p))] else [])"
  by (simp add: seqnos_def)

lemma rx_run_abs:
  assumes w: "0 < w" and small: "\<forall>s \<in> set (seqnos pkts). s < 2 ^ 63"
  shows "\<exists>cb. rx_run (AppRxCb_make True w) pkts = Inr cb \<and> abs_rel w cb (loss_machine w (seqnos pkts))
    \<and> rx_byte_count cb = bytes_received pkts"
  using small
proof (induction pkts rule: rev_induct)
  case Nil
  show ?case
    by (simp add: rx_run_def abs_rel_def AppRxCb_make_def seqnos_def loss_machine_Nil bytes_received_def is_heap_def)
next
  case (snoc tp pkts)
  obtain t p where tp: "tp = (t, p)" by fastforce
  from snoc obtain cb where
    IH: "rx_run (AppRxCb_make True w) pkts = Inr cb" "abs_rel w cb (loss_machine w (seqnos pkts))"
      "rx_byte_count cb = bytes_received pkts"
    by (auto simp: tp seqnos_snoc)
  let ?cb = "LogAndUpdateByteCounts t p cb"
  have bytes: "rx_byte_count ?cb = bytes_received (pkts @ [tp])"
    using IH(3) by (simp add: tp bytes_received_def LogAndUpdateByteCounts_def Let_def)
  have rel: "abs_rel w ?cb (loss_machine w (seqnos pkts))" using IH(2) by simp
  show ?case
  proof (cases "counted p")
    case True
    with snoc.prems have "unat (GetSeqno (rx_header p)) < 2 ^ 63" by (simp add: tp seqnos_snoc)
    from LogAndUpdateLosses_abs [OF rel w True this] bytes IH(1) True show ?thesis
      by (auto simp: tp rx_run_snoc rxCb_def seqnos_snoc loss_machine_snoc)
  next
    case False
    with rel bytes IH(1) show ?thesis
      by (simp add: tp rx_run_snoc rxCb_def seqnos_snoc LogAndUpdateLosses_skip)
  qed
qed

section \<open>What the loss log reports\<close>

lemma window_min:
  assumes "k \<in> set ss" "\<forall>s \<in> set ss. P s \<longrightarrow> k \<le> s" "P k"
  shows "Min_mset (mset (filter P ss)) = k"
  using assms by (intro Min_eqI) auto

lemma filter_remove_least:
  assumes "distinct ss" "k \<in> set ss"
  shows "mset (filter (\<lambda>s. k \<le> s) ss) - {#k#} = mset (filter (\<lambda>s. Suc k \<le> s) ss)"
proof (rule multiset_eqI)
  fix x
  have "count (mset ss) x \<le> 1" using assms(1) by (simp add: distinct_count_atmost_1)
  then show "count (mset (filter (\<lambda>s. k \<le> s) ss) - {#k#}) x = count (mset (filter (\<lambda>s. Suc k \<le> s) ss)) x"
    using assms by (cases "x = k") (auto simp: distinct_count_atmost_1)
qed

text \<open>Number \<open>k\<close> has arrived when the \<open>k\<close>-th number is checked, that is, before \<open>k + w\<close> others.\<close>

definition in_window :: "nat \<Rightarrow> nat list \<Rightarrow> bool" where
  "in_window w ss \<longleftrightarrow> (\<forall>k. k + w < length ss \<longrightarrow> {0..k} \<subseteq> set (take (k + w) ss))"

lemma window_full:
  assumes "distinct ss" and "w \<le> length ss" and "{0..length ss - w} \<subseteq> set ss"
  shows "Min_mset (mset (filter (\<lambda>s. length ss - w \<le> s) ss)) = length ss - w"
    and "length (filter (\<lambda>s. length ss - w \<le> s) ss) = w"
proof -
  let ?k = "length ss - w"
  show "Min_mset (mset (filter (\<lambda>s. ?k \<le> s) ss)) = ?k" using assms(3) by (intro window_min) auto
  have "set (filter (\<lambda>s. s < ?k) ss) = {0..<?k}" using assms(3) by auto
  then have "length (filter (\<lambda>s. s < ?k) ss) = ?k"
    using assms(1) by (metis card_atLeastLessThan diff_zero distinct_card distinct_filter)
  then show "length (filter (\<lambda>s. ?k \<le> s) ss) = w"
    using sum_length_filter_compl [of "\<lambda>s. s < ?k" ss] assms(2) by (simp add: not_less)
qed

lemma in_window_snoc: "in_window w (ss @ [s]) \<Longrightarrow> in_window w ss"
  unfolding in_window_def
proof (intro allI impI)
  fix k
  assume "\<forall>k. k + w < length (ss @ [s]) \<longrightarrow> {0..k} \<subseteq> set (take (k + w) (ss @ [s]))" and "k + w < length ss"
  then have "{0..k} \<subseteq> set (take (k + w) (ss @ [s]))" by simp
  with \<open>k + w < length ss\<close> show "{0..k} \<subseteq> set (take (k + w) ss)" by simp
qed

lemma in_window_silent:
  assumes "0 < w" "distinct ss" "in_window w ss"
  shows "loss_machine w ss = \<lparr>window = mset (filter (\<lambda>s. length ss - w \<le> s) ss),
    largest = int (length ss - w) - 1, losses = []\<rparr>"
  using assms(2,3)
proof (induction ss rule: rev_induct)
  case Nil
  then show ?case by (simp add: loss_machine_Nil)
next
  case (snoc s ss)
  let ?k = "length ss - w"
  have IH: "loss_machine w ss = \<lparr>window = mset (filter (\<lambda>s. ?k \<le> s) ss), largest = int ?k - 1, losses = []\<rparr>"
    using snoc in_window_snoc by simp
  show ?case
  proof (cases "w \<le> length ss")
    case False
    then have "size (mset (filter (\<lambda>s. ?k \<le> s) ss)) \<noteq> w"
      using length_filter_le [of "\<lambda>s. ?k \<le> s" ss] by (auto simp del: length_filter_le)
    with False IH show ?thesis by (simp add: loss_machine_snoc loss_step_def)
  next
    case True
    then have all: "{0..?k} \<subseteq> set ss" using snoc.prems(2) [unfolded in_window_def, rule_format, of ?k] by simp
    have dist: "distinct ss" and new: "s \<notin> set ss" using snoc.prems(1) by auto
    have kin: "?k \<in> set ss" using all by auto
    have "Suc ?k \<le> s" using new all by (metis atLeastAtMost_iff not_less_eq_eq subsetD zero_le)
    moreover have "size (mset (filter (\<lambda>s. ?k \<le> s) ss)) = w" by (simp only: size_mset window_full [OF dist True all])
    ultimately show ?thesis
      using IH window_full(1) [OF dist True all] True filter_remove_least [OF dist kin]
      by (simp add: loss_machine_snoc loss_step_def Let_def check_popped_def Suc_diff_le)
  qed
qed

text \<open>Packets that arrive in order: what is reported is what is missing.\<close>

fun lost_numbers :: "loss_event \<Rightarrow> int set" where
  "lost_numbers (LostRange a b) = {a..b}"
| "lost_numbers _ = {}"

definition all_lost :: "loss_event list \<Rightarrow> int set" where
  "all_lost es = (\<Union>e \<in> set es. lost_numbers e)"

lemma all_lost_append [simp]: "all_lost (xs @ ys) = all_lost xs \<union> all_lost ys"
  by (simp add: all_lost_def)

lemma strict_drop_min:
  "sorted_wrt (<) ss \<Longrightarrow> k < length ss \<Longrightarrow> Min_mset (mset (drop k ss)) = (ss ! k :: nat)"
proof (rule Min_eqI)
  assume srt: "sorted_wrt (<) ss" and k: "k < length ss"
  then have drop: "drop k ss = ss ! k # drop (Suc k) ss" by (simp add: Cons_nth_drop_Suc)
  with sorted_wrt_drop [OF srt, of k] show "ss ! k \<le> y" if "y \<in># mset (drop k ss)" for y
    using that by (auto simp: less_imp_le)
  show "ss ! k \<in># mset (drop k ss)" using drop by simp
qed simp

lemma gap_union:
  fixes l v :: int
  assumes "l < v" "-1 \<le> l" "\<forall>x \<in> A. x \<le> l"
  shows "({0..l} - A) \<union> {l + 1..v - 1} = {0..v} - insert v A"
  using assms by auto

lemma check_popped_above:
  "l < v \<Longrightarrow> all_lost (check_popped v l) = {l + 1..v - 1} \<and> (\<forall>e \<in> set (check_popped v l). \<exists>a b. e = LostRange a b)"
  by (auto simp: check_popped_def all_lost_def)

definition reported :: "nat \<Rightarrow> nat list \<Rightarrow> loss_state \<Rightarrow> bool" where
  "reported k ss S \<longleftrightarrow> window S = mset (drop k ss) \<and> largest S = (if k = 0 then -1 else int (ss ! (k - 1)))
     \<and> (\<forall>e \<in> set (losses S). \<exists>a b. e = LostRange a b)
     \<and> all_lost (losses S) = {0..largest S} - int ` set (take k ss)"

lemma reported_step:
  assumes srt: "sorted_wrt (<) ss" and k: "k < length ss" and r: "reported k ss S"
  shows "reported (Suc k) (ss @ [s]) \<lparr>window = mset (drop (Suc k) (ss @ [s])), largest = int (ss ! k),
      losses = losses S @ check_popped (int (ss ! k)) (largest S)\<rparr>"
    and "largest S < int (ss ! k)"
proof -
  note r' = r [unfolded reported_def]
  show below: "largest S < int (ss ! k)"
    using r' srt k by (cases "k = 0") (auto simp: sorted_wrt_iff_nth_less)
  have take: "set (take (Suc k) ss) = insert (ss ! k) (set (take k ss))"
    using k by (simp add: take_Suc_conv_app_nth)
  have taken: "\<forall>x \<in> set (take k ss). int x \<le> largest S"
  proof
    fix x
    assume "x \<in> set (take k ss)"
    then obtain i where "i < k" "x = ss ! i" using k by (auto simp: in_set_conv_nth)
    then show "int x \<le> largest S"
      using r' srt k by (cases "i = k - 1") (auto simp: sorted_wrt_iff_nth_less intro: less_imp_le)
  qed
  have "-1 \<le> largest S" using r' by auto
  from gap_union [OF below this, of "int ` set (take k ss)"] taken
  have "all_lost (losses S @ check_popped (int (ss ! k)) (largest S)) = {0..int (ss ! k)} - int ` set (take (Suc k) ss)"
    unfolding take image_insert using r' check_popped_above [OF below] by simp
  moreover have "\<forall>e \<in> set (losses S @ check_popped (int (ss ! k)) (largest S)). \<exists>a b. e = LostRange a b"
    using r' check_popped_above [OF below] by auto
  moreover have "take (Suc k) (ss @ [s]) = take (Suc k) ss" "(ss @ [s]) ! k = ss ! k"
    using k by (auto simp: nth_append)
  ultimately show "reported (Suc k) (ss @ [s]) \<lparr>window = mset (drop (Suc k) (ss @ [s])), largest = int (ss ! k),
      losses = losses S @ check_popped (int (ss ! k)) (largest S)\<rparr>"
    by (simp add: reported_def)
qed

lemma increasing_reported:
  assumes "0 < w" "sorted_wrt (<) ss"
  shows "reported (length ss - w) ss (loss_machine w ss)"
  using assms(2)
proof (induction ss rule: rev_induct)
  case Nil
  then show ?case by (simp add: loss_machine_Nil all_lost_def reported_def)
next
  case (snoc s ss)
  let ?k = "length ss - w" and ?S = "loss_machine w ss"
  have srt: "sorted_wrt (<) ss" using snoc.prems by (simp add: sorted_wrt_append)
  note IH = snoc.IH [OF srt] and IH' = snoc.IH [OF srt, unfolded reported_def]
  show ?case
  proof (cases "w \<le> length ss")
    case False
    then have "size (window ?S) \<noteq> w" using IH' by simp
    with False IH' show ?thesis by (simp add: loss_machine_snoc loss_step_def reported_def)
  next
    case True
    then have klt: "?k < length ss" using assms(1) by simp
    have "size (window ?S) = w" "Min_mset (window ?S) = ss ! ?k" "drop ?k ss = ss ! ?k # drop (Suc ?k) ss"
      using IH' True strict_drop_min [OF srt klt] klt by (simp_all add: Cons_nth_drop_Suc)
    with IH' reported_step(2) [OF srt klt IH] klt
    have "loss_machine w (ss @ [s]) = \<lparr>window = mset (drop (Suc ?k) (ss @ [s])), largest = int (ss ! ?k),
        losses = losses ?S @ check_popped (int (ss ! ?k)) (largest ?S)\<rparr>"
      by (simp add: loss_machine_snoc loss_step_def Let_def)
    with reported_step(1) [OF srt klt IH, of s] True show ?thesis by (simp add: Suc_diff_le)
  qed
qed

lemmas increasing_losses = increasing_reported [unfolded reported_def]

text \<open>
  C11. The heap of \<open>AppRxCb\<close> is invisible. For a positive window and sequence numbers below
  \<open>2 ^ 63\<close>, no packet trips the assertion, the byte count is the sum of the packet sizes, and the
  loss file is the log of the multiset machine run on the sequence numbers of the valid packets:
  the smallest number of a full window is checked against the largest number already checked.
\<close>

theorem loss_log_refines_window:
  assumes "0 < w" and "\<forall>s \<in> set (seqnos pkts). s < 2 ^ 63"
  shows "\<exists>cb. rx_run (AppRxCb_make True w) pkts = Inr cb
    \<and> rx_byte_count cb = bytes_received pkts
    \<and> pl_fp cb = Some (losses (loss_machine w (seqnos pkts)))
    \<and> pl_largest_popped cb = largest (loss_machine w (seqnos pkts))"
  using rx_run_abs [OF assms] by (auto simp: abs_rel_def)

definition seq_packet :: "nat \<Rightarrow> u64 \<times> rx_pkt" where
  "seq_packet s = (of_nat s, \<lparr>rx_size = 1000, rx_header = RqHeader_make (of_nat s) (- 1) 0 []\<rparr>)"

lemma example_seqnos: "seqnos (map seq_packet [0, 1, 4, 3, 4, 7]) = [0, 1, 4, 3, 4, 7]"
  by code_simp

theorem loss_log_refines_window_witness:
  "\<exists>cb. rx_run (AppRxCb_make True 2) (map seq_packet [0, 1, 4, 3, 4, 7]) = Inr cb
     \<and> pl_fp cb = Some [LostRange 2 2]
     \<and> pl_fp cb = Some (losses (loss_machine 2 [0, 1, 4, 3, 4, 7]))"
proof -
  have "losses (loss_machine 2 [0, 1, 4, 3, 4, 7]) = [LostRange 2 2]"
    by (simp add: loss_machine_def loss_step_def Let_def check_popped_def)
  with loss_log_refines_window [of 2 "map seq_packet [0, 1, 4, 3, 4, 7]"] example_seqnos
  show ?thesis by auto
qed

text \<open>
  C34. Reordering within the window is not loss. If all numbers arrive once and number \<open>k\<close> and
  its predecessors arrive among the first \<open>k + w\<close> packets, the loss file stays empty, and the
  numbers checked are exactly those before the last \<open>w\<close>.
\<close>

theorem reordering_in_window_unreported:
  assumes "0 < w" and "distinct (seqnos pkts)" and "in_window w (seqnos pkts)"
    and "\<forall>s \<in> set (seqnos pkts). s < 2 ^ 63"
  shows "\<exists>cb. rx_run (AppRxCb_make True w) pkts = Inr cb \<and> pl_fp cb = Some []
    \<and> pl_largest_popped cb = int (length (seqnos pkts) - w) - 1"
  using rx_run_abs [OF assms(1,4)] in_window_silent [OF assms(1-3)] by (auto simp: abs_rel_def)

theorem reordering_in_window_unreported_witness:
  "\<exists>cb. rx_run (AppRxCb_make True 2) (map seq_packet [1, 0, 3, 2]) = Inr cb
     \<and> pl_fp cb = Some [] \<and> pl_largest_popped cb = 1"
proof -
  have ss: "seqnos (map seq_packet [1, 0, 3, 2]) = [1, 0, 3, 2]" by code_simp
  have "in_window 2 [1, 0, 3, 2]"
    unfolding in_window_def
  proof (intro allI impI)
    fix k :: nat
    assume "k + 2 < length [1, 0, 3, 2 :: nat]"
    then have "k = 0 \<or> k = 1" by auto
    then show "{0..k} \<subseteq> set (take (k + 2) [1, 0, 3, 2])" by auto
  qed
  with reordering_in_window_unreported [of 2 "map seq_packet [1, 0, 3, 2]"] ss show ?thesis by auto
qed

lemma increasing_run:
  assumes "0 < w" and "sorted_wrt (<) (seqnos pkts)" and "\<forall>s \<in> set (seqnos pkts). s < 2 ^ 63"
  shows "\<exists>cb es. rx_run (AppRxCb_make True w) pkts = Inr cb \<and> pl_fp cb = Some es
    \<and> (\<forall>e \<in> set es. \<exists>a b. e = LostRange a b)
    \<and> all_lost es = {0..pl_largest_popped cb} - int ` set (seqnos pkts)
    \<and> pl_largest_popped cb = (if length (seqnos pkts) \<le> w then -1 else int (seqnos pkts ! (length (seqnos pkts) - w - 1)))"
proof -
  let ?ss = "seqnos pkts" and ?k = "length (seqnos pkts) - w"
  obtain cb where cb: "rx_run (AppRxCb_make True w) pkts = Inr cb" "abs_rel w cb (loss_machine w ?ss)"
    using rx_run_abs [OF assms(1,3)] by blast
  note inc = increasing_losses [OF assms(1,2)]
  have "{0..largest (loss_machine w ?ss)} \<inter> int ` set (drop ?k ?ss) = {}"
  proof (cases "?k = 0")
    case False
    then have "\<forall>x \<in> set (drop ?k ?ss). ?ss ! (?k - 1) < x"
      using assms(2) by (auto simp: in_set_conv_nth sorted_wrt_iff_nth_less)
    with False inc show ?thesis by auto
  qed (use inc in auto)
  moreover have "set ?ss = set (take ?k ?ss) \<union> set (drop ?k ?ss)" by (metis append_take_drop_id set_append)
  ultimately have "{0..largest (loss_machine w ?ss)} - int ` set ?ss
      = {0..largest (loss_machine w ?ss)} - int ` set (take ?k ?ss)" by auto
  with cb inc show ?thesis by (auto simp: abs_rel_def)
qed

text \<open>
  C21. Losses are reported exactly. If the numbers arrive in increasing order, the loss file holds
  only \<open>lost_range\<close> lines, and the numbers in their ranges are precisely the numbers up to the
  largest one checked that did not arrive; all but the last \<open>w\<close> packets have been checked.
\<close>

theorem losses_reported_exactly:
  assumes "0 < w" and "sorted_wrt (<) (seqnos pkts)" and "\<forall>s \<in> set (seqnos pkts). s < 2 ^ 63"
  shows "\<exists>cb es. rx_run (AppRxCb_make True w) pkts = Inr cb \<and> pl_fp cb = Some es
    \<and> (\<forall>e \<in> set es. \<exists>a b. e = LostRange a b)
    \<and> all_lost es = {0..pl_largest_popped cb} - int ` set (seqnos pkts)
    \<and> pl_largest_popped cb = (if length (seqnos pkts) \<le> w then -1 else int (seqnos pkts ! (length (seqnos pkts) - w - 1)))"
  by (rule increasing_run [OF assms])

theorem losses_reported_exactly_witness:
  "\<exists>cb es. rx_run (AppRxCb_make True 2) (map seq_packet [0, 3, 4, 5]) = Inr cb \<and> pl_fp cb = Some es
     \<and> all_lost es = {0..pl_largest_popped cb} - {0, 3, 4, 5}"
proof -
  have ss: "seqnos (map seq_packet [0, 3, 4, 5]) = [0, 3, 4, 5]" by code_simp
  have "sorted_wrt (<) (seqnos (map seq_packet [0, 3, 4, 5]))" "\<forall>s \<in> set (seqnos (map seq_packet [0, 3, 4, 5])). s < 2 ^ 63"
    unfolding ss by simp_all
  from losses_reported_exactly [OF _ this, of 2] obtain cb es where
    "rx_run (AppRxCb_make True 2) (map seq_packet [0, 3, 4, 5]) = Inr cb" "pl_fp cb = Some es"
    "all_lost es = {0..pl_largest_popped cb} - int ` set [0, 3, 4, 5 :: nat]"
    unfolding ss by auto
  then show ?thesis by (intro exI conjI) auto
qed

end
