(* ===== verification/Trace_Files.thy ===== *)
theory Trace_Files
  imports Stream_Path Decoding_Log App_Rx_Cb
begin

text \<open>
  What the trace files of a coded connection say: encoder, proxies, decoder and both trace sinks
  together. \<open>AppsManager\<close> connects an \<open>AppRxCb\<close> to the \<open>Rx\<close> trace of a decoder and an \<open>AppRqDecCb\<close> to its
  \<open>RqDecodingEvent\<close> trace, so the loss file and the decoding log are functions of the packets that the
  path has delivered.
\<close>

section \<open>The packets of the \<open>Rx\<close> trace\<close>

fun rx_traced :: "dec_event list \<Rightarrow> rx_packet list" where
  "rx_traced [] = []"
| "rx_traced (RxTrace p # evs) = p # rx_traced evs"
| "rx_traced (_ # evs) = rx_traced evs"

lemma rx_traced_append [simp]: "rx_traced (xs @ ys) = rx_traced xs @ rx_traced ys"
  by (induction xs rule: rx_traced.induct) auto

lemma process_symbol_untraced: "process_symbol esi h d = Inr (d', evs) \<Longrightarrow> rx_traced evs = []"
  by (auto simp: process_symbol_def try_decode_def Let_def split: if_splits)

lemma receive_packet_traced: "receive_packet d p = Inr (d', evs) \<Longrightarrow> rx_traced evs = [p]"
  by (auto simp: receive_packet_def Let_def advance_block_def dest!: process_symbol_untraced split: if_splits prod.splits)

lemma receive_all_traced: "receive_all d pkts = Inr (d', evs) \<Longrightarrow> rx_traced evs = pkts"
proof (induction pkts arbitrary: d' evs rule: rev_induct)
  case Nil
  then show ?case by (simp add: receive_all_def)
next
  case (snoc p pkts)
  then show ?case by (auto simp: receive_all_snoc dest: receive_packet_traced)
qed

text \<open>The callback is given the packet with its header, so it is at least as large as the header.\<close>

definition as_traced :: "u64 \<times> rx_pkt \<Rightarrow> rx_packet \<Rightarrow> bool" where
  "as_traced tp p \<longleftrightarrow> rx_header (snd tp) = snd p \<and> fst p \<le> rx_size (snd tp)"

lemma traced_seqnos:
  assumes "list_all2 as_traced pkts (wire_packets (map (packet_header N K n \<Sigma>) ms))" and "n \<le> 8" and "\<forall>m \<in> set ms. m < 2 ^ 31"
  shows "seqnos pkts = ms"
  using assms(1,3)
proof (induction ms arbitrary: pkts)
  case Nil
  then show ?case by (simp add: wire_packets_def seqnos_def)
next
  case (Cons m ms)
  then obtain tp pkts' where p: "pkts = tp # pkts'" "as_traced tp (GetSerializedSize (packet_header N K n \<Sigma> m), packet_header N K n \<Sigma> m)"
    "list_all2 as_traced pkts' (wire_packets (map (packet_header N K n \<Sigma>) ms))"
    by (auto simp: wire_packets_def list_all2_Cons2)
  have "GetMinSerializedSize \<le> rx_size (snd tp)"
    using p(2) peek_size [OF assms(2), of N K \<Sigma> m] by (auto simp: as_traced_def)
  moreover have "unat (of_nat m :: u64) = m" using Cons.prems(2) by (simp add: unat_of_nat_small)
  ultimately show ?case using p(2) Cons.IH [OF p(3)] Cons.prems(2)
    by (simp add: p(1) seqnos_def counted_def as_traced_def packet_header_def block_header_def not_less)
qed

section \<open>The files of a coded connection\<close>

text \<open>
  C2. The trace files tell what happened. Packets of a run of a fresh encoder travel over any number of
  timed proxies and lossy links to a fresh decoder, and \<open>ks\<close> are the numbers of those that arrive. The
  decoder accepts them all; its decoding log has exactly the lines that the numbers \<open>ks\<close> give; and the
  loss file of its \<open>Rx\<close> trace holds only lost ranges, which are precisely the numbers that did not
  arrive, up to the largest one checked: the \<open>w\<close> packets before the last are still in the window.
\<close>

theorem coded_trace_files:
  assumes "enc_abs e []" and "enc_seq e = 0" and "enc_run envs e = Inr (e', evs)" and "length envs < 2 ^ 31"
    and "dec_config N K (e_nRxSlots e) d" and "d_sbid d < 0" and "N = unat (e_rqnval e)" and "K = unat (e_rqkval e)"
    and "relayed duration ps [0..<length (sent_headers evs)] ks" and "0 < w"
  shows "\<exists>d' devs. receive_all d (wire_packets (map ((!) (sent_headers evs)) ks)) = Inr (d', devs)
    \<and> dec_log uninit (decode_infos devs) = log_file N K ks
    \<and> (\<forall>pkts. list_all2 as_traced pkts (rx_traced devs) \<longrightarrow>
        (\<exists>cb es. rx_run (AppRxCb_make True w) pkts = Inr cb \<and> pl_fp cb = Some es
          \<and> (\<forall>e \<in> set es. \<exists>a b. e = LostRange a b) \<and> all_lost es = {0..pl_largest_popped cb} - int ` set ks
          \<and> pl_largest_popped cb = (if length ks \<le> w then -1 else int (ks ! (length ks - w - 1)))))"
proof -
  let ?hs = "sent_headers evs"
  obtain \<Sigma> where ok: "\<And>b. block_ok K (e_nRxSlots e) (\<Sigma> b)"
    and hs: "?hs = map (packet_header N K (e_nRxSlots e) \<Sigma>) [0..<length ?hs]" and len: "length ?hs < 2 ^ 31"
    using encoder_packets [OF assms(1-4)] assms(5) unfolding assms(7,8) by blast
  from relayed_subseq [OF assms(9)] obtain I where ks: "ks = nths [0..<length ?hs] I" by (auto simp: subseq_conv_nths)
  have srt: "sorted_wrt (<) ks" by (simp add: ks strict_sorted_iff sorted_nths)
  have sub: "set ks \<subseteq> {..<length ?hs}" using set_nths_subset [of "[0..<length ?hs]" I] by (auto simp: ks)
  have small: "\<forall>k \<in> set ks. k < 2 ^ 31" using sub len by auto
  have hk: "map ((!) ?hs) ks = map (packet_header N K (e_nRxSlots e) \<Sigma>) ks"
    using sub by (subst hs) auto
  from receive_all_inv [where \<Sigma> = \<Sigma>, OF assms(5,6) ok srt small] obtain d' devs where
    r: "receive_all d (wire_packets (map (packet_header N K (e_nRxSlots e) \<Sigma>) ks)) = Inr (d', devs)" by blast
  from receive_all_log [where \<Sigma> = \<Sigma>, OF assms(5,6) ok srt small r]
  have log: "dec_log uninit (decode_infos devs) = log_file N K ks" by (simp add: log_inv_def dec_log_keys log_file_def)
  have n: "e_nRxSlots e \<le> 8" using assms(5) by (simp add: dec_config_def)
  have seq: "seqnos pkts = ks" if "list_all2 as_traced pkts (rx_traced devs)" for pkts
    using traced_seqnos [OF _ n small] that receive_all_traced [OF r] by simp
  have "\<exists>cb es. rx_run (AppRxCb_make True w) pkts = Inr cb \<and> pl_fp cb = Some es
      \<and> (\<forall>e \<in> set es. \<exists>a b. e = LostRange a b) \<and> all_lost es = {0..pl_largest_popped cb} - int ` set ks
      \<and> pl_largest_popped cb = (if length ks \<le> w then -1 else int (ks ! (length ks - w - 1)))"
    if "list_all2 as_traced pkts (rx_traced devs)" for pkts
    using increasing_run [OF assms(10), of pkts] srt small unfolding seq [OF that] by fastforce
  with r log show ?thesis unfolding hk by blast
qed

theorem coded_trace_files_witness:
  "\<exists>e' evs d' devs pkts cb es. enc_run (replicate 4 example_enc_env) example_encoder = Inr (e', evs)
     \<and> receive_all example_decoder (wire_packets (map ((!) (sent_headers evs)) [0, 2, 3])) = Inr (d', devs)
     \<and> dec_log (PopulateDecodeInfo example_decoder) (decode_infos devs) = [''0 1 2 1'' @ [CHR 0x0A]]
     \<and> list_all2 as_traced pkts (rx_traced devs) \<and> rx_run (AppRxCb_make True 1) pkts = Inr cb
     \<and> pl_fp cb = Some es \<and> all_lost es = {1}"
proof -
  have cfg: "unat (e_rqnval example_encoder) = 3" "unat (e_rqkval example_encoder) = 2" "e_nRxSlots example_encoder = 1"
    by (simp_all add: example_encoder_def)
  obtain e' evs where run: "enc_run (replicate 4 example_enc_env) example_encoder = Inr (e', evs)" "length (sent_headers evs) = 4"
    using example_run by (auto split: sum.splits dest: arg_cong [where f = length])
  have "subseq [0, 2, 3] [0..<4 :: nat]" by (simp add: upt_rec)
  then have rel: "relayed example_duration [] [0..<length (sent_headers evs)] [0, 2, 3]" using run(2) by (intro relayed.link) simp
  from coded_trace_files [OF _ _ run(1) _ _ _ refl refl rel, of example_decoder 1 "PopulateDecodeInfo example_decoder"] example_encoder_abs example_decoder_config(1,2)
  obtain d' devs where
    r: "receive_all example_decoder (wire_packets (map ((!) (sent_headers evs)) [0, 2, 3])) = Inr (d', devs)"
      "dec_log (PopulateDecodeInfo example_decoder) (decode_infos devs) = log_file 3 2 [0, 2, 3]"
    and files: "\<And>pkts. list_all2 as_traced pkts (rx_traced devs) \<Longrightarrow> \<exists>cb es. rx_run (AppRxCb_make True 1) pkts = Inr cb \<and> pl_fp cb = Some es
        \<and> all_lost es = {0..pl_largest_popped cb} - int ` set [0, 2, 3] \<and> pl_largest_popped cb = 2"
    unfolding cfg by fastforce
  let ?pkts = "map (\<lambda>(sz, h). (0, \<lparr>rx_size = sz, rx_header = h\<rparr>)) (rx_traced devs)"
  have t: "list_all2 as_traced ?pkts (rx_traced devs)" by (auto simp: list_all2_conv_all_nth as_traced_def split: prod.split)
  from files [OF t] obtain cb es where c: "rx_run (AppRxCb_make True 1) ?pkts = Inr cb" "pl_fp cb = Some es"
    "all_lost es = {0..2} - int ` set [0, 2, 3]" by auto
  have "{0..2} - int ` set [0, 2, 3] = {1}" by auto
  with c(3) have "all_lost es = {1}" by simp
  with r run(1) t c(1,2) example_log_file(1) show ?thesis by metis
qed

end
