(* ===== verification/Packet_Sink.thy ===== *)
theory Packet_Sink
  imports Ns3_Env
begin

text \<open>
  \<open>MeshSimPacketSink\<close>, \<open>ns3_apps/packet-sink.h\<close> and \<open>ns3_apps/packet-sink.cc\<close>: listens on one
  address, accepts connections, counts and traces what it receives.
\<close>

section \<open>State\<close>

record MeshSimPacketSink =
  ps_socket :: "sock option"
  ps_socketList :: "sock list"
  ps_local :: Address
  ps_totalRx :: u64
  ps_tid :: TypeId

definition init_PacketSink :: MeshSimPacketSink where
  "init_PacketSink = \<lparr>ps_socket = None, ps_socketList = [], ps_local = NoAddress, ps_totalRx = 0,
     ps_tid = ''ns3::UdpSocketFactory''\<rparr>"

definition PacketSink_attributes :: "attr_spec list" where
  "PacketSink_attributes =
     [(''Local'', AddressValue NoAddress, None),
      (''Protocol'', TypeIdValue ''ns3::UdpSocketFactory'', None)]"

definition PacketSink_trace_sources :: "string list" where
  "PacketSink_trace_sources = [''Rx'', ''RxWithAddresses'']"

datatype sink_cb = SinkHandleRead | SinkHandleAccept | SinkHandlePeerClose | SinkHandlePeerError

type_synonym sink_call = "sink_cb sock_call"

section \<open>Operations\<close>

definition Sink_GetTotalRx :: "MeshSimPacketSink \<Rightarrow> u64" where
  "Sink_GetTotalRx p = ps_totalRx p"

definition GetListeningSocket :: "MeshSimPacketSink \<Rightarrow> sock option" where
  "GetListeningSocket p = ps_socket p"

definition GetAcceptedSockets :: "MeshSimPacketSink \<Rightarrow> sock list" where
  "GetAcceptedSockets p = ps_socketList p"

definition Sink_DoDispose :: "MeshSimPacketSink \<Rightarrow> MeshSimPacketSink" where
  "Sink_DoDispose p = p\<lparr>ps_socket := None, ps_socketList := []\<rparr>"

definition create_listener ::
  "sock_env \<Rightarrow> MeshSimPacketSink \<Rightarrow> fault + (MeshSimPacketSink \<times> sink_call list)" where
  "create_listener env p =
     (let s = new_sock env 0
      in if bind_result env 0 = -1 then Inl (FatalError ''Failed to bind socket'')
         else if is_multicast env (ps_local p)
         then if is_udp env 0
              then Inr (p\<lparr>ps_socket := Some s\<rparr>,
                     [CreateSocket (ps_tid p) s, Bind s (ps_local p), Listen s, MulticastJoinGroup s (ps_local p)])
              else Inl (FatalError ''Error: joining multicast on a non-UDP socket'')
         else Inr (p\<lparr>ps_socket := Some s\<rparr>, [CreateSocket (ps_tid p) s, Bind s (ps_local p), Listen s]))"

definition sink_callbacks :: "sock \<Rightarrow> sink_call list" where
  "sink_callbacks s =
     [SetRecvCallback s (Some SinkHandleRead),
      SetAcceptCallback s None (Some SinkHandleAccept),
      SetCloseCallbacks s SinkHandlePeerClose SinkHandlePeerError]"

definition Sink_StartApplication ::
  "sock_env \<Rightarrow> MeshSimPacketSink \<Rightarrow> fault + (MeshSimPacketSink \<times> sink_call list)" where
  "Sink_StartApplication env p =
     bindE (case ps_socket p of Some s \<Rightarrow> Inr (p, []) | None \<Rightarrow> create_listener env p) (\<lambda>(p', cs).
       case ps_socket p' of None \<Rightarrow> Inl NullPointer
       | Some s \<Rightarrow> Inr (p', cs @ sink_callbacks s))"

definition Sink_StopApplication :: "MeshSimPacketSink \<Rightarrow> MeshSimPacketSink \<times> sink_call list" where
  "Sink_StopApplication p =
     (p\<lparr>ps_socketList := []\<rparr>,
      map Close (ps_socketList p)
      @ (case ps_socket p of None \<Rightarrow> [] | Some s \<Rightarrow> [Close s, SetRecvCallback s None]))"

text \<open>The loop stops at the first empty packet, which is the end of a stream. A packet is its size
  and its source; the traced packets are returned.\<close>

fun Sink_HandleRead :: "(u32 \<times> Address) list \<Rightarrow> MeshSimPacketSink \<Rightarrow> MeshSimPacketSink \<times> (u32 \<times> Address) list" where
  "Sink_HandleRead [] p = (p, [])"
| "Sink_HandleRead (pkt # pkts) p =
     (if fst pkt = 0 then (p, [])
      else let (p', traced) = Sink_HandleRead pkts (p\<lparr>ps_totalRx := ps_totalRx p + ucast (fst pkt)\<rparr>)
        in (p', pkt # traced))"

definition Sink_HandlePeerClose :: "MeshSimPacketSink \<Rightarrow> MeshSimPacketSink" where
  "Sink_HandlePeerClose p = p"

definition Sink_HandlePeerError :: "MeshSimPacketSink \<Rightarrow> MeshSimPacketSink" where
  "Sink_HandlePeerError p = p"

definition Sink_HandleAccept :: "sock \<Rightarrow> MeshSimPacketSink \<Rightarrow> MeshSimPacketSink \<times> sink_call list" where
  "Sink_HandleAccept s p = (p\<lparr>ps_socketList := ps_socketList p @ [s]\<rparr>, [SetRecvCallback s (Some SinkHandleRead)])"

section \<open>Properties\<close>

lemma Sink_HandleRead_effect:
  "Sink_HandleRead pkts p =
     (p\<lparr>ps_totalRx := ps_totalRx p + (\<Sum>(sz, from)\<leftarrow>takeWhile (\<lambda>pkt. fst pkt \<noteq> 0) pkts. ucast sz)\<rparr>,
      takeWhile (\<lambda>pkt. fst pkt \<noteq> 0) pkts)"
  by (induction pkts p rule: Sink_HandleRead.induct) (auto simp: add.assoc)

definition sink_socks :: "MeshSimPacketSink \<Rightarrow> sock list" where
  "sink_socks p = ps_socketList p @ (case ps_socket p of None \<Rightarrow> [] | Some s \<Rightarrow> [s])"

text \<open>The life of a sink between two stops: connections accepted and packets read.\<close>

datatype sink_input = Accepted sock | Readable "(u32 \<times> Address) list"

fun sink_input_step :: "MeshSimPacketSink \<Rightarrow> sink_input \<Rightarrow> MeshSimPacketSink" where
  "sink_input_step p (Accepted s) = fst (Sink_HandleAccept s p)"
| "sink_input_step p (Readable pkts) = fst (Sink_HandleRead pkts p)"

fun accepted_by :: "sink_input list \<Rightarrow> sock list" where
  "accepted_by [] = []"
| "accepted_by (Accepted s # ins) = s # accepted_by ins"
| "accepted_by (Readable pkts # ins) = accepted_by ins"

fun bytes_read :: "sink_input list \<Rightarrow> u64" where
  "bytes_read [] = 0"
| "bytes_read (Accepted s # ins) = bytes_read ins"
| "bytes_read (Readable pkts # ins) = (\<Sum>(sz, from)\<leftarrow>takeWhile (\<lambda>pkt. fst pkt \<noteq> 0) pkts. ucast sz) + bytes_read ins"

lemma sink_inputs:
  "foldl sink_input_step p ins =
     p\<lparr>ps_totalRx := ps_totalRx p + bytes_read ins, ps_socketList := ps_socketList p @ accepted_by ins\<rparr>"
  by (induction ins arbitrary: p rule: bytes_read.induct)
    (simp_all add: Sink_HandleRead_effect Sink_HandleAccept_def add.assoc)

text \<open>
  C36. A packet sink counts what it reads and closes what it opened. After a successful start, any
  sequence of accepted connections and readable packets, and a stop: the byte count has grown by
  the sizes of the packets read before the end of each stream, the sockets closed are exactly the
  accepted ones and the listening socket, each once, and no accepted socket is kept.
\<close>

theorem sink_counts_and_closes:
  assumes "Sink_StartApplication env p = Inr (p1, cs)" and "ps_socketList p = []"
    and "Sink_StopApplication (foldl sink_input_step p1 ins) = (p2, cs2)"
  shows "Sink_GetTotalRx p2 = Sink_GetTotalRx p + bytes_read ins
    \<and> (\<exists>s. GetListeningSocket p1 = Some s \<and> closes cs2 = accepted_by ins @ [s])
    \<and> GetAcceptedSockets p2 = [] \<and> GetListeningSocket p2 = GetListeningSocket p1"
proof -
  obtain s where "ps_socket p1 = Some s" "ps_socketList p1 = []" "ps_totalRx p1 = ps_totalRx p"
    using assms(1,2)
    by (auto simp: Sink_StartApplication_def create_listener_def Let_def split: option.splits if_splits)
  with assms(3) show ?thesis
    by (auto simp: sink_inputs Sink_StopApplication_def Sink_GetTotalRx_def GetListeningSocket_def GetAcceptedSockets_def)
qed

definition example_sink_env :: sock_env where
  "example_sink_env = \<lparr>new_sock = (\<lambda>_. 3), bind_result = (\<lambda>_. 0), is_udp = (\<lambda>_. False), is_multicast = (\<lambda>_. False)\<rparr>"

theorem sink_counts_and_closes_witness:
  "Sink_GetTotalRx (fst (Sink_StopApplication (foldl sink_input_step (init_PacketSink\<lparr>ps_socket := Some 3\<rparr>)
     [Accepted 7, Readable [(100, NoAddress), (0, NoAddress), (5, NoAddress)]]))) = 100"
proof -
  let ?p1 = "init_PacketSink\<lparr>ps_socket := Some 3\<rparr>"
  let ?ins = "[Accepted 7, Readable [(100, NoAddress), (0, NoAddress), (5, NoAddress)]]"
  have "\<exists>cs. Sink_StartApplication example_sink_env init_PacketSink = Inr (?p1, cs)"
    by (simp add: Sink_StartApplication_def create_listener_def example_sink_env_def init_PacketSink_def Let_def)
  moreover obtain p2 cs2 where stop: "Sink_StopApplication (foldl sink_input_step ?p1 ?ins) = (p2, cs2)" by fastforce
  moreover have "ps_socketList init_PacketSink = []" by (simp add: init_PacketSink_def)
  ultimately have "Sink_GetTotalRx p2 = Sink_GetTotalRx init_PacketSink + bytes_read ?ins"
    using sink_counts_and_closes by blast
  then show ?thesis unfolding stop by (simp add: Sink_GetTotalRx_def init_PacketSink_def)
qed

end
