(* ===== verification/Bulk_Send.thy ===== *)
theory Bulk_Send
  imports Ns3_Env
begin

text \<open>
  \<open>MeshSimBulkSendApplication\<close>, \<open>ns3_apps/bulk-send-application.h\<close> and
  \<open>ns3_apps/bulk-send-application.cc\<close>: sends data over a stream socket as fast as the socket takes
  it, up to \<open>MaxBytes\<close>.

  What \<open>Send\<close> returns may differ at every call: the socket is a function from the number of the
  call and the offered size to the returned \<open>int\<close>, a 32-bit word read with \<open>sint\<close>.
\<close>

section \<open>State\<close>

record BulkSend =
  bs_socket :: "sock option"
  bs_peer :: Address
  bs_connected :: bool
  bs_sendSize :: u32
  bs_maxBytes :: u64
  bs_totBytes :: u64
  bs_tid :: TypeId

definition init_BulkSend :: BulkSend where
  "init_BulkSend = \<lparr>bs_socket = None, bs_peer = NoAddress, bs_connected = False, bs_sendSize = 512,
     bs_maxBytes = 0, bs_totBytes = 0, bs_tid = ''ns3::TcpSocketFactory''\<rparr>"

definition BulkSend_attributes :: "attr_spec list" where
  "BulkSend_attributes =
     [(''SendSize'', UintegerValue 512, Some 1),
      (''Remote'', AddressValue NoAddress, None),
      (''MaxBytes'', UintegerValue 0, Some 0),
      (''Protocol'', TypeIdValue ''ns3::TcpSocketFactory'', None)]"

definition BulkSend_trace_sources :: "string list" where
  "BulkSend_trace_sources = [''Tx'']"

datatype bulk_cb = BulkConnectionSucceeded | BulkConnectionFailed | BulkDataSend | BulkHandleRead

datatype bulk_event =
    BulkCall "bulk_cb sock_call"
  | BulkTx u64                       \<comment> \<open>size of a packet reported to the \<open>Tx\<close> trace\<close>

type_synonym send_fun = "nat \<Rightarrow> u64 \<Rightarrow> u32"

section \<open>Accessors\<close>

definition Bulk_SetMaxBytes :: "u64 \<Rightarrow> BulkSend \<Rightarrow> BulkSend" where
  "Bulk_SetMaxBytes maxBytes b = b\<lparr>bs_maxBytes := maxBytes\<rparr>"

definition Bulk_GetSocket :: "BulkSend \<Rightarrow> sock option" where
  "Bulk_GetSocket b = bs_socket b"

definition Bulk_DoDispose :: "BulkSend \<Rightarrow> BulkSend" where
  "Bulk_DoDispose b = b\<lparr>bs_socket := None\<rparr>"

section \<open>Sending\<close>

definition to_send :: "BulkSend \<Rightarrow> u64" where
  "to_send b = (let n = ucast (bs_sendSize b)
     in if bs_maxBytes b > 0 then min n (bs_maxBytes b - bs_totBytes b) else n)"

definition account :: "u32 \<Rightarrow> BulkSend \<Rightarrow> BulkSend" where
  "account actual b = (if sint actual > 0 then b\<lparr>bs_totBytes := bs_totBytes b + scast actual\<rparr> else b)"

text \<open>The \<open>while\<close> loop; it need not end when the number of bytes is not limited.\<close>

partial_function (option) send_loop ::
  "send_fun \<Rightarrow> nat \<Rightarrow> BulkSend \<Rightarrow> u64 list \<Rightarrow> (BulkSend \<times> u64 list) option" where
  "send_loop send k b sent =
     (if bs_maxBytes b = 0 \<or> bs_totBytes b < bs_maxBytes b
      then let n = to_send b; actual = send k n; b' = account actual b;
               sent' = (if sint actual > 0 then sent @ [n] else sent)
        in if ucast actual \<noteq> n then Some (b', sent') else send_loop send (Suc k) b' sent'
      else Some (b, sent))"

declare send_loop.simps [code]

definition SendData :: "send_fun \<Rightarrow> BulkSend \<Rightarrow> fault + (BulkSend \<times> bulk_event list)" where
  "SendData send b =
     (case bs_socket b of None \<Rightarrow> Inl NullPointer
      | Some s \<Rightarrow>
         (case send_loop send 0 b [] of None \<Rightarrow> Inl Diverges
          | Some (b', sent) \<Rightarrow>
              if bs_totBytes b' = bs_maxBytes b' \<and> bs_connected b'
              then Inr (b'\<lparr>bs_connected := False\<rparr>, map BulkTx sent @ [BulkCall (Close s)])
              else Inr (b', map BulkTx sent)))"

section \<open>Starting, stopping and callbacks\<close>

definition bulk_create_socket ::
  "sock_env \<Rightarrow> bool \<Rightarrow> BulkSend \<Rightarrow> fault + (BulkSend \<times> bulk_event list)" where
  "bulk_create_socket env stream b =
     (let s = new_sock env 0; a = bs_peer b
      in if \<not> stream
         then Inl (FatalError ''Using BulkSend with an incompatible socket type. BulkSend requires SOCK_STREAM or SOCK_SEQPACKET. In other words, use TCP instead of UDP.'')
         else if (is_inet6 a \<or> is_inet a) \<and> bind_result env 0 = -1
         then Inl (FatalError ''Failed to bind socket'')
         else Inr (b\<lparr>bs_socket := Some s\<rparr>,
           map BulkCall
             ([CreateSocket (bs_tid b) s]
              @ (if is_inet6 a then [Bind6 s] else if is_inet a then [BindAny s] else [])
              @ [Connect s a, SetConnectCallback s BulkConnectionSucceeded BulkConnectionFailed,
                 SetSendCallback s BulkDataSend, SetRecvCallback s (Some BulkHandleRead)])))"

definition Bulk_StartApplication ::
  "sock_env \<Rightarrow> bool \<Rightarrow> send_fun \<Rightarrow> BulkSend \<Rightarrow> fault + (BulkSend \<times> bulk_event list)" where
  "Bulk_StartApplication env stream send b =
     bindE (case bs_socket b of Some _ \<Rightarrow> Inr (b, []) | None \<Rightarrow> bulk_create_socket env stream b) (\<lambda>(b1, evs).
       if bs_connected b1 then bindE (SendData send b1) (\<lambda>(b2, evs'). Inr (b2, evs @ evs')) else Inr (b1, evs))"

definition Bulk_StopApplication :: "BulkSend \<Rightarrow> BulkSend \<times> bulk_event list" where
  "Bulk_StopApplication b =
     (case bs_socket b of None \<Rightarrow> (b, [])
      | Some s \<Rightarrow> (b\<lparr>bs_connected := False\<rparr>, [BulkCall (Close s)]))"

definition Bulk_ConnectionSucceeded :: "send_fun \<Rightarrow> BulkSend \<Rightarrow> fault + (BulkSend \<times> bulk_event list)" where
  "Bulk_ConnectionSucceeded send b = SendData send (b\<lparr>bs_connected := True\<rparr>)"

definition Bulk_ConnectionFailed :: "BulkSend \<Rightarrow> BulkSend" where
  "Bulk_ConnectionFailed b = b"

definition DataSend :: "send_fun \<Rightarrow> BulkSend \<Rightarrow> fault + (BulkSend \<times> bulk_event list)" where
  "DataSend send b = (if bs_connected b then SendData send b else Inr (b, []))"

definition Bulk_HandleRead :: "sock \<Rightarrow> bulk_event list" where
  "Bulk_HandleRead s = [BulkCall (Recv s)]"

section \<open>The limited sender\<close>

text \<open>A socket accepts at most what it is offered, or returns an error.\<close>

definition send_ok :: "send_fun \<Rightarrow> bool" where
  "send_ok send \<longleftrightarrow> (\<forall>k n. sint (send k n) \<le> int (unat n))"

definition bulk_ok :: "BulkSend \<Rightarrow> bool" where
  "bulk_ok b \<longleftrightarrow> 0 < unat (bs_sendSize b) \<and> unat (bs_sendSize b) < 2 ^ 31
     \<and> 0 < unat (bs_maxBytes b) \<and> unat (bs_totBytes b) \<le> unat (bs_maxBytes b)"

definition same_bulk :: "BulkSend \<Rightarrow> BulkSend \<Rightarrow> bool" where
  "same_bulk b b' \<longleftrightarrow> bs_sendSize b' = bs_sendSize b \<and> bs_maxBytes b' = bs_maxBytes b
     \<and> bs_socket b' = bs_socket b \<and> bs_connected b' = bs_connected b \<and> bs_peer b' = bs_peer b"

lemma to_send_limited:
  assumes "bulk_ok b"
  shows "unat (to_send b) = min (unat (bs_sendSize b)) (unat (bs_maxBytes b) - unat (bs_totBytes b))"
proof -
  have "bs_totBytes b \<le> bs_maxBytes b" "0 < bs_maxBytes b"
    using assms by (auto simp: bulk_ok_def word_le_nat_alt word_less_nat_alt)
  then show ?thesis
    by (auto simp: to_send_def Let_def min_def word_le_nat_alt unat_sub unat_ucast_u64)
qed

lemma account_limited:
  assumes ok: "bulk_ok b" and le: "sint a \<le> int (unat (to_send b))"
  shows "unat (bs_totBytes (account a b)) = unat (bs_totBytes b) + nat (sint a) \<and> bulk_ok (account a b)
    \<and> same_bulk b (account a b)"
proof (cases "0 < sint a")
  case True
  have s: "sint a = int (unat a)"
    using True by (intro sint_nonneg_u32) simp
  have acc: "account a b = b\<lparr>bs_totBytes := bs_totBytes b + ucast a\<rparr>"
    using True by (simp add: account_def scast_nonneg_u64)
  have "unat a \<le> unat (to_send b)" using le unfolding s by (simp only: of_nat_le_iff)
  then have "unat a \<le> unat (bs_maxBytes b) - unat (bs_totBytes b)" using to_send_limited [OF ok] by simp
  then have room: "unat (bs_totBytes b) + unat a \<le> unat (bs_maxBytes b)" using ok unfolding bulk_ok_def by linarith
  then have "unat (bs_totBytes b + ucast a) = unat (bs_totBytes b) + unat a"
    using unat_u64_bound [of "bs_maxBytes b"] by (subst unat_plus_u64) (simp_all add: unat_ucast_u64)
  with room ok s show ?thesis by (simp add: acc bulk_ok_def same_bulk_def)
next
  case False
  with ok show ?thesis by (simp add: account_def same_bulk_def)
qed

lemma same_bulk_trans: "same_bulk b b' \<Longrightarrow> same_bulk b' b'' \<Longrightarrow> same_bulk b b''"
  by (simp add: same_bulk_def)

lemma full_send:
  assumes ok: "bulk_ok b" and less: "unat (bs_totBytes b) < unat (bs_maxBytes b)" and full: "ucast (a :: u32) = to_send b"
  shows "sint a = int (unat (to_send b)) \<and> 0 < unat (to_send b)"
proof -
  have "unat a = unat (to_send b)" using full unat_ucast_u64 [of a] by simp
  moreover have "unat (to_send b) < 2 ^ 31" "0 < unat (to_send b)"
    using to_send_limited [OF ok] ok less by (auto simp: bulk_ok_def)
  ultimately show ?thesis by (simp add: sint_eq_unat_u32)
qed

lemma send_loop_limited:
  assumes "send_ok send" "bulk_ok b"
  shows "\<exists>b' sent'. send_loop send k b sent = Some (b', sent') \<and> bulk_ok b' \<and> same_bulk b b'
    \<and> unat (bs_totBytes b) \<le> unat (bs_totBytes b')
    \<and> (unat (bs_totBytes b') < unat (bs_maxBytes b') \<longrightarrow> (\<exists>j n. 0 < n \<and> unat n \<le> unat (bs_sendSize b) \<and> ucast (send j n) \<noteq> n))"
  using assms(2)
proof (induction "unat (bs_maxBytes b) - unat (bs_totBytes b)" arbitrary: b k sent rule: less_induct)
  case less
  show ?case
  proof (cases "unat (bs_totBytes b) < unat (bs_maxBytes b)")
    case False
    then have "\<not> (bs_maxBytes b = 0 \<or> bs_totBytes b < bs_maxBytes b)"
      using less.prems by (auto simp: bulk_ok_def word_less_nat_alt)
    then have "send_loop send k b sent = Some (b, sent)" by (subst send_loop.simps) auto
    with False less.prems show ?thesis by (simp add: same_bulk_def)
  next
    case True
    then have go: "bs_maxBytes b = 0 \<or> bs_totBytes b < bs_maxBytes b" by (simp add: word_less_nat_alt)
    let ?n = "to_send b" and ?a = "send k (to_send b)"
    have le: "sint ?a \<le> int (unat ?n)" using assms(1) by (simp add: send_ok_def)
    note acc = account_limited [OF less.prems le]
    show ?thesis
    proof (cases "ucast ?a = ?n")
      case False
      moreover have "0 < ?n" "unat ?n \<le> unat (bs_sendSize b)"
        using to_send_limited [OF less.prems] less.prems True
        by (auto simp: bulk_ok_def word_less_nat_alt)
      ultimately show ?thesis using go acc by (subst send_loop.simps) (auto simp: Let_def)
    next
      case full: True
      have gt: "unat (bs_totBytes b) < unat (bs_totBytes (account ?a b))" and
        dec: "unat (bs_maxBytes (account ?a b)) - unat (bs_totBytes (account ?a b)) < unat (bs_maxBytes b) - unat (bs_totBytes b)"
        using full_send [OF less.prems True full] acc True by (auto simp: same_bulk_def)
      have "send_loop send k b sent = send_loop send (Suc k) (account ?a b) (if 0 < sint ?a then sent @ [?n] else sent)"
        using go full by (subst send_loop.simps) (simp add: Let_def)
      moreover from less.hyps [OF dec conjunct1 [OF conjunct2 [OF acc]]]
      obtain b' sent' where "send_loop send (Suc k) (account ?a b) (if 0 < sint ?a then sent @ [?n] else sent) = Some (b', sent')"
        "bulk_ok b'" "same_bulk (account ?a b) b'" "unat (bs_totBytes (account ?a b)) \<le> unat (bs_totBytes b')"
        "unat (bs_totBytes b') < unat (bs_maxBytes b') \<longrightarrow> (\<exists>j n. 0 < n \<and> unat n \<le> unat (bs_sendSize (account ?a b)) \<and> ucast (send j n) \<noteq> n)"
        by blast
      moreover have "bs_sendSize (account ?a b) = bs_sendSize b" using acc by (simp add: same_bulk_def)
      ultimately show ?thesis using acc gt by (auto intro: same_bulk_trans)
    qed
  qed
qed

text \<open>
  C19. A bulk sender with a limit stops at the limit. For a socket that never reports more than it
  was offered, \<open>SendData\<close> returns, the total never exceeds \<open>MaxBytes\<close> and never shrinks, the
  connection is closed exactly when the total has reached \<open>MaxBytes\<close>, and the loop gives up before
  that only at a call that did not take everything.
\<close>

theorem bulk_send_respects_limit:
  assumes "send_ok send" and "bulk_ok b" and "bs_socket b = Some s" and "bs_connected b"
  shows "\<exists>b' evs. SendData send b = Inr (b', evs) \<and> bulk_ok b'
    \<and> unat (bs_totBytes b) \<le> unat (bs_totBytes b')
    \<and> (bs_connected b' \<longleftrightarrow> bs_totBytes b' \<noteq> bs_maxBytes b)
    \<and> (BulkCall (Close s) \<in> set evs \<longleftrightarrow> bs_totBytes b' = bs_maxBytes b)
    \<and> (bs_totBytes b' = bs_maxBytes b \<or> (\<exists>k n. 0 < n \<and> unat n \<le> unat (bs_sendSize b) \<and> ucast (send k n) \<noteq> n))"
proof -
  obtain b' sent where run: "send_loop send 0 b [] = Some (b', sent)" and b': "bulk_ok b'" "same_bulk b b'"
    "unat (bs_totBytes b) \<le> unat (bs_totBytes b')"
    "unat (bs_totBytes b') < unat (bs_maxBytes b') \<longrightarrow> (\<exists>j n. 0 < n \<and> unat n \<le> unat (bs_sendSize b) \<and> ucast (send j n) \<noteq> n)"
    using send_loop_limited [OF assms(1,2), of 0 "[]"] by blast
  have eq: "bs_totBytes b' = bs_maxBytes b' \<longleftrightarrow> \<not> unat (bs_totBytes b') < unat (bs_maxBytes b')"
    using b'(1) by (auto simp: bulk_ok_def word_unat_eq_iff)
  show ?thesis
  proof (cases "bs_totBytes b' = bs_maxBytes b'")
    case True
    with run assms(3,4) b' show ?thesis
      by (auto simp: SendData_def same_bulk_def bulk_ok_def)
  next
    case False
    with run assms(3,4) b' eq show ?thesis
      by (auto simp: SendData_def same_bulk_def)
  qed
qed

definition example_bulk :: BulkSend where
  "example_bulk = init_BulkSend\<lparr>bs_socket := Some 4, bs_connected := True, bs_sendSize := 400, bs_maxBytes := 1000\<rparr>"

lemma honest_socket:
  fixes n :: u64
  shows "sint (ucast n :: u32) \<le> int (unat n)" and "unat n < 2 ^ 32 \<Longrightarrow> ucast (ucast n :: u32) = n"
proof -
  have m: "unat (ucast n :: u32) = unat n mod 2 ^ 32" by (simp add: unsigned_ucast_eq take_bit_eq_mod)
  show "sint (ucast n :: u32) \<le> int (unat n)"
  proof (cases "0 \<le> sint (ucast n :: u32)")
    case True
    then have "sint (ucast n :: u32) = int (unat n mod 2 ^ 32)" using sint_nonneg_u32 m by metis
    then show ?thesis by (metis mod_less_eq_dividend of_nat_le_iff)
  qed (use of_nat_0_le_iff [of "unat n"] in linarith)
  show "ucast (ucast n :: u32) = n" if "unat n < 2 ^ 32"
    using that m unat_ucast_u64 [of "ucast n"] by (simp add: word_unat_eq_iff)
qed

theorem bulk_send_respects_limit_witness:
  "\<exists>b' evs. SendData (\<lambda>k n. ucast n) example_bulk = Inr (b', evs)
     \<and> bs_totBytes b' = 1000 \<and> \<not> bs_connected b' \<and> BulkCall (Close 4) \<in> set evs"
proof -
  let ?send = "(\<lambda>k n. ucast n) :: send_fun"
  have ok: "send_ok ?send" unfolding send_ok_def by (intro allI) (rule honest_socket(1))
  have b: "bulk_ok example_bulk" "bs_socket example_bulk = Some 4" "bs_connected example_bulk"
    "bs_maxBytes example_bulk = 1000" "unat (bs_sendSize example_bulk) = 400"
    by (simp_all add: example_bulk_def init_BulkSend_def bulk_ok_def)
  have "ucast (?send k n) = n" if "unat n \<le> unat (bs_sendSize example_bulk)" for k :: nat and n
    using that b(5) honest_socket(2) [of n] by simp
  with bulk_send_respects_limit [OF ok b(1-3)] b(4) show ?thesis by metis
qed

text \<open>
  C39. \<open>MaxBytes\<close> zero means no limit, but the test for the end compares the total with it: if the
  very first \<open>Send\<close> of an unlimited sender fails, the total is zero as well, and the sender closes
  its connection without having sent anything.
\<close>

theorem unlimited_sender_closed_by_first_failure:
  assumes "bs_maxBytes b = 0" and "bs_totBytes b = 0" and "bs_socket b = Some s"
    and "unat (bs_sendSize b) < 2 ^ 31" and "sint (send 0 (ucast (bs_sendSize b))) < 0"
  shows "Bulk_ConnectionSucceeded send b = Inr (b\<lparr>bs_connected := False\<rparr>, [BulkCall (Close s)])"
proof -
  let ?b = "b\<lparr>bs_connected := True\<rparr>" and ?a = "send 0 (ucast (bs_sendSize b))"
  have "ucast ?a \<noteq> (ucast (bs_sendSize b) :: u64)"
  proof
    assume "ucast ?a = (ucast (bs_sendSize b) :: u64)"
    then have "unat ?a = unat (bs_sendSize b)" by (metis unat_ucast_u64)
    with assms(4) have "sint ?a = int (unat ?a)" by (intro sint_eq_unat_u32) simp
    with assms(5) show False by simp
  qed
  moreover have "to_send ?b = ucast (bs_sendSize b)" using assms(1) by (simp add: to_send_def)
  moreover have "account ?a ?b = ?b" using assms(5) by (simp add: account_def)
  ultimately have "send_loop send 0 ?b [] = Some (?b, [])"
    using assms(1,5) by (subst send_loop.simps) (simp add: Let_def)
  with assms(1-3) show ?thesis by (simp add: Bulk_ConnectionSucceeded_def SendData_def)
qed

theorem unlimited_sender_closed_by_first_failure_witness:
  "Bulk_ConnectionSucceeded (\<lambda>k n. - 1) (init_BulkSend\<lparr>bs_socket := Some 4\<rparr>)
     = Inr (init_BulkSend\<lparr>bs_socket := Some 4\<rparr>, [BulkCall (Close 4)])"
  using unlimited_sender_closed_by_first_failure [of "init_BulkSend\<lparr>bs_socket := Some 4\<rparr>" 4 "\<lambda>k n. - 1"]
  by (simp add: init_BulkSend_def)

end
