(* ===== verification/On_Off.thy ===== *)
theory On_Off
  imports Rq_Header Ns3_Env
begin

text \<open>
  \<open>MeshSimOnOffApplication\<close>, \<open>ns3_apps/onoff-application.h\<close> and \<open>ns3_apps/onoff-application.cc\<close>:
  alternates between an on state, in which it sends packets at a constant rate, and an off state.

  A \<open>Time\<close> is its nanoseconds, an \<open>int\<close>. The two conversions between bits and time are floating-
  and fixed-point arithmetic of ns-3 and enter as the record \<open>rate_arith\<close>; the random on and off
  intervals are arguments of the handlers. A pending event is its expiry time.
\<close>

section \<open>State\<close>

datatype onoff_event_kind = StartSendingEv | StopSendingEv

record OnOff =
  oo_socket :: "sock option"
  oo_peer :: Address
  oo_connected :: bool
  oo_cbrRate :: u64
  oo_cbrRateFailSafe :: u64
  oo_pktSize :: u32
  oo_residualBits :: u32
  oo_lastStartTime :: int
  oo_maxBytes :: u64
  oo_totBytes :: u64
  oo_startStopEvent :: "(int \<times> onoff_event_kind) option"
  oo_sendEvent :: "int option"
  oo_tid :: TypeId
  oo_seqNumber :: u64

definition init_OnOff :: OnOff where
  "init_OnOff = \<lparr>oo_socket = None, oo_peer = NoAddress, oo_connected = False, oo_cbrRate = 500000,
     oo_cbrRateFailSafe = 0, oo_pktSize = 512, oo_residualBits = 0, oo_lastStartTime = 0, oo_maxBytes = 0,
     oo_totBytes = 0, oo_startStopEvent = None, oo_sendEvent = None, oo_tid = ''ns3::UdpSocketFactory'',
     oo_seqNumber = 0\<rparr>"

definition OnOff_attributes :: "attr_spec list" where
  "OnOff_attributes =
     [(''DataRate'', DataRateValue ''500kb/s'', None),
      (''PacketSize'', UintegerValue 512, Some 1),
      (''Remote'', AddressValue NoAddress, None),
      (''OnTime'', StringValue ''ns3::ConstantRandomVariable[Constant=1.0]'', None),
      (''OffTime'', StringValue ''ns3::ConstantRandomVariable[Constant=1.0]'', None),
      (''MaxBytes'', UintegerValue 0, Some 0),
      (''Protocol'', TypeIdValue ''ns3::UdpSocketFactory'', None)]"

definition OnOff_trace_sources :: "string list" where
  "OnOff_trace_sources = [''Tx'', ''TxWithAddresses'']"

record rate_arith =
  tx_interval :: "u32 \<Rightarrow> u64 \<Rightarrow> int"      \<comment> \<open>\<open>Seconds (bits / rate)\<close>\<close>
  elapsed_bits :: "int \<Rightarrow> u64 \<Rightarrow> u64"     \<comment> \<open>\<open>(delta.To (Time::S) * rate).GetHigh ()\<close>\<close>

datatype onoff_cb = OnOffConnectionSucceeded | OnOffConnectionFailed

datatype onoff_event =
    OnOffCall "onoff_cb sock_call"
  | OnOffSend sock "RqHeader option" u32    \<comment> \<open>the packet sent and traced: its header and payload size\<close>
  | OnOffTxWithAddresses Address            \<comment> \<open>the destination reported\<close>

section \<open>Accessors\<close>

definition OnOff_SetMaxBytes :: "u64 \<Rightarrow> OnOff \<Rightarrow> OnOff" where
  "OnOff_SetMaxBytes maxBytes a = a\<lparr>oo_maxBytes := maxBytes\<rparr>"

definition OnOff_GetSocket :: "OnOff \<Rightarrow> sock option" where
  "OnOff_GetSocket a = oo_socket a"

text \<open>The streams given to the two random variables, and the number of streams used.\<close>

definition AssignStreams :: "int \<Rightarrow> (int \<times> int) \<times> int" where
  "AssignStreams stream = ((stream, stream + 1), 2)"

section \<open>Scheduling\<close>

definition CancelEvents :: "rate_arith \<Rightarrow> int \<Rightarrow> OnOff \<Rightarrow> OnOff" where
  "CancelEvents R now a =
     (let a' = (if oo_sendEvent a \<noteq> None \<and> oo_cbrRateFailSafe a = oo_cbrRate a
                then a\<lparr>oo_residualBits := oo_residualBits a
                         + ucast (elapsed_bits R (now - oo_lastStartTime a) (oo_cbrRate a))\<rparr>
                else a)
      in a'\<lparr>oo_cbrRateFailSafe := oo_cbrRate a', oo_sendEvent := None, oo_startStopEvent := None\<rparr>)"

definition OnOff_StopApplication :: "rate_arith \<Rightarrow> int \<Rightarrow> OnOff \<Rightarrow> OnOff \<times> onoff_event list" where
  "OnOff_StopApplication R now a =
     (CancelEvents R now a,
      case oo_socket a of None \<Rightarrow> [] | Some s \<Rightarrow> [OnOffCall (Close s)])"

definition next_bits :: "OnOff \<Rightarrow> u32" where
  "next_bits a = oo_pktSize a * 8 - oo_residualBits a"

definition ScheduleNextTx :: "rate_arith \<Rightarrow> int \<Rightarrow> OnOff \<Rightarrow> OnOff \<times> onoff_event list" where
  "ScheduleNextTx R now a =
     (if oo_maxBytes a = 0 \<or> oo_totBytes a < oo_maxBytes a
      then (a\<lparr>oo_sendEvent := Some (now + tx_interval R (next_bits a) (oo_cbrRate a))\<rparr>, [])
      else OnOff_StopApplication R now a)"

definition ScheduleStartEvent :: "int \<Rightarrow> int \<Rightarrow> OnOff \<Rightarrow> OnOff" where
  "ScheduleStartEvent now offInterval a = a\<lparr>oo_startStopEvent := Some (now + offInterval, StartSendingEv)\<rparr>"

definition ScheduleStopEvent :: "int \<Rightarrow> int \<Rightarrow> OnOff \<Rightarrow> OnOff" where
  "ScheduleStopEvent now onInterval a = a\<lparr>oo_startStopEvent := Some (now + onInterval, StopSendingEv)\<rparr>"

definition StartSending :: "rate_arith \<Rightarrow> int \<Rightarrow> int \<Rightarrow> OnOff \<Rightarrow> OnOff \<times> onoff_event list" where
  "StartSending R now onInterval a =
     (let (a', evs) = ScheduleNextTx R now (a\<lparr>oo_lastStartTime := now\<rparr>)
      in (ScheduleStopEvent now onInterval a', evs))"

definition StopSending :: "rate_arith \<Rightarrow> int \<Rightarrow> int \<Rightarrow> OnOff \<Rightarrow> OnOff" where
  "StopSending R now offInterval a = ScheduleStartEvent now offInterval (CancelEvents R now a)"

section \<open>Sending\<close>

text \<open>\<open>dgram\<close> says whether the socket is a datagram socket. The header is built by the
  one-argument constructor.\<close>

definition OnOff_SendPacket ::
  "rate_arith \<Rightarrow> bool \<Rightarrow> int \<Rightarrow> OnOff \<Rightarrow> fault + (OnOff \<times> onoff_event list)" where
  "OnOff_SendPacket R dgram now a =
     bindE (guardE (oo_sendEvent a = None) AssertFail) (\<lambda>_.
     case oo_socket a of None \<Rightarrow> Inl NullPointer
     | Some s \<Rightarrow>
        (let hdr = (if dgram then Some (RqHeader_null (oo_seqNumber a)) else None);
             a1 = (if dgram then a\<lparr>oo_seqNumber := oo_seqNumber a + 1\<rparr> else a);
             a2 = a1\<lparr>oo_totBytes := oo_totBytes a1 + ucast (oo_pktSize a1)\<rparr>;
             addr = (if is_inet (oo_peer a) \<or> is_inet6 (oo_peer a) then [OnOffTxWithAddresses (oo_peer a)] else []);
             (a3, evs) = ScheduleNextTx R now (a2\<lparr>oo_lastStartTime := now, oo_residualBits := 0\<rparr>)
         in Inr (a3, OnOffSend s hdr (oo_pktSize a) # addr @ evs)))"

section \<open>Starting and callbacks\<close>

definition onoff_create_socket :: "sock_env \<Rightarrow> OnOff \<Rightarrow> fault + (OnOff \<times> onoff_event list)" where
  "onoff_create_socket env a =
     (let s = new_sock env 0; p = oo_peer a
      in if (is_inet6 p \<or> is_inet p \<or> is_packet_addr p) \<and> bind_result env 0 = -1
         then Inl (FatalError ''Failed to bind socket'')
         else Inr (a\<lparr>oo_socket := Some s\<rparr>,
           map OnOffCall
             ([CreateSocket (oo_tid a) s]
              @ (if is_inet6 p then [Bind6 s] else if is_inet p \<or> is_packet_addr p then [BindAny s] else [])
              @ [Connect s p, SetAllowBroadcast s True, ShutdownRecv s,
                 SetConnectCallback s OnOffConnectionSucceeded OnOffConnectionFailed])))"

definition OnOff_StartApplication ::
  "rate_arith \<Rightarrow> sock_env \<Rightarrow> int \<Rightarrow> int \<Rightarrow> OnOff \<Rightarrow> fault + (OnOff \<times> onoff_event list)" where
  "OnOff_StartApplication R env now offInterval a =
     bindE (case oo_socket a of Some _ \<Rightarrow> Inr (a, []) | None \<Rightarrow> onoff_create_socket env a) (\<lambda>(a1, evs).
       let a2 = CancelEvents R now (a1\<lparr>oo_cbrRateFailSafe := oo_cbrRate a1\<rparr>)
       in Inr (ScheduleStartEvent now offInterval a2, evs))"

definition OnOff_DoDispose :: "rate_arith \<Rightarrow> int \<Rightarrow> OnOff \<Rightarrow> OnOff" where
  "OnOff_DoDispose R now a = (CancelEvents R now a)\<lparr>oo_socket := None\<rparr>"

definition OnOff_ConnectionSucceeded :: "OnOff \<Rightarrow> OnOff" where
  "OnOff_ConnectionSucceeded a = a\<lparr>oo_connected := True\<rparr>"

definition OnOff_ConnectionFailed :: "OnOff \<Rightarrow> OnOff" where
  "OnOff_ConnectionFailed a = a"

section \<open>Runs\<close>

record onoff_run =
  or_now :: int
  or_app :: OnOff
  or_events :: "onoff_event list"

text \<open>The simulator fires the pending events at their times, never one after the other's time; the
  application may be started and stopped from outside. The on and off intervals are arbitrary.\<close>

definition due :: "OnOff \<Rightarrow> int \<Rightarrow> bool" where
  "due a t \<longleftrightarrow> (\<forall>u. oo_sendEvent a = Some u \<longrightarrow> t \<le> u) \<and> (\<forall>u k. oo_startStopEvent a = Some (u, k) \<longrightarrow> t \<le> u)"

inductive onoff_step :: "rate_arith \<Rightarrow> bool \<Rightarrow> onoff_run \<Rightarrow> onoff_run \<Rightarrow> bool" for R dgram where
  app_start: "or_now s \<le> t \<Longrightarrow> due (or_app s) t \<Longrightarrow> 0 \<le> d \<Longrightarrow>
    OnOff_StartApplication R env t d (or_app s) = Inr (a', evs) \<Longrightarrow>
    onoff_step R dgram s \<lparr>or_now = t, or_app = a', or_events = or_events s @ evs\<rparr>"
| app_stop: "or_now s \<le> t \<Longrightarrow> due (or_app s) t \<Longrightarrow> OnOff_StopApplication R t (or_app s) = (a', evs) \<Longrightarrow>
    onoff_step R dgram s \<lparr>or_now = t, or_app = a', or_events = or_events s @ evs\<rparr>"
| go_on: "oo_startStopEvent (or_app s) = Some (t, StartSendingEv) \<Longrightarrow> due (or_app s) t \<Longrightarrow> 0 \<le> d \<Longrightarrow>
    StartSending R t d (or_app s\<lparr>oo_startStopEvent := None\<rparr>) = (a', evs) \<Longrightarrow>
    onoff_step R dgram s \<lparr>or_now = t, or_app = a', or_events = or_events s @ evs\<rparr>"
| go_off: "oo_startStopEvent (or_app s) = Some (t, StopSendingEv) \<Longrightarrow> due (or_app s) t \<Longrightarrow> 0 \<le> d \<Longrightarrow>
    onoff_step R dgram s \<lparr>or_now = t, or_app = StopSending R t d (or_app s\<lparr>oo_startStopEvent := None\<rparr>),
      or_events = or_events s\<rparr>"
| send: "oo_sendEvent (or_app s) = Some t \<Longrightarrow> due (or_app s) t \<Longrightarrow>
    OnOff_SendPacket R dgram t (or_app s\<lparr>oo_sendEvent := None\<rparr>) = Inr (a', evs) \<Longrightarrow>
    onoff_step R dgram s \<lparr>or_now = t, or_app = a', or_events = or_events s @ evs\<rparr>"

inductive onoff_reachable :: "rate_arith \<Rightarrow> bool \<Rightarrow> OnOff \<Rightarrow> onoff_run \<Rightarrow> bool" for R dgram a0 where
  init: "onoff_reachable R dgram a0 \<lparr>or_now = 0, or_app = a0, or_events = []\<rparr>"
| step: "onoff_reachable R dgram a0 s \<Longrightarrow> onoff_step R dgram s s' \<Longrightarrow> onoff_reachable R dgram a0 s'"

section \<open>Every run\<close>

text \<open>What is documented of the time arithmetic: intervals are not negative, and while less time has
  passed than some bits take, no more than those bits have elapsed.\<close>

definition rate_laws :: "rate_arith \<Rightarrow> bool" where
  "rate_laws R \<longleftrightarrow> (\<forall>bits rate. 0 \<le> tx_interval R bits rate)
     \<and> (\<forall>delta bits rate. 0 \<le> delta \<longrightarrow> delta \<le> tx_interval R bits rate \<longrightarrow>
          unat (elapsed_bits R delta rate) \<le> unat bits)"

definition onoff_config :: "OnOff \<Rightarrow> bool" where
  "onoff_config a \<longleftrightarrow> unat (oo_pktSize a) * 8 < 2 ^ 32 \<and> 0 < unat (oo_maxBytes a)
     \<and> unat (oo_maxBytes a) + unat (oo_pktSize a) < 2 ^ 64"

definition same_onoff :: "OnOff \<Rightarrow> OnOff \<Rightarrow> bool" where
  "same_onoff a a' \<longleftrightarrow> oo_cbrRate a' = oo_cbrRate a \<and> oo_pktSize a' = oo_pktSize a \<and> oo_maxBytes a' = oo_maxBytes a"

definition residual_ok :: "OnOff \<Rightarrow> bool" where
  "residual_ok a \<longleftrightarrow> unat (oo_residualBits a) \<le> unat (oo_pktSize a) * 8"

definition pending_ok :: "rate_arith \<Rightarrow> int \<Rightarrow> OnOff \<Rightarrow> bool" where
  "pending_ok R now a \<longleftrightarrow> oo_lastStartTime a \<le> now \<and>
     (\<forall>u. oo_sendEvent a = Some u \<longrightarrow> oo_totBytes a < oo_maxBytes a
        \<and> u = oo_lastStartTime a + tx_interval R (next_bits a) (oo_cbrRate a))"

definition onoff_inv :: "rate_arith \<Rightarrow> int \<Rightarrow> OnOff \<Rightarrow> bool" where
  "onoff_inv R now a \<longleftrightarrow> onoff_config a \<and> residual_ok a \<and> pending_ok R now a
     \<and> unat (oo_totBytes a) < unat (oo_maxBytes a) + unat (oo_pktSize a)"

fun payload_bytes :: "onoff_event list \<Rightarrow> nat" where
  "payload_bytes [] = 0"
| "payload_bytes (OnOffSend s h n # evs) = unat n + payload_bytes evs"
| "payload_bytes (_ # evs) = payload_bytes evs"

lemma payload_bytes_append [simp]: "payload_bytes (xs @ ys) = payload_bytes xs + payload_bytes ys"
  by (induction xs rule: payload_bytes.induct) auto

lemma payload_bytes_calls [simp]: "payload_bytes (map OnOffCall cs) = 0"
  by (induction cs) auto

lemma next_bits_val:
  assumes "onoff_config a" "residual_ok a"
  shows "unat (next_bits a) = unat (oo_pktSize a) * 8 - unat (oo_residualBits a)"
proof -
  have "unat (oo_pktSize a * 8) = unat (oo_pktSize a) * 8"
    using assms(1) by (simp add: onoff_config_def unat_word_ariths)
  moreover from this have "oo_residualBits a \<le> oo_pktSize a * 8"
    using assms(2) by (simp add: residual_ok_def word_le_nat_alt)
  ultimately show ?thesis by (simp add: next_bits_def unat_sub)
qed

text \<open>Cancelling adds at most the bits still missing to the residual bits.\<close>

lemma CancelEvents_inv:
  assumes laws: "rate_laws R" and inv: "onoff_inv R now0 a" and now: "now0 \<le> now" "due a now"
  shows "onoff_inv R now (CancelEvents R now a) \<and> oo_sendEvent (CancelEvents R now a) = None
    \<and> oo_totBytes (CancelEvents R now a) = oo_totBytes a \<and> same_onoff a (CancelEvents R now a)
    \<and> oo_lastStartTime (CancelEvents R now a) = oo_lastStartTime a"
proof -
  have "residual_ok (CancelEvents R now a)"
  proof (cases "oo_sendEvent a \<noteq> None \<and> oo_cbrRateFailSafe a = oo_cbrRate a")
    case True
    let ?e = "elapsed_bits R (now - oo_lastStartTime a) (oo_cbrRate a)"
    obtain u where u: "oo_sendEvent a = Some u" using True by auto
    have cfg: "onoff_config a" "residual_ok a" using inv by (auto simp: onoff_inv_def)
    have "u = oo_lastStartTime a + tx_interval R (next_bits a) (oo_cbrRate a)" "now \<le> u" "oo_lastStartTime a \<le> now"
      using inv now u by (auto simp: onoff_inv_def pending_ok_def due_def)
    then have le: "unat ?e \<le> unat (next_bits a)" using laws by (auto simp: rate_laws_def)
    have small: "unat (oo_residualBits a) + unat ?e \<le> unat (oo_pktSize a) * 8" "unat (oo_pktSize a) * 8 < 2 ^ 32"
      using le next_bits_val [OF cfg] cfg by (auto simp: residual_ok_def onoff_config_def)
    have ue: "unat (ucast ?e :: u32) = unat ?e"
      using small by (simp add: unsigned_ucast_eq take_bit_nat_eq_self)
    have "unat (oo_residualBits a + ucast ?e) = unat (oo_residualBits a) + unat ?e"
      using small ue by (subst unat_plus_u32) auto
    with True small show ?thesis by (simp add: CancelEvents_def residual_ok_def Let_def)
  next
    case False
    with inv show ?thesis by (auto simp: CancelEvents_def residual_ok_def onoff_inv_def Let_def)
  qed
  then show ?thesis
    using inv now by (auto simp: CancelEvents_def onoff_inv_def onoff_config_def pending_ok_def same_onoff_def Let_def)
qed

lemma inv_stable:
  assumes "onoff_inv R now a" "oo_cbrRate a' = oo_cbrRate a" "oo_pktSize a' = oo_pktSize a" "oo_maxBytes a' = oo_maxBytes a"
    "oo_residualBits a' = oo_residualBits a" "oo_totBytes a' = oo_totBytes a"
    "oo_lastStartTime a' = oo_lastStartTime a" "oo_sendEvent a' = oo_sendEvent a \<or> oo_sendEvent a' = None"
  shows "onoff_inv R now a'"
  using assms by (auto simp: onoff_inv_def onoff_config_def residual_ok_def pending_ok_def next_bits_def)

lemma ScheduleNextTx_inv:
  assumes laws: "rate_laws R" and inv: "onoff_inv R now a" and none: "oo_sendEvent a = None"
    and last: "oo_lastStartTime a = now" and due: "due a now" and run: "ScheduleNextTx R now a = (a', evs)"
  shows "onoff_inv R now a' \<and> oo_totBytes a' = oo_totBytes a \<and> same_onoff a a' \<and> payload_bytes evs = 0"
proof (cases "oo_maxBytes a = 0 \<or> oo_totBytes a < oo_maxBytes a")
  case True
  moreover have "oo_maxBytes a \<noteq> 0" using inv by (auto simp: onoff_inv_def onoff_config_def)
  ultimately show ?thesis
    using run inv last by (auto simp: ScheduleNextTx_def onoff_inv_def onoff_config_def residual_ok_def pending_ok_def
        same_onoff_def next_bits_def)
next
  case False
  with run CancelEvents_inv [OF laws inv order_refl due] show ?thesis
    by (auto simp: ScheduleNextTx_def OnOff_StopApplication_def split: option.splits)
qed

lemma OnOff_SendPacket_inv:
  assumes laws: "rate_laws R" and inv: "onoff_inv R now0 a" and ev: "oo_sendEvent a = Some now" and due: "due a now"
    and now: "now0 \<le> now"
    and run: "OnOff_SendPacket R dgram now (a\<lparr>oo_sendEvent := None\<rparr>) = Inr (a', evs)"
  shows "onoff_inv R now a' \<and> same_onoff a a'
    \<and> unat (oo_totBytes a') = unat (oo_totBytes a) + payload_bytes evs"
proof -
  obtain s where s: "oo_socket a = Some s" using run by (auto simp: OnOff_SendPacket_def split: option.splits)
  let ?a1 = "if dgram then a\<lparr>oo_sendEvent := None, oo_seqNumber := oo_seqNumber a + 1\<rparr> else a\<lparr>oo_sendEvent := None\<rparr>"
  let ?a2 = "?a1\<lparr>oo_totBytes := oo_totBytes a + ucast (oo_pktSize a), oo_lastStartTime := now, oo_residualBits := 0\<rparr>"
  obtain evs' where sched: "ScheduleNextTx R now ?a2 = (a', evs')"
    and evs: "payload_bytes evs = unat (oo_pktSize a) + payload_bytes evs'"
    using run s by (auto simp: OnOff_SendPacket_def Let_def split: prod.splits if_splits)
  have less: "unat (oo_totBytes a) < unat (oo_maxBytes a)" and cfg: "onoff_config a"
    using inv ev by (auto simp: onoff_inv_def pending_ok_def word_less_nat_alt)
  have tot: "unat (oo_totBytes a + ucast (oo_pktSize a)) = unat (oo_totBytes a) + unat (oo_pktSize a)"
    using less cfg by (subst unat_plus_u64) (auto simp: unat_ucast_u64 onoff_config_def)
  have inv2: "onoff_inv R now ?a2"
    using inv less cfg tot by (auto simp: onoff_inv_def onoff_config_def residual_ok_def pending_ok_def)
  have "due ?a2 now" using due by (auto simp: due_def)
  from ScheduleNextTx_inv [OF laws inv2 _ _ this sched] evs tot show ?thesis by (auto simp: same_onoff_def)
qed

lemma onoff_socket_effect:
  assumes "(case oo_socket a of Some _ \<Rightarrow> Inr (a, []) | None \<Rightarrow> onoff_create_socket env a) = Inr (a1, evs)"
  shows "(a1 = a \<or> (\<exists>s. a1 = a\<lparr>oo_socket := Some s\<rparr>)) \<and> payload_bytes evs = 0"
  using assms
  by (auto simp: onoff_create_socket_def Let_def simp del: list.map map_append split: option.splits if_splits)

lemma OnOff_StartApplication_inv:
  assumes laws: "rate_laws R" and inv: "onoff_inv R now0 a" and now: "now0 \<le> now" "due a now"
    and run: "OnOff_StartApplication R env now d a = Inr (a', evs)"
  shows "onoff_inv R now a' \<and> same_onoff a a' \<and> oo_totBytes a' = oo_totBytes a \<and> payload_bytes evs = 0
    \<and> oo_sendEvent a' = None"
proof -
  obtain a1 where sock: "(case oo_socket a of Some _ \<Rightarrow> Inr (a, []) | None \<Rightarrow> onoff_create_socket env a) = Inr (a1, evs)"
    and a': "a' = ScheduleStartEvent now d (CancelEvents R now (a1\<lparr>oo_cbrRateFailSafe := oo_cbrRate a1\<rparr>))"
    using run by (auto simp: OnOff_StartApplication_def Let_def)
  have a1: "a1 = a \<or> (\<exists>s. a1 = a\<lparr>oo_socket := Some s\<rparr>)" and evs: "payload_bytes evs = 0"
    using onoff_socket_effect [OF sock] by auto
  let ?a2 = "a1\<lparr>oo_cbrRateFailSafe := oo_cbrRate a1\<rparr>"
  have inv2: "onoff_inv R now0 ?a2" by (rule inv_stable [OF inv]) (use a1 in auto)
  have "due ?a2 now" using a1 now(2) by (auto simp: due_def)
  note c = CancelEvents_inv [OF laws inv2 now(1) this]
  have "onoff_inv R now a'"
    unfolding a' by (rule inv_stable [OF conjunct1 [OF c]]) (simp_all add: ScheduleStartEvent_def)
  then show ?thesis using a' a1 evs c by (auto simp: same_onoff_def ScheduleStartEvent_def)
qed

lemma StartSending_inv:
  assumes laws: "rate_laws R" and inv: "onoff_inv R now0 a" and now: "now0 \<le> now" "due a now"
    and none: "oo_sendEvent a = None"
    and run: "StartSending R now d a = (a', evs)"
  shows "onoff_inv R now a' \<and> same_onoff a a' \<and> oo_totBytes a' = oo_totBytes a \<and> payload_bytes evs = 0"
proof -
  let ?a1 = "a\<lparr>oo_lastStartTime := now\<rparr>"
  obtain a2 where sched: "ScheduleNextTx R now ?a1 = (a2, evs)" and a': "a' = ScheduleStopEvent now d a2"
    using run by (auto simp: StartSending_def split: prod.splits)
  have "onoff_inv R now ?a1"
    using inv none by (auto simp: onoff_inv_def onoff_config_def residual_ok_def pending_ok_def)
  moreover have "due ?a1 now" using now(2) by (auto simp: due_def)
  ultimately have i: "onoff_inv R now a2 \<and> oo_totBytes a2 = oo_totBytes a \<and> same_onoff ?a1 a2 \<and> payload_bytes evs = 0"
    using ScheduleNextTx_inv [OF laws _ _ _ _ sched] none by simp
  have "onoff_inv R now a'"
    unfolding a' by (rule inv_stable [OF conjunct1 [OF i]]) (simp_all add: ScheduleStopEvent_def)
  then show ?thesis using i a' by (auto simp: same_onoff_def ScheduleStopEvent_def)
qed

text \<open>While the start of an on state is pending, no packet is.\<close>

definition off_ok :: "OnOff \<Rightarrow> bool" where
  "off_ok a \<longleftrightarrow> (\<forall>t. oo_startStopEvent a = Some (t, StartSendingEv) \<longrightarrow> oo_sendEvent a = None)"

lemma off_ok_next: "ScheduleNextTx R now a = (a', evs) \<Longrightarrow> oo_startStopEvent a' = oo_startStopEvent a \<or> oo_startStopEvent a' = None"
  by (auto simp: ScheduleNextTx_def OnOff_StopApplication_def CancelEvents_def Let_def split: if_splits)

lemma off_ok_send:
  assumes "off_ok a" "oo_sendEvent a = Some t" "OnOff_SendPacket R dgram now (a\<lparr>oo_sendEvent := None\<rparr>) = Inr (a', evs)"
  shows "off_ok a'"
proof -
  have "oo_startStopEvent a' = oo_startStopEvent a \<or> oo_startStopEvent a' = None"
    using assms(3) by (auto simp: OnOff_SendPacket_def Let_def dest!: off_ok_next split: option.splits prod.splits if_splits)
  with assms(1,2) show ?thesis by (auto simp: off_ok_def)
qed

definition run_inv :: "rate_arith \<Rightarrow> OnOff \<Rightarrow> onoff_run \<Rightarrow> bool" where
  "run_inv R a0 s \<longleftrightarrow> onoff_inv R (or_now s) (or_app s) \<and> off_ok (or_app s) \<and> same_onoff a0 (or_app s)
     \<and> unat (oo_totBytes (or_app s)) = unat (oo_totBytes a0) + payload_bytes (or_events s)"

lemma same_onoff_trans: "same_onoff a b \<Longrightarrow> same_onoff b c \<Longrightarrow> same_onoff a c"
  by (simp add: same_onoff_def)

lemma run_inv_extend:
  assumes "run_inv R a0 s" "onoff_inv R t a'" "off_ok a'" "same_onoff (or_app s) a'"
    "unat (oo_totBytes a') = unat (oo_totBytes (or_app s)) + payload_bytes evs"
  shows "run_inv R a0 \<lparr>or_now = t, or_app = a', or_events = or_events s @ evs\<rparr>"
  using assms by (auto simp: run_inv_def intro: same_onoff_trans)

lemma StopSending_inv:
  assumes "rate_laws R" and "onoff_inv R now a" and "now \<le> t" and "due a t"
  shows "onoff_inv R t (StopSending R t d a) \<and> off_ok (StopSending R t d a)
    \<and> oo_totBytes (StopSending R t d a) = oo_totBytes a \<and> same_onoff a (StopSending R t d a)"
proof -
  have n: "onoff_inv R t (CancelEvents R t a) \<and> oo_sendEvent (CancelEvents R t a) = None
      \<and> oo_totBytes (CancelEvents R t a) = oo_totBytes a \<and> same_onoff a (CancelEvents R t a)"
    using CancelEvents_inv [OF assms] by blast
  have "onoff_inv R t (StopSending R t d a)"
    by (rule inv_stable [OF conjunct1 [OF n]]) (simp_all add: StopSending_def ScheduleStartEvent_def)
  with n show ?thesis by (auto simp: StopSending_def ScheduleStartEvent_def off_ok_def same_onoff_def)
qed

lemma run_inv_step:
  assumes laws: "rate_laws R" and inv: "run_inv R a0 s" and st: "onoff_step R dgram s s'"
    and past: "\<And>u. oo_sendEvent (or_app s) = Some u \<Longrightarrow> or_now s \<le> u"
      "\<And>u k. oo_startStopEvent (or_app s) = Some (u, k) \<Longrightarrow> or_now s \<le> u"
  shows "run_inv R a0 s'"
proof -
  have i: "onoff_inv R (or_now s) (or_app s)" "off_ok (or_app s)" using inv by (auto simp: run_inv_def)
  show ?thesis
    using st
  proof (cases rule: onoff_step.cases)
    case (app_start t d env a' evs)
    note n = OnOff_StartApplication_inv [OF laws i(1) app_start(2,3,5)]
    show ?thesis unfolding app_start(1)
      by (rule run_inv_extend [OF inv]) (use n in \<open>auto simp: off_ok_def\<close>)
  next
    case (app_stop t a' evs)
    note n = CancelEvents_inv [OF laws i(1) app_stop(2,3)]
    have a': "a' = CancelEvents R t (or_app s)" "payload_bytes evs = 0"
      using app_stop(4) by (auto simp: OnOff_StopApplication_def split: option.splits)
    show ?thesis unfolding app_stop(1)
      by (rule run_inv_extend [OF inv]) (use n a' in \<open>auto simp: off_ok_def\<close>)
  next
    case (go_on t d a' evs)
    let ?a = "or_app s\<lparr>oo_startStopEvent := None\<rparr>"
    have none: "oo_sendEvent ?a = None" using i(2) go_on(2) by (simp add: off_ok_def)
    have "onoff_inv R (or_now s) ?a" by (rule inv_stable [OF i(1)]) simp_all
    note n = StartSending_inv [OF laws this past(2) [OF go_on(2)] _ none go_on(5)]
    have "due ?a t" using go_on(3) by (auto simp: due_def)
    moreover have "off_ok a'"
      using go_on(5) by (auto simp: StartSending_def ScheduleStopEvent_def off_ok_def split: prod.splits)
    ultimately show ?thesis unfolding go_on(1)
      using n by (intro run_inv_extend [OF inv]) (auto simp: same_onoff_def)
  next
    case (go_off t d)
    have d: "due (or_app s\<lparr>oo_startStopEvent := None\<rparr>) t" using go_off(3) by (auto simp: due_def)
    note n = StopSending_inv [OF laws inv_stable [OF i(1)] past(2) [OF go_off(2)] d]
    show ?thesis unfolding go_off(1)
      using run_inv_extend [OF inv, of t _ "[]"] n by (simp add: same_onoff_def)
  next
    case (send t a' evs)
    note n = OnOff_SendPacket_inv [OF laws i(1) send(2,3) past(1) [OF send(2)] send(4)]
    show ?thesis unfolding send(1)
      by (rule run_inv_extend [OF inv]) (use n off_ok_send [OF i(2) send(2,4)] in auto)
  qed
qed

lemma due_Cancel: "due (CancelEvents R now a) t"
  by (simp add: due_def CancelEvents_def Let_def)

lemma due_next:
  assumes "rate_laws R" "due a now" "ScheduleNextTx R now a = (a', evs)"
  shows "due a' now"
  using assms by (auto simp: ScheduleNextTx_def OnOff_StopApplication_def rate_laws_def due_Cancel split: if_splits)
    (auto simp: due_def)

lemma due_step:
  assumes laws: "rate_laws R" and st: "onoff_step R dgram s s'"
  shows "due (or_app s') (or_now s')"
  using st
proof (cases rule: onoff_step.cases)
  case (app_start t d env a' evs)
  then obtain a2 where "a' = ScheduleStartEvent t d (CancelEvents R t a2)"
    by (auto simp: OnOff_StartApplication_def Let_def)
  with app_start show ?thesis by (simp add: due_def ScheduleStartEvent_def CancelEvents_def Let_def)
next
  case (app_stop t a' evs)
  then show ?thesis by (auto simp: OnOff_StopApplication_def due_Cancel)
next
  case (go_on t d a' evs)
  then obtain a2 where sched: "ScheduleNextTx R t (or_app s\<lparr>oo_startStopEvent := None, oo_lastStartTime := t\<rparr>) = (a2, evs)"
    and a': "a' = ScheduleStopEvent t d a2"
    by (auto simp: StartSending_def split: prod.splits)
  have "due (or_app s\<lparr>oo_startStopEvent := None, oo_lastStartTime := t\<rparr>) t" using go_on(3) by (auto simp: due_def)
  from due_next [OF laws this sched] go_on(1,4) a' show ?thesis by (auto simp: due_def ScheduleStopEvent_def)
next
  case (go_off t d)
  then show ?thesis by (simp add: StopSending_def ScheduleStartEvent_def due_def CancelEvents_def Let_def)
next
  case (send t a' evs)
  then obtain a2 evs' where sched: "ScheduleNextTx R t a2 = (a', evs')" and a2: "due a2 t"
    by (auto simp: OnOff_SendPacket_def Let_def due_def split: option.splits prod.splits if_splits)
  from due_next [OF laws a2 sched] send(1) show ?thesis by simp
qed

lemma onoff_reachable_inv:
  assumes laws: "rate_laws R" and start: "onoff_inv R 0 a0" "oo_sendEvent a0 = None" "oo_startStopEvent a0 = None"
    and reach: "onoff_reachable R dgram a0 s"
  shows "run_inv R a0 s \<and> due (or_app s) (or_now s)"
  using reach
proof (induction rule: onoff_reachable.induct)
  case init
  with start show ?case by (simp add: run_inv_def off_ok_def same_onoff_def due_def)
next
  case (step s s')
  have "run_inv R a0 s'"
    by (rule run_inv_step [OF laws conjunct1 [OF step.IH] step.hyps(2)]) (use step.IH in \<open>auto simp: due_def\<close>)
  with due_step [OF laws step.hyps(2)] show ?case by simp
qed

text \<open>
  C20. \<open>MaxBytes\<close> bounds an on-off source to within one packet. In every run of a source with a
  limit, however it is started and stopped and whatever the on and off times are: the payload
  bytes sent so far are its total, which stays below the limit plus one packet, and no packet is
  pending once the total has reached the limit. The bits carried over an off period never exceed a
  packet, so the wait for the next packet does not wrap around.
\<close>

theorem onoff_respects_limit:
  assumes "rate_laws R" and "onoff_inv R 0 a0" and "oo_sendEvent a0 = None" and "oo_startStopEvent a0 = None"
    and "oo_totBytes a0 = 0" and "onoff_reachable R dgram a0 s"
  shows "payload_bytes (or_events s) = unat (oo_totBytes (or_app s))
    \<and> unat (oo_totBytes (or_app s)) < unat (oo_maxBytes a0) + unat (oo_pktSize a0)
    \<and> (oo_maxBytes a0 \<le> oo_totBytes (or_app s) \<longrightarrow> oo_sendEvent (or_app s) = None)
    \<and> unat (next_bits (or_app s)) = unat (oo_pktSize a0) * 8 - unat (oo_residualBits (or_app s))"
proof -
  have "run_inv R a0 s" using onoff_reachable_inv [OF assms(1-4,6)] by simp
  then have inv: "onoff_inv R (or_now s) (or_app s)" "same_onoff a0 (or_app s)"
    "unat (oo_totBytes (or_app s)) = payload_bytes (or_events s)"
    using assms(5) by (auto simp: run_inv_def)
  moreover have "onoff_config (or_app s)" "residual_ok (or_app s)" using inv(1) by (auto simp: onoff_inv_def)
  then have "unat (next_bits (or_app s)) = unat (oo_pktSize (or_app s)) * 8 - unat (oo_residualBits (or_app s))"
    by (rule next_bits_val)
  ultimately show ?thesis
    by (cases "oo_sendEvent (or_app s)") (auto simp: onoff_inv_def pending_ok_def same_onoff_def)
qed

text \<open>Integer arithmetic in nanoseconds keeps the laws.\<close>

definition example_rate :: rate_arith where
  "example_rate = \<lparr>tx_interval = (\<lambda>bits rate. uint bits * 1000000000 div uint rate),
     elapsed_bits = (\<lambda>delta rate. of_nat (min (nat (delta * int (unat rate) div 1000000000)) (2 ^ 32 - 1)))\<rparr>"

lemma example_rate_laws: "rate_laws example_rate"
  unfolding rate_laws_def
proof (intro conjI allI impI)
  fix delta :: int and bits :: u32 and rate :: u64
  assume d: "0 \<le> delta" "delta \<le> tx_interval example_rate bits rate"
  have "delta * int (unat rate) div 1000000000 \<le> int (unat bits)"
  proof (cases "unat rate = 0")
    case False
    have "delta * int (unat rate) \<le> int (unat bits) * 1000000000 div int (unat rate) * int (unat rate)"
      using d by (intro mult_right_mono) (simp_all add: example_rate_def)
    also have "\<dots> \<le> int (unat bits) * 1000000000"
      using False pos_mod_sign [of "int (unat rate)" "int (unat bits) * 1000000000"]
        div_mult_mod_eq [of "int (unat bits) * 1000000000" "int (unat rate)"] by linarith
    finally have "delta * int (unat rate) div 1000000000 \<le> int (unat bits) * 1000000000 div 1000000000"
      by (rule zdiv_mono1) simp
    then show ?thesis by simp
  qed simp
  then have "min (nat (delta * int (unat rate) div 1000000000)) (2 ^ 32 - 1) \<le> unat bits" by linarith
  moreover have "unat (of_nat (min k (2 ^ 32 - 1)) :: u64) = min k (2 ^ 32 - 1)" for k
    by (intro unat_of_nat_small) (simp add: min_def)
  ultimately show "unat (elapsed_bits example_rate delta rate) \<le> unat bits"
    unfolding example_rate_def by simp
next
  fix bits :: u32 and rate :: u64
  show "0 \<le> tx_interval example_rate bits rate"
    by (cases "uint rate = 0") (simp_all add: example_rate_def pos_imp_zdiv_nonneg_iff order_less_le)
qed

definition example_onoff :: OnOff where
  "example_onoff = init_OnOff\<lparr>oo_socket := Some 4, oo_maxBytes := 1000\<rparr>"

lemma example_onoff_inv: "onoff_inv example_rate 0 example_onoff" "oo_sendEvent example_onoff = None"
    "oo_startStopEvent example_onoff = None" "oo_totBytes example_onoff = 0"
  by (simp_all add: example_onoff_def init_OnOff_def onoff_inv_def onoff_config_def residual_ok_def pending_ok_def)

text \<open>Switched on at time 0 by an application start; the first packet is due after its 4096 bits.\<close>

definition example_on :: OnOff where
  "example_on = fst (StartSending example_rate 0 1000000000
     (CancelEvents example_rate 0 (example_onoff\<lparr>oo_cbrRateFailSafe := oo_cbrRate example_onoff\<rparr>)))"

lemmas example_on_eval = example_on_def StartSending_def ScheduleNextTx_def ScheduleStopEvent_def CancelEvents_def
  next_bits_def example_rate_def example_onoff_def init_OnOff_def Let_def

lemma example_on_pending: "oo_sendEvent example_on = Some 8192000 \<and> oo_startStopEvent example_on = Some (1000000000, StopSendingEv)"
  by (simp add: example_on_eval)

lemma example_on_send:
  "case OnOff_SendPacket example_rate True 8192000 (example_on\<lparr>oo_sendEvent := None\<rparr>) of Inl _ \<Rightarrow> False
   | Inr (a', evs) \<Rightarrow> evs = [OnOffSend 4 (Some (RqHeader_null 0)) 512]"
  by (simp add: example_on_eval OnOff_SendPacket_def)

lemma example_on_reachable:
  "onoff_reachable example_rate True example_onoff \<lparr>or_now = 0, or_app = example_on, or_events = []\<rparr>"
proof -
  let ?s0 = "\<lparr>or_now = 0, or_app = example_onoff, or_events = []\<rparr>"
  let ?c = "CancelEvents example_rate 0 (example_onoff\<lparr>oo_cbrRateFailSafe := oo_cbrRate example_onoff\<rparr>)"
  let ?a1 = "ScheduleStartEvent 0 0 ?c"
  let ?s1 = "\<lparr>or_now = 0, or_app = ?a1, or_events = []\<rparr>"
  have c: "?c\<lparr>oo_startStopEvent := None\<rparr> = ?c" "oo_sendEvent ?c = None"
    by (simp_all add: CancelEvents_def Let_def)
  have "OnOff_StartApplication example_rate env 0 0 example_onoff = Inr (?a1, [])" for env
    by (simp add: OnOff_StartApplication_def example_onoff_def Let_def)
  then have "onoff_step example_rate True ?s0 ?s1"
    using onoff_step.app_start [of ?s0 0 0 example_rate undefined ?a1 "[]" True] example_onoff_inv
    by (simp add: due_def)
  with onoff_reachable.init have r1: "onoff_reachable example_rate True example_onoff ?s1"
    by (rule onoff_reachable.step)
  have "snd (StartSending example_rate 0 1000000000 ?c) = []"
    by (simp add: StartSending_def ScheduleNextTx_def CancelEvents_def example_onoff_def init_OnOff_def Let_def)
  then have "StartSending example_rate 0 1000000000 (or_app ?s1\<lparr>oo_startStopEvent := None\<rparr>) = (example_on, [])"
    using c(1) by (simp add: ScheduleStartEvent_def example_on_def prod_eq_iff)
  then have "onoff_step example_rate True ?s1 \<lparr>or_now = 0, or_app = example_on, or_events = []\<rparr>"
    using onoff_step.go_on [of ?s1 0 1000000000 example_rate example_on "[]" True] c(2)
    by (simp add: due_def ScheduleStartEvent_def)
  with r1 show ?thesis by (rule onoff_reachable.step)
qed

lemma example_on_sent:
  "\<exists>a'. onoff_reachable example_rate True example_onoff
     \<lparr>or_now = 8192000, or_app = a', or_events = [OnOffSend 4 (Some (RqHeader_null 0)) 512]\<rparr>"
proof -
  let ?s = "\<lparr>or_now = 0, or_app = example_on, or_events = []\<rparr>" and ?evs = "[OnOffSend 4 (Some (RqHeader_null 0)) 512]"
  obtain a' where send: "OnOff_SendPacket example_rate True 8192000 (example_on\<lparr>oo_sendEvent := None\<rparr>) = Inr (a', ?evs)"
    using example_on_send by (auto split: sum.splits)
  have "onoff_step example_rate True ?s \<lparr>or_now = 8192000, or_app = a', or_events = [] @ ?evs\<rparr>"
    using onoff_step.send [of ?s 8192000 example_rate True a' ?evs] send example_on_pending by (simp add: due_def)
  with example_on_reachable have "onoff_reachable example_rate True example_onoff
      \<lparr>or_now = 8192000, or_app = a', or_events = [] @ ?evs\<rparr>"
    by (rule onoff_reachable.step)
  then show ?thesis by auto
qed

theorem onoff_respects_limit_witness:
  "\<exists>s. onoff_reachable example_rate True example_onoff s \<and> unat (oo_totBytes (or_app s)) = 512
     \<and> payload_bytes (or_events s) = 512"
proof -
  obtain a' where r: "onoff_reachable example_rate True example_onoff
     \<lparr>or_now = 8192000, or_app = a', or_events = [OnOffSend 4 (Some (RqHeader_null 0)) 512]\<rparr>"
    using example_on_sent by blast
  from onoff_respects_limit [OF example_rate_laws example_onoff_inv r] r show ?thesis by force
qed

end
