(* ===== verification/On_Off_Losses.thy ===== *)
theory On_Off_Losses
  imports On_Off App_Rx_Cb
begin

text \<open>
  The on-off source and the loss log together: the datagrams of a \<open>MeshSimOnOffApplication\<close> as an
  \<open>AppRxCb\<close> sees them. The source numbers its datagrams in \<open>m_seqNumber\<close> but builds their header
  with the constructor of \<open>RqHeader\<close> that ignores its argument.
\<close>

fun datagram_headers :: "onoff_event list \<Rightarrow> RqHeader list" where
  "datagram_headers [] = []"
| "datagram_headers (OnOffSend s (Some h) n # evs) = h # datagram_headers evs"
| "datagram_headers (_ # evs) = datagram_headers evs"

lemma datagram_headers_append [simp]:
  "datagram_headers (xs @ ys) = datagram_headers xs @ datagram_headers ys"
  by (induction xs rule: datagram_headers.induct) auto

lemma datagram_headers_calls [simp]: "datagram_headers (map OnOffCall cs) = []"
  by (induction cs) auto

text \<open>The header a receiver reads from the bytes of a header written to a packet.\<close>

definition on_wire :: "RqHeader \<Rightarrow> RqHeader" where
  "on_wire h = h\<lparr>m_valid := True\<rparr>"

lemma on_wire_net:
  "length (m_iseq_data h) < 2 ^ 28 \<Longrightarrow>
    map_option fst (Deserialize net_read32 net_read64 h0 (Serialize net_write32 net_write64 h [] @ rest)) = Some (on_wire h)"
  using net_bytes.Deserialize_bytes net_bytes.written_Serialize
  by (simp add: on_wire_def)

definition zero_header :: RqHeader where
  "zero_header = RqHeader_null 0"

lemma next_no_headers: "ScheduleNextTx R now a = (a', evs) \<Longrightarrow> datagram_headers evs = []"
  by (auto simp: ScheduleNextTx_def OnOff_StopApplication_def split: if_splits option.splits)

lemma step_headers:
  assumes "onoff_step R True s s'"
  shows "\<exists>k. datagram_headers (or_events s') = datagram_headers (or_events s) @ replicate k zero_header"
  using assms
proof (cases rule: onoff_step.cases)
  case (app_start t d env a' evs)
  then have "datagram_headers evs = []"
    by (auto simp: OnOff_StartApplication_def onoff_create_socket_def Let_def
        simp del: list.map map_append split: option.splits if_splits)
  with app_start show ?thesis by (intro exI [of _ 0]) simp
next
  case (app_stop t a' evs)
  then have "datagram_headers evs = []" by (auto simp: OnOff_StopApplication_def split: option.splits)
  with app_stop show ?thesis by (intro exI [of _ 0]) simp
next
  case (go_on t d a' evs)
  then have "datagram_headers evs = []" by (auto simp: StartSending_def dest!: next_no_headers split: prod.splits)
  with go_on show ?thesis by (intro exI [of _ 0]) simp
next
  case (go_off t d)
  then show ?thesis by (intro exI [of _ 0]) simp
next
  case (send t a' evs)
  then have "datagram_headers evs = [zero_header]"
    by (auto simp: OnOff_SendPacket_def Let_def zero_header_def RqHeader_null_def dest!: next_no_headers
        split: option.splits prod.splits if_splits)
  with send show ?thesis by (intro exI [of _ 1]) simp
qed

lemma run_headers:
  "onoff_reachable R True a0 s \<Longrightarrow> \<exists>k. datagram_headers (or_events s) = replicate k zero_header"
proof (induction rule: onoff_reachable.induct)
  case init
  show ?case by (intro exI [of _ 0]) simp
next
  case (step s s')
  from step_headers [OF step.hyps(2)] step.IH show ?case by (metis replicate_add)
qed

lemma loss_machine_zeros:
  assumes "0 < w"
  shows "largest (loss_machine w (replicate n 0)) = (if n \<le> w then -1 else 0)
    \<and> window (loss_machine w (replicate n 0)) = replicate_mset (min n w) 0
    \<and> set (losses (loss_machine w (replicate n 0))) \<subseteq> {Dup 0}"
proof (induction n)
  case 0
  show ?case by (simp add: loss_machine_Nil)
next
  case (Suc n)
  let ?S = "loss_machine w (replicate n 0)"
  have step: "loss_machine w (replicate (Suc n) 0) = loss_step w ?S 0"
    by (simp add: loss_machine_snoc [symmetric] replicate_append_same)
  show ?case
  proof (cases "w \<le> n")
    case True
    have "Min_mset (replicate_mset w (0 :: nat)) = 0" using assms by (intro Min_eqI) auto
    with Suc True assms show ?thesis
      unfolding step by (cases w) (auto simp: loss_step_def Let_def check_popped_def)
  next
    case False
    with Suc show ?thesis unfolding step by (auto simp: loss_step_def)
  qed
qed

text \<open>
  C37. Losses of an on-off source are never reported. In every run of an on-off source over a
  datagram socket, and whichever of its datagrams arrive, each arrives with a valid header of
  sequence number 0; the loss file of the receiver therefore holds nothing but \<open>dup 0\<close> lines, and
  no lost range, however many datagrams were lost.
\<close>

theorem onoff_losses_never_reported:
  assumes "onoff_reachable R True a0 s" and "0 < w"
    and "map (rx_header \<circ> snd) pkts = map on_wire (nths (datagram_headers (or_events s)) I)"
  shows "(\<forall>h \<in> set (datagram_headers (or_events s)). IsValid (on_wire h) \<and> GetSeqno (on_wire h) = 0)
    \<and> (\<exists>cb es. rx_run (AppRxCb_make True w) pkts = Inr cb \<and> pl_fp cb = Some es \<and> set es \<subseteq> {Dup 0})"
proof -
  obtain k where k: "datagram_headers (or_events s) = replicate k zero_header"
    using run_headers [OF assms(1)] by blast
  have zero: "IsValid (on_wire zero_header) \<and> GetSeqno (on_wire zero_header) = 0"
    by (simp add: on_wire_def zero_header_def RqHeader_null_def)
  have hdr: "rx_header p = on_wire zero_header" if "(t, p) \<in> set pkts" for t p
  proof -
    have "rx_header p \<in> set (map (rx_header \<circ> snd) pkts)" using that by force
    then show ?thesis unfolding assms(3) k using set_nths_subset [of "replicate k zero_header" I] by auto
  qed
  have "\<forall>x \<in> set (seqnos pkts). x = 0" using hdr zero by (auto simp: seqnos_def)
  then have "seqnos pkts = replicate (length (seqnos pkts)) 0" by (metis replicate_eqI)
  then obtain n where n: "seqnos pkts = replicate n 0" by blast
  then obtain cb where "rx_run (AppRxCb_make True w) pkts = Inr cb" "abs_rel w cb (loss_machine w (replicate n 0))"
    using rx_run_abs [OF assms(2), of pkts] by auto
  with loss_machine_zeros [OF assms(2), of n] k zero show ?thesis by (fastforce simp: abs_rel_def)
qed

theorem onoff_losses_never_reported_witness:
  "\<exists>cb es. rx_run (AppRxCb_make True 2) [(0, \<lparr>rx_size = 532, rx_header = on_wire (RqHeader_null 0)\<rparr>)] = Inr cb
     \<and> pl_fp cb = Some es \<and> set es \<subseteq> {Dup 0}"
proof -
  obtain a' where r: "onoff_reachable example_rate True example_onoff
     \<lparr>or_now = 8192000, or_app = a', or_events = [OnOffSend 4 (Some (RqHeader_null 0)) 512]\<rparr>"
    using example_on_sent by blast
  from onoff_losses_never_reported [OF r, of 2 "[(0, \<lparr>rx_size = 532, rx_header = on_wire (RqHeader_null 0)\<rparr>)]" "{0}"]
  show ?thesis by simp
qed

end
