(* ===== verification/Progress_Report.thy ===== *)
theory Progress_Report
  imports Prelude Complex_Main
begin

text \<open>
  \<open>ProgressReport\<close>, \<open>sim/progress_report.h\<close> and \<open>sim/progress_report.cc\<close>: prints, while the
  simulation runs, how much simulated and how much real time has passed. A \<open>Time\<close> is its
  nanoseconds and a wall clock reading its milliseconds; the values of a status line are kept as
  rationals, before they are rounded to a \<open>double\<close> and printed with two digits.
\<close>

section \<open>State\<close>

record ProgressReport =
  updateInterval :: int          \<comment> \<open>initialised to one second\<close>
  wall_started :: int
  next_update :: int             \<comment> \<open>the time of the pending event\<close>

record status_line =
  sim_elapsed :: rat
  wall_elapsed :: rat
  slowdown :: rat

section \<open>Operations\<close>

definition ProgressReport_make :: "int \<Rightarrow> int \<Rightarrow> int \<Rightarrow> ProgressReport" where
  "ProgressReport_make interval now wall = \<lparr>updateInterval = interval, wall_started = wall, next_update = now + interval\<rparr>"

definition status_at :: "int \<Rightarrow> int \<Rightarrow> status_line" where
  "status_at now elapsed = (let s = of_int now / 1000000000; w = of_int elapsed / 1000 in
     \<lparr>sim_elapsed = s, wall_elapsed = w, slowdown = w / s\<rparr>)"

definition Progress_Update :: "int \<Rightarrow> int \<Rightarrow> ProgressReport \<Rightarrow> ProgressReport \<times> status_line" where
  "Progress_Update now wall P = (P\<lparr>next_update := now + 1000000000\<rparr>, status_at now (wall - wall_started P))"

text \<open>The first updates of a run, given the readings of the wall clock at each of them.\<close>

fun progress_lines :: "int list \<Rightarrow> ProgressReport \<Rightarrow> status_line list" where
  "progress_lines [] P = []"
| "progress_lines (w # ws) P = (let (P', l) = Progress_Update (next_update P) w P in l # progress_lines ws P')"

section \<open>When it reports\<close>

text \<open>The first report comes after \<open>updateInterval\<close>, all later ones a second apart, whatever the
  interval is.\<close>

lemma progress_lines_at:
  "map sim_elapsed (progress_lines ws P) = map (\<lambda>k. of_int (next_update P) / 1000000000 + of_nat k) [0..<length ws]"
proof (induction ws arbitrary: P)
  case (Cons w ws)
  have "of_int (next_update P + 1000000000) / 1000000000 = of_int (next_update P) / 1000000000 + (1 :: rat)"
    by (simp add: add_divide_distrib)
  with Cons.IH [of "P\<lparr>next_update := next_update P + 1000000000\<rparr>"] show ?case
    by (simp add: Progress_Update_def status_at_def Let_def upt_conv_Cons map_Suc_upt [symmetric] comp_def add.assoc del: upt_Suc)
qed simp

text \<open>In the program the reports are made at the full seconds, so the division by the simulated time
  is defined, and a line says how many wall clock seconds a simulated second takes.\<close>

lemma progress_every_second:
  "map sim_elapsed (progress_lines ws (ProgressReport_make 1000000000 0 w0)) = map of_nat [1..<Suc (length ws)]"
  by (simp add: progress_lines_at ProgressReport_make_def map_Suc_upt [symmetric] comp_def del: upt_Suc)

lemma progress_slowdown: "0 < now \<Longrightarrow> slowdown (status_at now e) * sim_elapsed (status_at now e) = wall_elapsed (status_at now e)"
  by (simp add: status_at_def Let_def)

end
