(* ===== verification/Mesh_Net.thy ===== *)
theory Mesh_Net
  imports Ns3_Env "HOL-Library.AList"
begin

text \<open>
  The network that \<open>sim/mesh_sim.cc\<close> builds, as far as the program sees it. Nodes, devices and
  interfaces are created by helpers of ns-3, which are the parameter \<open>ns3_net\<close> over a state \<open>'n\<close> of the
  network; a node and a device are numbers, an interface is what an \<open>Ipv4InterfaceContainer\<close> holds.
  \<open>net_laws\<close> is the documented behaviour of the helpers that the address plan relies on.
\<close>

section \<open>The helpers of ns-3\<close>

type_synonym iface = "nat \<times> nat"    \<comment> \<open>the \<open>Ipv4\<close> object of a node and the index of the interface\<close>

datatype dev_kind = MeshDev | ApDev | StaDev

record 'n ns3_net =
  node_create :: "u32 \<Rightarrow> 'n \<Rightarrow> nat list \<times> 'n"                       \<comment> \<open>\<open>NodeContainer::Create\<close>\<close>
  dev_install :: "dev_kind \<Rightarrow> nat list \<Rightarrow> 'n \<Rightarrow> nat list \<times> 'n"        \<comment> \<open>\<open>Install\<close> of the mesh and the wifi helper\<close>
  p2p_install :: "nat \<Rightarrow> nat \<Rightarrow> 'n \<Rightarrow> (nat \<times> nat) \<times> 'n"             \<comment> \<open>\<open>PointToPointHelper::Install\<close>\<close>
  stack_install :: "nat list \<Rightarrow> 'n \<Rightarrow> 'n"                           \<comment> \<open>\<open>InternetStackHelper::Install\<close>\<close>
  addr_assign :: "u32 \<times> u32 \<times> u32 \<Rightarrow> nat list \<Rightarrow> 'n \<Rightarrow> fault + (iface list \<times> 'n)"
    \<comment> \<open>\<open>Ipv4AddressHelper::SetBase\<close> with network, mask and first host, then \<open>Assign\<close>\<close>
  dev_node :: "'n \<Rightarrow> nat \<Rightarrow> nat"                                    \<comment> \<open>\<open>GetNode\<close>\<close>
  p2p_peer :: "'n \<Rightarrow> nat \<Rightarrow> nat option"                             \<comment> \<open>the other end of a point-to-point link\<close>
  if_dev :: "'n \<Rightarrow> iface \<Rightarrow> nat"                                    \<comment> \<open>\<open>GetDevice\<close>\<close>
  if_addrs :: "'n \<Rightarrow> iface \<Rightarrow> u32 list"                             \<comment> \<open>\<open>GetAddress(j).GetLocal()\<close>\<close>
  if_for_addr :: "'n \<Rightarrow> nat \<Rightarrow> u32 \<Rightarrow> u32"                          \<comment> \<open>\<open>GetInterfaceForAddress\<close>\<close>
  sub_devs :: "'n \<Rightarrow> nat \<Rightarrow> nat list option"                        \<comment> \<open>\<open>GetInterfaces\<close> of a \<open>MeshPointDevice\<close>\<close>
  devs_of :: "'n \<Rightarrow> nat set"                                        \<comment> \<open>the devices there are\<close>
  ifs_of :: "'n \<Rightarrow> iface set"                                       \<comment> \<open>the interfaces there are\<close>
  allocated :: "'n \<Rightarrow> u32 \<Rightarrow> bool"                                  \<comment> \<open>\<open>Ipv4AddressGenerator\<close> has given the address out\<close>

section \<open>The map from addresses to devices\<close>

definition addInterfacesToMap :: "'n ns3_net \<Rightarrow> 'n \<Rightarrow> (u32 \<times> nat) list \<Rightarrow> iface list \<Rightarrow> (u32 \<times> nat) list" where
  "addInterfacesToMap N n m interfaces =
     foldl (\<lambda>m i. let dev = if_dev N n i in foldl (\<lambda>m a. AList.update a dev m) m (if_addrs N n i)) m interfaces"

text \<open>The association list stands for an \<open>unordered_map\<close>: its keys stay distinct and a later address
  overrides an earlier one.\<close>

lemma update_addrs: "map_of (foldl (\<lambda>m a. AList.update a d m) m as) = map_of m ++ map_of (map (\<lambda>a. (a, d)) (rev as))"
  by (induction as rule: rev_induct) (simp_all add: update_conv' fun_upd_def map_add_def fun_eq_iff)

lemma update_addrs_distinct:
  "distinct (map fst m) \<Longrightarrow> distinct (map fst (foldl (\<lambda>m a. AList.update a d m) m as))"
  by (induction as rule: rev_induct) (simp_all add: distinct_update)

definition iface_addrs :: "'n ns3_net \<Rightarrow> 'n \<Rightarrow> iface list \<Rightarrow> (u32 \<times> nat) list" where
  "iface_addrs N n ifs = concat (map (\<lambda>i. map (\<lambda>a. (a, if_dev N n i)) (if_addrs N n i)) ifs)"

lemma rev_concat_map: "rev (concat (map f xs)) = concat (map (rev \<circ> f) (rev xs))"
  by (induction xs) simp_all

lemma addInterfacesToMap_map_of:
  "map_of (addInterfacesToMap N n m ifs) = map_of m ++ map_of (rev (iface_addrs N n ifs))"
proof (induction ifs rule: rev_induct)
  case Nil
  show ?case by (simp add: addInterfacesToMap_def iface_addrs_def)
next
  case (snoc i ifs)
  then show ?case
    by (simp add: addInterfacesToMap_def iface_addrs_def Let_def update_addrs rev_map)
qed

lemma addInterfacesToMap_distinct:
  "distinct (map fst m) \<Longrightarrow> distinct (map fst (addInterfacesToMap N n m ifs))"
  by (induction ifs rule: rev_induct) (simp_all add: addInterfacesToMap_def Let_def update_addrs_distinct)

text \<open>When no two interfaces share an address, the map is the set of all pairs.\<close>

lemma addInterfacesToMap_pairs:
  assumes "distinct (map fst (iface_addrs N n ifs))" and "dom (map_of m) \<inter> fst ` set (iface_addrs N n ifs) = {}"
  shows "map_of (addInterfacesToMap N n m ifs) a = Some d \<longleftrightarrow>
    map_of m a = Some d \<or> (a, d) \<in> set (iface_addrs N n ifs)"
proof -
  have *: "map_of (rev (iface_addrs N n ifs)) a = Some d \<longleftrightarrow> (a, d) \<in> set (iface_addrs N n ifs)" for d
    using assms(1) by (subst map_of_eq_Some_iff) (simp_all add: rev_map [symmetric])
  have none: "map_of (rev (iface_addrs N n ifs)) a = None" if "map_of m a = Some d'" for d'
    using assms(2) that by (auto simp: map_of_eq_None_iff)
  show ?thesis
    unfolding addInterfacesToMap_map_of map_add_Some_iff * using none * by fastforce
qed

section \<open>The laws\<close>

text \<open>\<open>a.b.c.d\<close>, and the \<open>k\<close>-th address that a helper gives out in a network.\<close>

definition ip4 :: "nat \<Rightarrow> nat \<Rightarrow> nat \<Rightarrow> nat \<Rightarrow> u32" where
  "ip4 a b c d = of_nat (2 ^ 24 * a + 2 ^ 16 * b + 2 ^ 8 * c + d)"

text \<open>What an operation that creates nodes or devices leaves as it was; the interfaces that come with
  it, such as the loopback interfaces of a protocol stack, belong to new devices.\<close>

definition keeps :: "'n ns3_net \<Rightarrow> 'n \<Rightarrow> 'n \<Rightarrow> bool" where
  "keeps N n n' \<longleftrightarrow> devs_of N n \<subseteq> devs_of N n' \<and> ifs_of N n \<subseteq> ifs_of N n'
     \<and> (\<forall>d \<in> devs_of N n. dev_node N n' d = dev_node N n d \<and> p2p_peer N n' d = p2p_peer N n d)
     \<and> (\<forall>i \<in> ifs_of N n. if_dev N n' i = if_dev N n i \<and> if_addrs N n' i = if_addrs N n i)
     \<and> (\<forall>i \<in> ifs_of N n' - ifs_of N n. if_dev N n' i \<in> devs_of N n' - devs_of N n)
     \<and> allocated N n' = allocated N n"

text \<open>The devices \<open>ds\<close> are new, sit on the nodes \<open>ns\<close> and have no interface yet.\<close>

definition new_devs :: "'n ns3_net \<Rightarrow> 'n \<Rightarrow> 'n \<Rightarrow> nat list \<Rightarrow> nat list \<Rightarrow> bool" where
  "new_devs N n n' ns ds \<longleftrightarrow> length ds = length ns \<and> distinct ds \<and> set ds \<inter> devs_of N n = {}
     \<and> set ds \<subseteq> devs_of N n' \<and> map (dev_node N n') ds = ns
     \<and> ifs_of N n' = ifs_of N n"

text \<open>The interfaces \<open>ifs\<close> are new, belong to the devices \<open>ds\<close> and have the addresses \<open>as\<close>.\<close>

definition new_ifs :: "'n ns3_net \<Rightarrow> 'n \<Rightarrow> 'n \<Rightarrow> nat list \<Rightarrow> u32 list \<Rightarrow> iface list \<Rightarrow> bool" where
  "new_ifs N n n' ds as ifs \<longleftrightarrow> distinct ifs \<and> set ifs \<inter> ifs_of N n = {} \<and> ifs_of N n' = ifs_of N n \<union> set ifs
     \<and> map (if_dev N n') ifs = ds \<and> map (if_addrs N n') ifs = map (\<lambda>a. [a]) as
     \<and> (\<forall>i \<in> ifs_of N n. if_dev N n' i = if_dev N n i \<and> if_addrs N n' i = if_addrs N n i)
     \<and> devs_of N n' = devs_of N n
     \<and> (\<forall>d \<in> devs_of N n. dev_node N n' d = dev_node N n d \<and> p2p_peer N n' d = p2p_peer N n d)
     \<and> allocated N n' = (\<lambda>a. allocated N n a \<or> a \<in> set as)"

definition host_addrs :: "u32 \<Rightarrow> u32 \<Rightarrow> nat \<Rightarrow> u32 list" where
  "host_addrs network host k = map (\<lambda>i. network + of_nat (unat host + i)) [0..<k]"

definition assign_law :: "'n ns3_net \<Rightarrow> bool" where
  "assign_law N \<longleftrightarrow> (\<forall>network host ds n. let as = host_addrs network host (length ds) in
     distinct ds \<longrightarrow> set ds \<subseteq> devs_of N n \<longrightarrow> (\<forall>i \<in> ifs_of N n. if_dev N n i \<notin> set ds) \<longrightarrow>
     unat host + length ds \<le> 255 \<longrightarrow>
     (if \<exists>a \<in> set as. allocated N n a then \<exists>f. addr_assign N (network, ip4 255 255 255 0, host) ds n = Inl f
      else \<exists>ifs n'. addr_assign N (network, ip4 255 255 255 0, host) ds n = Inr (ifs, n')
             \<and> new_ifs N n n' ds as ifs))"

definition net_laws :: "'n ns3_net \<Rightarrow> bool" where
  "net_laws N \<longleftrightarrow>
     (\<forall>k n. let (ns, n') = node_create N k n in length ns = unat k \<and> distinct ns \<and> keeps N n n')
   \<and> (\<forall>kd ns n. let (ds, n') = dev_install N kd ns n in
        new_devs N n n' ns ds \<and> keeps N n n')
   \<and> (\<forall>x y n. let ((a, b), n') = p2p_install N x y n in
        new_devs N n n' [x, y] [a, b] \<and> p2p_peer N n' a = Some b \<and> p2p_peer N n' b = Some a
        \<and> keeps N n n')
   \<and> (\<forall>ns n. keeps N n (stack_install N ns n))
   \<and> assign_law N"

section \<open>Consequences\<close>

lemma keepsD:
  assumes "keeps N n n'"
  shows "d \<in> devs_of N n \<Longrightarrow> d \<in> devs_of N n'" "i \<in> ifs_of N n \<Longrightarrow> i \<in> ifs_of N n'"
    and "d \<in> devs_of N n \<Longrightarrow> dev_node N n' d = dev_node N n d" "d \<in> devs_of N n \<Longrightarrow> p2p_peer N n' d = p2p_peer N n d"
    and "i \<in> ifs_of N n \<Longrightarrow> if_dev N n' i = if_dev N n i" "i \<in> ifs_of N n \<Longrightarrow> if_addrs N n' i = if_addrs N n i"
    and "i \<in> ifs_of N n' \<Longrightarrow> i \<notin> ifs_of N n \<Longrightarrow> if_dev N n' i \<in> devs_of N n' \<and> if_dev N n' i \<notin> devs_of N n"
    and "allocated N n' = allocated N n"
  using assms by (simp_all add: keeps_def subset_iff del: split_paired_All)

lemma keeps_refl: "keeps N n n"
  by (simp add: keeps_def)

lemma keeps_trans:
  assumes k: "keeps N n1 n2" "keeps N n2 n3"
  shows "keeps N n1 n3"
  unfolding keeps_def
proof (intro conjI ballI subsetI)
  fix i assume i: "i \<in> ifs_of N n3 - ifs_of N n1"
  show "if_dev N n3 i \<in> devs_of N n3 - devs_of N n1"
    using keepsD(5) [OF k(2), of i] keepsD(7) [OF k(1), of i] keepsD(7) [OF k(2), of i] keepsD(1) [OF k(1)] keepsD(1) [OF k(2)] i
    by (cases "i \<in> ifs_of N n2") (auto simp del: split_paired_All)
qed (use keepsD [OF k(1)] keepsD [OF k(2)] in auto)

text \<open>No interface of the network belongs to a device that does not exist.\<close>

definition wf_net :: "'n ns3_net \<Rightarrow> 'n \<Rightarrow> bool" where
  "wf_net N n \<longleftrightarrow> (\<forall>i \<in> ifs_of N n. if_dev N n i \<in> devs_of N n)"

lemma wf_net_keeps: "wf_net N n \<Longrightarrow> keeps N n n' \<Longrightarrow> wf_net N n'"
  unfolding wf_net_def
proof
  fix i assume w: "\<forall>i \<in> ifs_of N n. if_dev N n i \<in> devs_of N n" and k: "keeps N n n'" and i: "i \<in> ifs_of N n'"
  show "if_dev N n' i \<in> devs_of N n'"
  proof (cases "i \<in> ifs_of N n")
    case True
    with w keepsD(1,5) [OF k] show ?thesis by metis
  next
    case False
    with keepsD(7) [OF k i] show ?thesis by simp
  qed
qed

text \<open>A device without an interface stays without one until it is assigned an address.\<close>

definition bare :: "'n ns3_net \<Rightarrow> 'n \<Rightarrow> nat set \<Rightarrow> bool" where
  "bare N n D \<longleftrightarrow> D \<subseteq> devs_of N n \<and> (\<forall>i \<in> ifs_of N n. if_dev N n i \<notin> D)"

lemma bare_keeps: "bare N n D \<Longrightarrow> keeps N n n' \<Longrightarrow> bare N n' D"
  unfolding bare_def
proof (intro conjI ballI subsetI)
  assume b: "D \<subseteq> devs_of N n \<and> (\<forall>i \<in> ifs_of N n. if_dev N n i \<notin> D)" and k: "keeps N n n'"
  show "d \<in> devs_of N n'" if "d \<in> D" for d using keepsD(1) [OF k] b that by blast
  show "if_dev N n' i \<notin> D" if "i \<in> ifs_of N n'" for i
    using keepsD(5,7) [OF k, of i] b that by (cases "i \<in> ifs_of N n") auto
qed

lemma bare_new:
  "wf_net N n \<Longrightarrow> keeps N n n' \<Longrightarrow> new_devs N n n' ns ds \<Longrightarrow> bare N n' (set ds)"
  unfolding bare_def
proof (intro conjI ballI)
  assume w: "wf_net N n" and k: "keeps N n n'" and d: "new_devs N n n' ns ds"
  show "set ds \<subseteq> devs_of N n'" using d by (simp add: new_devs_def)
  have disj: "set ds \<inter> devs_of N n = {}" using d by (simp add: new_devs_def)
  show "if_dev N n' i \<notin> set ds" if "i \<in> ifs_of N n'" for i
    using d w keepsD(5) [OF k, of i] disj that unfolding wf_net_def new_devs_def by auto
qed

section \<open>Assigning the addresses of several groups of devices\<close>

text \<open>A group: the network, the first host number and the devices.\<close>

type_synonym addr_group = "u32 \<times> nat \<times> nat list"

definition group_devs :: "addr_group \<Rightarrow> nat list" where
  "group_devs g = (case g of (network, host, ds) \<Rightarrow> ds)"

definition group_addrs :: "addr_group \<Rightarrow> u32 list" where
  "group_addrs g = (case g of (network, host, ds) \<Rightarrow> host_addrs network (of_nat host) (length ds))"

definition group_fits :: "addr_group \<Rightarrow> bool" where
  "group_fits g \<longleftrightarrow> (case g of (network, host, ds) \<Rightarrow> host + length ds \<le> 255)"

fun assign_groups :: "'n ns3_net \<Rightarrow> addr_group list \<Rightarrow> 'n \<Rightarrow> fault + (iface list list \<times> 'n)" where
  "assign_groups N [] n = Inr ([], n)"
| "assign_groups N ((network, host, ds) # gs) n =
     bindE (addr_assign N (network, ip4 255 255 255 0, of_nat host) ds n) (\<lambda>(ifs, n).
     bindE (assign_groups N gs n) (\<lambda>(ifss, n). Inr (ifs # ifss, n)))"

text \<open>What is asked of a list of groups before the first one is assigned, and what the assignment
  promises when no two of its addresses collide and none is in use.\<close>

definition assignable :: "'n ns3_net \<Rightarrow> 'n \<Rightarrow> addr_group list \<Rightarrow> bool" where
  "assignable N n gs \<longleftrightarrow> list_all group_fits gs \<and> bare N n (set (concat (map group_devs gs)))
     \<and> distinct (concat (map group_devs gs))"

definition free_addrs :: "'n ns3_net \<Rightarrow> 'n \<Rightarrow> u32 list \<Rightarrow> bool" where
  "free_addrs N n as \<longleftrightarrow> distinct as \<and> (\<forall>a \<in> set as. \<not> allocated N n a)"

definition assigned :: "'n ns3_net \<Rightarrow> 'n \<Rightarrow> addr_group list \<Rightarrow> iface list list \<Rightarrow> 'n \<Rightarrow> bool" where
  "assigned N n gs ifss n' \<longleftrightarrow>
     map (if_dev N n') (concat ifss) = concat (map group_devs gs)
   \<and> map (if_addrs N n') (concat ifss) = map (\<lambda>a. [a]) (concat (map group_addrs gs))
   \<and> (\<forall>d \<in> devs_of N n. dev_node N n' d = dev_node N n d \<and> p2p_peer N n' d = p2p_peer N n d)
   \<and> (\<forall>i \<in> ifs_of N n. if_dev N n' i = if_dev N n i \<and> if_addrs N n' i = if_addrs N n i)"

lemma group_addrs_distinct: "group_fits g \<Longrightarrow> distinct (group_addrs g)"
proof -
  have *: "distinct (host_addrs network (of_nat host) k)" if "host + k \<le> 255" for network :: u32 and host k :: nat
  proof -
    have h: "unat (of_nat host :: u32) = host" using that by (simp add: unsigned_of_nat take_bit_nat_eq_self)
    have "i = j" if e: "network + of_nat (host + i) = network + (of_nat (host + j) :: u32)" and "i < k" "j < k" for i j
    proof -
      have "unat (of_nat (host + i) :: u32) = unat (of_nat (host + j) :: u32)" using e by (metis add_left_cancel)
      moreover have "host + i < 2 ^ 32" "host + j < 2 ^ 32" using that \<open>host + k \<le> 255\<close> by simp_all
      ultimately show ?thesis by (simp add: unsigned_of_nat take_bit_nat_eq_self del: of_nat_add)
    qed
    then show ?thesis by (auto simp: host_addrs_def distinct_map inj_on_def h simp del: of_nat_add)
  qed
  assume "group_fits g"
  with * show ?thesis by (auto simp: group_fits_def group_addrs_def split: prod.splits)
qed

text \<open>One group: the helper aborts when an address is in use, and otherwise its devices get their
  addresses and the other groups stay as they were.\<close>

lemma assign_one:
  assumes "net_laws N" and "assignable N n ((network, host, ds) # gs)"
  shows "if \<exists>a \<in> set (group_addrs (network, host, ds)). allocated N n a
    then \<exists>f. addr_assign N (network, ip4 255 255 255 0, of_nat host) ds n = Inl f
    else \<exists>ifs n'. addr_assign N (network, ip4 255 255 255 0, of_nat host) ds n = Inr (ifs, n')
      \<and> new_ifs N n n' ds (group_addrs (network, host, ds)) ifs"
proof -
  have ds: "distinct ds" "bare N n (set ds)" "host + length ds \<le> 255"
    using assms(2) by (auto simp: assignable_def group_devs_def group_fits_def bare_def)
  then have "unat (of_nat host :: u32) = host" by (simp add: unsigned_of_nat take_bit_nat_eq_self)
  moreover have "assign_law N" using assms(1) by (simp add: net_laws_def)
  ultimately show ?thesis
    using ds unfolding assign_law_def Let_def bare_def group_addrs_def prod.case
    by (metis (no_types, lifting))
qed

lemma new_ifsD:
  assumes "new_ifs N n n' ds as ifs"
  shows "set ifs \<subseteq> ifs_of N n'" "map (if_dev N n') ifs = ds" "map (if_addrs N n') ifs = map (\<lambda>a. [a]) as"
    and "i \<in> ifs_of N n' \<longleftrightarrow> i \<in> ifs_of N n \<or> i \<in> set ifs" "devs_of N n' = devs_of N n"
    and "i \<in> ifs_of N n \<Longrightarrow> if_dev N n' i = if_dev N n i" "i \<in> ifs_of N n \<Longrightarrow> if_addrs N n' i = if_addrs N n i"
    and "d \<in> devs_of N n \<Longrightarrow> dev_node N n' d = dev_node N n d" "d \<in> devs_of N n \<Longrightarrow> p2p_peer N n' d = p2p_peer N n d"
    and "allocated N n' a \<longleftrightarrow> allocated N n a \<or> a \<in> set as" "i \<in> set ifs \<Longrightarrow> if_dev N n' i \<in> set ds"
  using assms unfolding new_ifs_def by auto

lemma assign_rest:
  assumes new: "new_ifs N n n' (group_devs g) (group_addrs g) ifs" and a: "assignable N n (g # gs)"
  shows "assignable N n' gs"
    and "\<forall>a \<in> set (group_addrs g). \<not> allocated N n a \<Longrightarrow>
      free_addrs N n (concat (map group_addrs (g # gs))) = free_addrs N n' (concat (map group_addrs gs))"
proof -
  note f = new_ifsD [OF new]
  have "bare N n' (set (concat (map group_devs gs)))"
    unfolding bare_def
  proof (intro conjI ballI)
    show "set (concat (map group_devs gs)) \<subseteq> devs_of N n'" using a f(5) by (auto simp: assignable_def bare_def)
    fix i assume "i \<in> ifs_of N n'"
    with f(4) consider "i \<in> ifs_of N n" | "i \<in> set ifs" by blast
    then show "if_dev N n' i \<notin> set (concat (map group_devs gs))"
    proof cases
      case 1
      with a f(6) show ?thesis by (auto simp: assignable_def bare_def)
    next
      case 2
      from f(11) [OF this] a show ?thesis by (auto simp: assignable_def)
    qed
  qed
  with a show "assignable N n' gs" by (simp add: assignable_def)
  show "free_addrs N n (concat (map group_addrs (g # gs))) = free_addrs N n' (concat (map group_addrs gs))"
    if "\<forall>a \<in> set (group_addrs g). \<not> allocated N n a"
    using a that group_addrs_distinct [of g] f(10) by (auto simp: assignable_def free_addrs_def)
qed

lemma assigned_Cons:
  assumes new: "new_ifs N n n1 (group_devs g) (group_addrs g) ifs" and r: "assigned N n1 gs ifss n'"
  shows "assigned N n (g # gs) (ifs # ifss) n'"
proof -
  note f = new_ifsD [OF new] and r' = r [unfolded assigned_def]
  have "map (if_dev N n') ifs = map (if_dev N n1) ifs" "map (if_addrs N n') ifs = map (if_addrs N n1) ifs"
    using r' f(1) by (blast intro: map_cong)+
  then show ?thesis using r' f(2-9) unfolding assigned_def by simp
qed

text \<open>All the groups can be assigned exactly when no address is asked for twice or is in use.\<close>

lemma assign_groups_result:
  assumes "net_laws N"
  shows "assignable N n gs \<Longrightarrow>
    if free_addrs N n (concat (map group_addrs gs)) then \<exists>ifss n'. assign_groups N gs n = Inr (ifss, n') \<and> assigned N n gs ifss n'
    else \<exists>f. assign_groups N gs n = Inl f"
proof (induction gs arbitrary: n)
  case Nil
  show ?case by (simp add: free_addrs_def assigned_def)
next
  case (Cons g gs)
  obtain network host ds where g: "g = (network, host, ds)" by (cases g) auto
  note one = assign_one [OF assms Cons.prems [unfolded g], folded g]
  show ?case
  proof (cases "\<exists>a \<in> set (group_addrs g). allocated N n a")
    case True
    then have "\<not> free_addrs N n (concat (map group_addrs (g # gs)))" by (auto simp: free_addrs_def)
    with True one show ?thesis by (auto simp: g)
  next
    case False
    with one obtain ifs n1 where s: "addr_assign N (network, ip4 255 255 255 0, of_nat host) ds n = Inr (ifs, n1)"
      and new: "new_ifs N n n1 (group_devs g) (group_addrs g) ifs" by (auto simp: g group_devs_def)
    note rest = assign_rest [OF new Cons.prems]
    have "free_addrs N n (concat (map group_addrs (g # gs))) = free_addrs N n1 (concat (map group_addrs gs))"
      by (rule rest(2)) (use False in blast)
    with Cons.IH [OF rest(1)] assigned_Cons [OF new] show ?thesis
      by (auto simp: g s split: if_splits)
  qed
qed

text \<open>The map that such an assignment results in.\<close>

lemma iface_addrs_zip:
  "map (if_dev N n) ifs = ds \<Longrightarrow> map (if_addrs N n) ifs = map (\<lambda>a. [a]) as \<Longrightarrow> iface_addrs N n ifs = zip as ds"
proof (induction ifs arbitrary: ds as)
  case (Cons i ifs)
  then show ?case by (cases ds; cases as) (auto simp: iface_addrs_def)
qed (simp add: iface_addrs_def)

lemma addInterfacesToMap_concat:
  "foldl (addInterfacesToMap N n) m ifss = addInterfacesToMap N n m (concat ifss)"
  by (induction ifss arbitrary: m) (simp_all add: addInterfacesToMap_def)

lemma addInterfacesToMap_zip:
  assumes "map (if_dev N n) (concat ifss) = ds" and "map (if_addrs N n) (concat ifss) = map (\<lambda>a. [a]) as"
    and "distinct as"
  shows "map_of (foldl (addInterfacesToMap N n) [] ifss) a = Some d \<longleftrightarrow> (a, d) \<in> set (zip as ds)"
proof -
  have len: "length as = length ds" using assms(1,2) by (metis length_map)
  note z = iface_addrs_zip [OF assms(1,2)]
  have "distinct (map fst (iface_addrs N n (concat ifss)))" using assms(3) len by (simp add: z)
  from addInterfacesToMap_pairs [OF this, of "[]" a d] show ?thesis
    by (simp add: addInterfacesToMap_concat z)
qed

lemma zip_concat_groups:
  "(a, d) \<in> set (zip (concat (map group_addrs gs)) (concat (map group_devs gs))) \<longleftrightarrow>
   (\<exists>(network, host, ds) \<in> set gs. \<exists>k < length ds. a = network + of_nat (unat (of_nat host :: u32) + k) \<and> d = ds ! k)"
proof (induction gs)
  case (Cons g gs)
  obtain network host ds where g: "g = (network, host, ds)" by (cases g) auto
  have "length (group_addrs g) = length (group_devs g)" by (simp add: g group_addrs_def group_devs_def host_addrs_def)
  then have "set (zip (concat (map group_addrs (g # gs))) (concat (map group_devs (g # gs))))
    = set (zip (group_addrs g) (group_devs g)) \<union> set (zip (concat (map group_addrs gs)) (concat (map group_devs gs)))"
    by simp
  moreover have "(a, d) \<in> set (zip (group_addrs g) (group_devs g)) \<longleftrightarrow>
    (\<exists>k < length ds. a = network + of_nat (unat (of_nat host :: u32) + k) \<and> d = ds ! k)"
    unfolding g group_addrs_def group_devs_def host_addrs_def prod.case in_set_zip
    by (auto simp del: of_nat_add) (metis (no_types, lifting) add_0 diff_zero length_upt nth_map nth_upt)
  ultimately show ?case using Cons.IH by (auto simp: g)
qed simp

section \<open>The laws can hold\<close>

text \<open>A network by hand: nodes are counted, a device is its node and the other end of its link, an
  interface is its node, its device and its address.\<close>

record example_net =
  en_nodes :: nat
  en_devs :: "(nat \<times> nat option) list"
  en_ifs :: "(nat \<times> nat \<times> u32) list"

definition example_assign ::
  "u32 \<times> u32 \<times> u32 \<Rightarrow> nat list \<Rightarrow> example_net \<Rightarrow> fault + (iface list \<times> example_net)" where
  "example_assign base ds n =
     (let as = host_addrs (fst base) (snd (snd base)) (length ds);
          new = map (\<lambda>(d, a). (fst (en_devs n ! d), d, a)) (zip ds as) in
      if list_ex (\<lambda>a. a \<in> set (map (snd \<circ> snd) (en_ifs n))) as then Inl (FatalError ''address in use'')
      else Inr (map (\<lambda>(k, d). (fst (en_devs n ! d), length (en_ifs n) + k)) (zip [0..<length ds] ds),
                n\<lparr>en_ifs := en_ifs n @ new\<rparr>))"

definition example_topology :: "example_net ns3_net" where
  "example_topology =
     \<lparr>node_create = (\<lambda>k n. ([en_nodes n..<en_nodes n + unat k], n\<lparr>en_nodes := en_nodes n + unat k\<rparr>)),
      dev_install = (\<lambda>_ ns n. ([length (en_devs n)..<length (en_devs n) + length ns],
        n\<lparr>en_devs := en_devs n @ map (\<lambda>x. (x, None)) ns\<rparr>)),
      p2p_install = (\<lambda>x y n. let l = length (en_devs n) in
        ((l, Suc l), n\<lparr>en_devs := en_devs n @ [(x, Some (Suc l)), (y, Some l)]\<rparr>)),
      stack_install = (\<lambda>_ n. n), addr_assign = example_assign,
      dev_node = (\<lambda>n d. fst (en_devs n ! d)), p2p_peer = (\<lambda>n d. snd (en_devs n ! d)),
      if_dev = (\<lambda>n i. fst (snd (en_ifs n ! snd i))), if_addrs = (\<lambda>n i. [snd (snd (en_ifs n ! snd i))]),
      if_for_addr = (\<lambda>_ _ _. 1), sub_devs = (\<lambda>_ _. None),
      devs_of = (\<lambda>n. {..<length (en_devs n)}),
      ifs_of = (\<lambda>n. set (map (\<lambda>k. (fst (en_ifs n ! k), k)) [0..<length (en_ifs n)])),
      allocated = (\<lambda>n a. a \<in> set (map (snd \<circ> snd) (en_ifs n)))\<rparr>"

lemma example_ifs: "(x, k) \<in> ifs_of example_topology n \<longleftrightarrow> k < length (en_ifs n) \<and> x = fst (en_ifs n ! k)"
  by (auto simp: example_topology_def)

text \<open>Addresses that no interface has are assigned, to new interfaces of the devices.\<close>

lemma example_assign_new:
  fixes n :: example_net and network host :: u32 and ds :: "nat list"
  defines "as \<equiv> host_addrs network host (length ds)"
  defines "ifs \<equiv> map (\<lambda>(k, d). (fst (en_devs n ! d), length (en_ifs n) + k)) (zip [0..<length ds] ds)"
  defines "n' \<equiv> n\<lparr>en_ifs := en_ifs n @ map (\<lambda>(d, a). (fst (en_devs n ! d), d, a)) (zip ds as)\<rparr>"
  shows "new_ifs example_topology n n' ds as ifs"
  unfolding new_ifs_def
proof (intro conjI)
  have len: "length as = length ds" by (simp add: as_def host_addrs_def)
  have nth: "k < length ds \<Longrightarrow> ifs ! k = (fst (en_devs n ! (ds ! k)), length (en_ifs n) + k)" for k by (simp add: ifs_def)
  have newth: "k < length ds \<Longrightarrow> en_ifs n' ! (length (en_ifs n) + k) = (fst (en_devs n ! (ds ! k)), ds ! k, as ! k)" for k
    by (simp add: n'_def nth_append len)
  have old: "k < length (en_ifs n) \<Longrightarrow> en_ifs n' ! k = en_ifs n ! k" for k by (simp add: n'_def nth_append)
  have sz: "length (en_ifs n') = length (en_ifs n) + length ds" "en_devs n' = en_devs n" by (simp_all add: n'_def len)
  have addrs: "map (snd \<circ> snd) (en_ifs n') = map (snd \<circ> snd) (en_ifs n) @ as"
    unfolding n'_def by (simp, rule nth_equalityI) (simp_all add: len)
  show "distinct ifs" by (auto simp: distinct_conv_nth ifs_def)
  show "set ifs \<inter> ifs_of example_topology n = {}" by (auto simp: example_topology_def ifs_def)
  show "map (if_dev example_topology n') ifs = ds" "map (if_addrs example_topology n') ifs = map (\<lambda>a. [a]) as"
    by (rule nth_equalityI; simp add: example_topology_def ifs_def newth len)+
  show "allocated example_topology n' = (\<lambda>a. allocated example_topology n a \<or> a \<in> set as)"
    unfolding example_topology_def by (simp add: fun_eq_iff addrs del: map_map set_map)
  show "ifs_of example_topology n' = ifs_of example_topology n \<union> set ifs"
  proof (intro set_eqI, clarify)
    fix x i
    show "(x, i) \<in> ifs_of example_topology n' \<longleftrightarrow> (x, i) \<in> ifs_of example_topology n \<union> set ifs"
    proof (cases "i < length (en_ifs n)")
      case True
      then show ?thesis by (auto simp: example_ifs sz old ifs_def)
    next
      case False
      then obtain k where i: "i = length (en_ifs n) + k" by (metis le_Suc_ex not_less)
      have "(x, i) \<in> set ifs \<longleftrightarrow> k < length ds \<and> x = fst (en_devs n ! (ds ! k))"
        unfolding in_set_conv_nth using nth by (auto simp: i ifs_def)
      then show ?thesis by (cases "k < length ds") (simp_all add: example_ifs i sz newth del: set_map)
    qed
  qed
qed (auto simp: example_topology_def n'_def nth_append)

lemma example_assign_law: "assign_law example_topology"
  unfolding assign_law_def Let_def
proof (intro allI impI)
  fix network host :: u32 and ds :: "nat list" and n :: example_net
  show "if \<exists>a \<in> set (host_addrs network host (length ds)). allocated example_topology n a
      then \<exists>f. addr_assign example_topology (network, ip4 255 255 255 0, host) ds n = Inl f
      else \<exists>ifs n'. addr_assign example_topology (network, ip4 255 255 255 0, host) ds n = Inr (ifs, n')
        \<and> new_ifs example_topology n n' ds (host_addrs network host (length ds)) ifs"
    using example_assign_new [of n ds network host]
    by (auto simp: example_topology_def example_assign_def Let_def list_ex_iff)
qed

lemma example_net_laws: "net_laws example_topology"
  unfolding net_laws_def
proof (intro conjI allI)
  show "let (ns, n') = node_create example_topology k n in length ns = unat k \<and> distinct ns \<and> keeps example_topology n n'" for k n
    by (simp add: example_topology_def keeps_def)
  show "let (ds, n') = dev_install example_topology kd ns n in
      new_devs example_topology n n' ns ds \<and> keeps example_topology n n'" for kd ns n
    by (auto simp: example_topology_def keeps_def new_devs_def nth_append intro!: nth_equalityI)
  show "let ((a, b), n') = p2p_install example_topology x y n in
      new_devs example_topology n n' [x, y] [a, b] \<and> p2p_peer example_topology n' a = Some b
      \<and> p2p_peer example_topology n' b = Some a \<and> keeps example_topology n n'" for x y n
    by (auto simp: example_topology_def keeps_def new_devs_def nth_append Let_def)
  show "keeps example_topology n (stack_install example_topology ns n)" for ns n
    by (simp add: example_topology_def keeps_refl [unfolded example_topology_def])
qed (rule example_assign_law)

end
