(* ===== verification/Io_Utils.thy ===== *)
theory Io_Utils
  imports Prelude
begin

text \<open>
  \<open>sim/io_utils.cc\<close>: reading configuration files line by line and token by token, and parsing
  IPv4 addresses. A stream is the text that is still to be read. \<open>boost\<close>'s \<open>trim\<close> and \<open>split\<close> are
  parameters (\<open>boost_string\<close>) with their documented behaviour as \<open>boost_laws\<close>; \<open>sscanf\<close> is the C
  library's, with what it stores for a number that does not fit an \<open>int\<close> (undefined in C) as the
  parameter \<open>oor\<close>.
\<close>

section \<open>Streams and lines\<close>

definition is_space :: "char \<Rightarrow> bool" where
  "is_space c \<longleftrightarrow> (of_char c :: nat) = 32 \<or> 9 \<le> (of_char c :: nat) \<and> (of_char c :: nat) \<le> 13"

abbreviation newline :: char where "newline \<equiv> CHR 0x0A"

lemma is_space_newline [simp]: "is_space newline" by (simp add: is_space_def)

lemma not_space_hash [simp]: "\<not> is_space (CHR ''#'')" by (simp add: is_space_def)

definition getline :: "string \<Rightarrow> (string \<times> string) option" where
  "getline s = (if s = [] then None
     else Some (takeWhile (\<lambda>c. c \<noteq> newline) s, drop 1 (dropWhile (\<lambda>c. c \<noteq> newline) s)))"

lemma getline_shorter: "getline s = Some (l, s') \<Longrightarrow> length s' < length s"
proof -
  assume "getline s = Some (l, s')"
  then have s: "s \<noteq> []" "s' = drop 1 (dropWhile (\<lambda>c. c \<noteq> newline) s)" by (auto simp: getline_def split: if_splits)
  have "length (dropWhile (\<lambda>c. c \<noteq> newline) s) \<le> length s" by (rule length_dropWhile_le)
  with s show ?thesis by (cases "dropWhile (\<lambda>c. c \<noteq> newline) s") auto
qed

record boost_string =
  bs_trim :: "string \<Rightarrow> string"
  bs_split :: "string \<Rightarrow> string list"
  bs_to_lower :: "string \<Rightarrow> string"

function getconfigline :: "boost_string \<Rightarrow> string \<Rightarrow> (string \<times> string) option" where
  "getconfigline B s =
     (case getline s of None \<Rightarrow> None
      | Some (line, s') \<Rightarrow>
          let line = bs_trim B line in
          if line = [] \<or> hd line = CHR ''#'' then getconfigline B s' else Some (line, s'))"
  by auto
termination by (relation "measure (length \<circ> snd)") (auto dest: getline_shorter)

declare getconfigline.simps [simp del]

definition tokenize :: "boost_string \<Rightarrow> string \<Rightarrow> string list" where
  "tokenize B line = bs_split B line"

definition getconfiglinetokenized :: "boost_string \<Rightarrow> string \<Rightarrow> (string list \<times> string) option" where
  "getconfiglinetokenized B s =
     (case getconfigline B s of None \<Rightarrow> None | Some (line, s') \<Rightarrow> Some (tokenize B line, s'))"

lemma getconfigline_shorter: "getconfigline B s = Some (l, s') \<Longrightarrow> length s' < length s"
proof (induction B s rule: getconfigline.induct)
  case (1 B s)
  show ?case
  proof (cases "getline s")
    case None
    with "1.prems" show ?thesis by (simp add: getconfigline.simps)
  next
    case (Some p)
    then obtain line t where p: "getline s = Some (line, t)" by (cases p) auto
    note sh = getline_shorter [OF p]
    show ?thesis
    proof (cases "bs_trim B line = [] \<or> hd (bs_trim B line) = CHR ''#''")
      case True
      with "1.prems" p have "getconfigline B t = Some (l, s')" by (subst (asm) getconfigline.simps) simp
      with "1.IH" [OF p refl refl True] sh show ?thesis by simp
    next
      case False
      with "1.prems" p sh show ?thesis by (subst (asm) getconfigline.simps) auto
    qed
  qed
qed

lemma getconfiglinetokenized_shorter:
  "getconfiglinetokenized B s = Some (ts, s') \<Longrightarrow> length s' < length s"
  by (auto simp: getconfiglinetokenized_def dest: getconfigline_shorter split: option.splits)

text \<open>The loop \<open>while (getconfiglinetokenized(fp, tokens)) { ... }\<close> of the configuration loaders.\<close>

function config_loop :: "boost_string \<Rightarrow> ('s \<Rightarrow> string list \<Rightarrow> 'e + 's) \<Rightarrow> 's \<Rightarrow> string \<Rightarrow> 'e + 's" where
  "config_loop B f st s =
     (case getconfiglinetokenized B s of None \<Rightarrow> Inr st
      | Some (ts, s') \<Rightarrow> (case f st ts of Inl e \<Rightarrow> Inl e | Inr st' \<Rightarrow> config_loop B f st' s'))"
  by auto
termination
  by (relation "measure (length \<circ> snd \<circ> snd \<circ> snd)") (auto dest: getconfiglinetokenized_shorter)

declare config_loop.simps [simp del]

function config_lines :: "boost_string \<Rightarrow> string \<Rightarrow> string list list" where
  "config_lines B s =
     (case getconfiglinetokenized B s of None \<Rightarrow> [] | Some (ts, s') \<Rightarrow> ts # config_lines B s')"
  by auto
termination by (relation "measure (length \<circ> snd)") (auto dest: getconfiglinetokenized_shorter)

declare config_lines.simps [simp del]

lemma config_loop_foldE: "config_loop B f st s = foldE f st (config_lines B s)"
proof (induction B f st s rule: config_loop.induct)
  case (1 B f st s)
  show ?case
    using "1.IH"
    by (subst config_loop.simps, subst config_lines.simps) (auto simp: bindE_def split: option.splits sum.splits)
qed

section \<open>What the file means\<close>

text \<open>The words of a line, and the lines of a text: what the readers are to compute.\<close>

function words :: "string \<Rightarrow> string list" where
  "words s = (case dropWhile is_space s of [] \<Rightarrow> []
     | c # cs \<Rightarrow> (c # takeWhile (\<lambda>x. \<not> is_space x) cs) # words (dropWhile (\<lambda>x. \<not> is_space x) cs))"
  by auto
termination
proof (relation "measure length")
  fix s c cs assume "dropWhile is_space s = c # cs"
  then have "Suc (length cs) \<le> length s" using length_dropWhile_le [of is_space s] by simp
  moreover have "length (dropWhile (\<lambda>x. \<not> is_space x) cs) \<le> length cs" by (rule length_dropWhile_le)
  ultimately show "(dropWhile (\<lambda>x. \<not> is_space x) cs, s) \<in> measure length" by simp
qed simp

declare words.simps [simp del]

function text_lines :: "string \<Rightarrow> string list" where
  "text_lines s = (case getline s of None \<Rightarrow> [] | Some (l, s') \<Rightarrow> l # text_lines s')"
  by auto
termination by (relation "measure length") (auto dest: getline_shorter)

declare text_lines.simps [simp del]

definition is_directive :: "string list \<Rightarrow> bool" where
  "is_directive ws \<longleftrightarrow> ws \<noteq> [] \<and> hd (hd ws) \<noteq> CHR ''#''"

definition lower_char :: "char \<Rightarrow> char" where
  "lower_char c = (if 65 \<le> (of_char c :: nat) \<and> (of_char c :: nat) \<le> 90 then char_of (of_char c + 32 :: nat) else c)"

text \<open>The documented behaviour of \<open>trim\<close>, of \<open>split\<close> with \<open>is_space()\<close> and \<open>token_compress_on\<close>, and of
  \<open>to_lower_copy\<close> in the C locale.\<close>

definition boost_laws :: "boost_string \<Rightarrow> bool" where
  "boost_laws B \<longleftrightarrow>
     (\<forall>s. \<exists>l r. s = l @ bs_trim B s @ r \<and> list_all is_space l \<and> list_all is_space r
        \<and> (bs_trim B s = [] \<or> \<not> is_space (hd (bs_trim B s)) \<and> \<not> is_space (last (bs_trim B s))))
   \<and> (\<forall>w. list_all (\<lambda>c. \<not> is_space c) w \<longrightarrow> bs_split B w = [w])
   \<and> (\<forall>w sep rest. list_all (\<lambda>c. \<not> is_space c) w \<longrightarrow> sep \<noteq> [] \<longrightarrow> list_all is_space sep \<longrightarrow>
        (rest = [] \<or> \<not> is_space (hd rest)) \<longrightarrow> bs_split B (w @ sep @ rest) = w # bs_split B rest)
   \<and> (\<forall>s. bs_to_lower B s = map lower_char s)"

lemma boost_trimE:
  assumes "boost_laws B"
  obtains l r where "s = l @ bs_trim B s @ r" "list_all is_space l" "list_all is_space r"
    "bs_trim B s = [] \<or> \<not> is_space (hd (bs_trim B s)) \<and> \<not> is_space (last (bs_trim B s))"
  using assms unfolding boost_laws_def by blast

lemma boost_split_word: "boost_laws B \<Longrightarrow> list_all (\<lambda>c. \<not> is_space c) w \<Longrightarrow> bs_split B w = [w]"
  unfolding boost_laws_def by blast

lemma boost_split_sep:
  "boost_laws B \<Longrightarrow> list_all (\<lambda>c. \<not> is_space c) w \<Longrightarrow> sep \<noteq> [] \<Longrightarrow> list_all is_space sep \<Longrightarrow>
   rest = [] \<or> \<not> is_space (hd rest) \<Longrightarrow> bs_split B (w @ sep @ rest) = w # bs_split B rest"
  unfolding boost_laws_def by blast

lemma dropWhile_spaces: "list_all is_space l \<Longrightarrow> dropWhile is_space (l @ t) = dropWhile is_space t"
  by (induction l) auto

lemma words_spaces_left: "list_all is_space l \<Longrightarrow> words (l @ t) = words t"
  by (subst words.simps, subst (2) words.simps) (simp add: dropWhile_spaces)

lemma words_spaces: "list_all is_space l \<Longrightarrow> words l = []"
  using words_spaces_left [of l "[]"] by (simp add: words.simps)

lemma words_nonempty_tokens: "w \<in> set (words s) \<Longrightarrow> w \<noteq> [] \<and> list_all (\<lambda>c. \<not> is_space c) w"
proof (induction s rule: words.induct)
  case (1 s)
  show ?case
  proof (cases "dropWhile is_space s")
    case Nil
    with "1.prems" show ?thesis by (subst (asm) words.simps) simp
  next
    case (Cons c cs)
    then have "\<not> is_space c" by (metis hd_dropWhile list.distinct(1) list.sel(1))
    from Cons have ws: "words s = (c # takeWhile (\<lambda>x. \<not> is_space x) cs) # words (dropWhile (\<lambda>x. \<not> is_space x) cs)"
      by (subst words.simps) simp
    have "list_all (\<lambda>x. \<not> is_space x) (takeWhile (\<lambda>x. \<not> is_space x) cs)"
      unfolding list_all_iff by (blast dest: set_takeWhileD)
    with \<open>\<not> is_space c\<close> "1.prems" "1.IH" [OF Cons] ws show ?thesis by auto
  qed
qed

lemma words_cons:
  "\<not> is_space c \<Longrightarrow> words (c # cs) = (c # takeWhile (\<lambda>x. \<not> is_space x) cs) # words (dropWhile (\<lambda>x. \<not> is_space x) cs)"
  by (subst words.simps) simp

lemma words_append_spaces: "list_all is_space r \<Longrightarrow> words (t @ r) = words t"
proof (induction t rule: words.induct)
  case (1 t)
  show ?case
  proof (cases "dropWhile is_space t")
    case Nil
    then have "list_all is_space t" by (simp add: list_all_iff)
    with "1.prems" show ?thesis by (simp add: words_spaces)
  next
    case (Cons c cs)
    let ?P = "\<lambda>x. \<not> is_space x"
    from Cons obtain l where l: "list_all is_space l" "t = l @ c # cs"
      by (metis list_all_iff set_takeWhileD takeWhile_dropWhile_id)
    have c: "\<not> is_space c" using Cons by (metis hd_dropWhile list.distinct(1) list.sel(1))
    have tw: "takeWhile ?P (cs @ r) = takeWhile ?P cs"
      using "1.prems" by (induction cs) (auto simp: list_all_iff takeWhile_eq_Nil_iff intro: hd_in_set)
    have dw: "words (dropWhile ?P (cs @ r)) = words (dropWhile ?P cs @ r)"
    proof (cases "list_all ?P cs")
      case True
      have "dropWhile ?P cs = []" using True by (simp add: list_all_iff)
      moreover have "dropWhile ?P (cs @ r) = dropWhile ?P r" using True by (simp add: list_all_iff)
      moreover have "dropWhile ?P r = r" using "1.prems" by (cases r) auto
      ultimately show ?thesis by (simp only: append_Nil)
    next
      case False
      then have "\<exists>x \<in> set cs. \<not> ?P x" by (simp add: list_all_iff)
      then show ?thesis by auto
    qed
    have "words (t @ r) = words (c # cs @ r)" using l by (simp add: words_spaces_left)
    also have "\<dots> = words (c # cs)" using c tw dw "1.IH" [OF Cons "1.prems"] by (simp add: words_cons)
    also have "\<dots> = words t" using l by (simp add: words_spaces_left)
    finally show ?thesis .
  qed
qed

text \<open>On trimmed, nonempty text, \<open>split\<close> computes the words.\<close>

lemma split_words:
  assumes "boost_laws B" and "t \<noteq> []" and "\<not> is_space (hd t)" and "\<not> is_space (last t)"
  shows "bs_split B t = words t"
  using assms(2-)
proof (induction t rule: length_induct)
  case (1 t)
  let ?P = "\<lambda>x. \<not> is_space x"
  from "1.prems"(1) obtain c cs where t: "t = c # cs" by (cases t) auto
  have c: "\<not> is_space c" using "1.prems"(2) t by simp
  show ?case
  proof (cases "list_all ?P cs")
    case True
    then have tw: "takeWhile ?P cs = cs" and dw: "dropWhile ?P cs = []"
      by (simp_all add: list_all_iff)
    have "bs_split B t = [t]" using boost_split_word [OF assms(1)] True c t by simp
    moreover have "words t = [t]" unfolding t words_cons [OF c] tw dw by (simp add: words_spaces)
    ultimately show ?thesis by simp
  next
    case False
    let ?d = "dropWhile ?P cs"
    define w where "w = c # takeWhile ?P cs"
    define sep where "sep = takeWhile is_space ?d"
    define rest where "rest = dropWhile is_space ?d"
    have tw: "t = w @ sep @ rest" using t by (simp add: w_def sep_def rest_def)
    have "?d \<noteq> []" using False by (auto simp: list_all_iff)
    then have sep: "sep \<noteq> []" using hd_dropWhile [of ?P cs] by (cases ?d) (auto simp: sep_def)
    have wsp: "list_all ?P w" "list_all is_space sep"
      using c by (auto simp: w_def sep_def list_all_iff dest: set_takeWhileD)
    have rest: "rest \<noteq> []"
    proof
      assume "rest = []"
      with tw sep have "last t \<in> set sep" by simp
      with wsp(2) "1.prems"(3) show False by (auto simp: list_all_iff)
    qed
    have hdr: "\<not> is_space (hd rest)" unfolding rest_def using rest hd_dropWhile rest_def by blast
    have "last rest = last t" "length rest < length t" using tw rest sep by auto
    with "1.IH" rest hdr "1.prems"(3) have "bs_split B rest = words rest" by simp
    moreover have "bs_split B t = w # bs_split B rest"
      using boost_split_sep [OF assms(1) wsp(1) sep wsp(2)] hdr unfolding tw by blast
    moreover have "words ?d = words rest"
      using words_spaces_left [OF wsp(2), of rest] by (simp add: sep_def rest_def)
    ultimately show ?thesis using t c by (simp add: words_cons w_def)
  qed
qed

lemma words_trim: "boost_laws B \<Longrightarrow> words (bs_trim B s) = words s"
proof -
  assume "boost_laws B"
  then obtain l r where *: "s = l @ bs_trim B s @ r" "list_all is_space l" "list_all is_space r"
    by (rule boost_trimE)
  have "words (l @ bs_trim B s @ r) = words (bs_trim B s)"
    using *(2,3) by (simp add: words_spaces_left words_append_spaces)
  with *(1) show ?thesis by simp
qed

lemma trim_directive:
  assumes "boost_laws B"
  shows "(bs_trim B s = [] \<or> hd (bs_trim B s) = CHR ''#'') \<longleftrightarrow> \<not> is_directive (words s)"
proof (cases "bs_trim B s")
  case Nil
  then show ?thesis using words_trim [OF assms, of s] by (simp add: is_directive_def words.simps)
next
  case (Cons c cs)
  have "bs_trim B s = [] \<or> \<not> is_space (hd (bs_trim B s))" by (rule boost_trimE [OF assms, of s]) blast
  with Cons have "\<not> is_space c" by simp
  then have "hd (hd (words s)) = c" "words s \<noteq> []" using words_trim [OF assms, of s] Cons by (simp_all add: words_cons flip: words_trim [OF assms, of s])
  with Cons show ?thesis by (simp add: is_directive_def)
qed

lemma getconfigline_words:
  assumes "boost_laws B"
  shows "getconfiglinetokenized B s =
    (case getline s of None \<Rightarrow> None
     | Some (line, s') \<Rightarrow> if is_directive (words line) then Some (words line, s') else getconfiglinetokenized B s')"
proof (cases "getline s")
  case None
  then show ?thesis by (simp add: getconfiglinetokenized_def getconfigline.simps)
next
  case (Some p)
  then obtain line s' where p: "getline s = Some (line, s')" by (cases p) auto
  note iff = trim_directive [OF assms, of line]
  show ?thesis
  proof (cases "is_directive (words line)")
    case True
    with iff have t: "bs_trim B line \<noteq> []" "\<not> hd (bs_trim B line) = CHR ''#''" by auto
    have "bs_split B (bs_trim B line) = words (bs_trim B line)"
      by (rule boost_trimE [OF assms, of line], rule split_words [OF assms]) (use t in auto)
    then have "tokenize B (bs_trim B line) = words line" by (simp add: tokenize_def words_trim [OF assms])
    with p True t show ?thesis by (simp add: getconfiglinetokenized_def getconfigline.simps)
  next
    case False
    with iff have "bs_trim B line = [] \<or> hd (bs_trim B line) = CHR ''#''" by blast
    with p have "getconfigline B s = getconfigline B s'" by (subst getconfigline.simps) simp
    with p False show ?thesis by (simp add: getconfiglinetokenized_def)
  qed
qed

lemma config_lines_spec:
  assumes "boost_laws B"
  shows "config_lines B s = filter is_directive (map words (text_lines s))"
proof (induction s rule: length_induct)
  case (1 s)
  show ?case
  proof (cases "getline s")
    case None
    then show ?thesis
      by (subst config_lines.simps, subst text_lines.simps) (simp add: getconfigline_words [OF assms])
  next
    case (Some p)
    then obtain line s' where p: "getline s = Some (line, s')" by (cases p) auto
    from "1.IH" getline_shorter [OF p]
    have IH: "config_lines B s' = filter is_directive (map words (text_lines s'))" by blast
    have tl: "text_lines s = line # text_lines s'" using p by (subst text_lines.simps) simp
    show ?thesis
    proof (cases "is_directive (words line)")
      case True
      then have "config_lines B s = words line # config_lines B s'"
        using p by (subst config_lines.simps) (simp add: getconfigline_words [OF assms])
      with IH tl True show ?thesis by simp
    next
      case False
      then have "getconfiglinetokenized B s = getconfiglinetokenized B s'"
        using p by (subst getconfigline_words [OF assms]) simp
      then have "config_lines B s = config_lines B s'"
        by (subst config_lines.simps, subst (2) config_lines.simps) simp
      with IH tl False show ?thesis by simp
    qed
  qed
qed

text \<open>What every line handed to a loader satisfies.\<close>

definition token_line :: "string list \<Rightarrow> bool" where
  "token_line ts \<longleftrightarrow> is_directive ts \<and> list_all (\<lambda>t. t \<noteq> []) ts"

lemma config_lines_token_line: "boost_laws B \<Longrightarrow> list_all token_line (config_lines B s)"
  using words_nonempty_tokens by (auto simp: config_lines_spec token_line_def list_all_iff)

text \<open>Files as the tools that write them have them: the tokens of a line separated by blanks.\<close>

fun unwords :: "string list \<Rightarrow> string" where
  "unwords [] = ''''"
| "unwords [w] = w"
| "unwords (w # ws) = w @ '' '' @ unwords ws"

definition write_lines :: "string list list \<Rightarrow> string" where
  "write_lines tss = concat (map (\<lambda>ts. unwords ts @ [newline]) tss)"

definition plain_token :: "string \<Rightarrow> bool" where
  "plain_token t \<longleftrightarrow> t \<noteq> [] \<and> list_all (\<lambda>c. \<not> is_space c) t"

lemma plain_token_append:
  "plain_token s \<Longrightarrow> list_all (\<lambda>c. \<not> is_space c) t \<Longrightarrow> plain_token (s @ t)"
  by (simp add: plain_token_def)

lemma words_token: "plain_token w \<Longrightarrow> words w = [w]"
proof -
  assume "plain_token w"
  then obtain c cs where w: "w = c # cs" "\<not> is_space c" "\<forall>x \<in> set cs. \<not> is_space x"
    by (cases w) (auto simp: plain_token_def list_all_iff)
  then have tw: "takeWhile (\<lambda>x. \<not> is_space x) cs = cs" "dropWhile (\<lambda>x. \<not> is_space x) cs = []" by simp_all
  show ?thesis unfolding w(1) words_cons [OF w(2)] tw by (simp add: words_spaces)
qed

lemma words_token_sep: "plain_token w \<Longrightarrow> words (w @ CHR '' '' # s) = w # words s"
proof -
  assume "plain_token w"
  then obtain c cs where w: "w = c # cs" "\<not> is_space c" "\<forall>x \<in> set cs. \<not> is_space x"
    by (cases w) (auto simp: plain_token_def list_all_iff)
  have sp: "is_space (CHR '' '')" by (simp add: is_space_def)
  have tw: "takeWhile (\<lambda>x. \<not> is_space x) (cs @ CHR '' '' # s) = cs" using w(3) sp by simp
  have dw: "dropWhile (\<lambda>x. \<not> is_space x) (cs @ CHR '' '' # s) = CHR '' '' # s" using w(3) sp by simp
  have "words (CHR '' '' # s) = words s" using words_spaces_left [of "'' ''" s] sp by simp
  then show ?thesis unfolding w(1) append_Cons words_cons [OF w(2)] tw dw by simp
qed

lemma words_unwords: "list_all plain_token ts \<Longrightarrow> words (unwords ts) = ts"
  by (induction ts rule: unwords.induct) (simp_all add: words_spaces words_token words_token_sep)

lemma newline_unwords: "list_all plain_token ts \<Longrightarrow> newline \<notin> set (unwords ts)"
  by (induction ts rule: unwords.induct) (auto simp: plain_token_def list_all_iff)

lemma text_lines_step: "newline \<notin> set l \<Longrightarrow> text_lines (l @ newline # s) = l # text_lines s"
proof -
  assume l: "newline \<notin> set l"
  then have "\<forall>c \<in> set l. c \<noteq> newline" by auto
  then have "getline (l @ newline # s) = Some (l, s)" by (simp add: getline_def)
  then show ?thesis by (subst text_lines.simps) simp
qed

lemma read_written_lines:
  "list_all (\<lambda>ts. is_directive ts \<and> list_all plain_token ts) tss \<Longrightarrow>
   filter is_directive (map words (text_lines (write_lines tss))) = tss"
proof (induction tss)
  case Nil
  show ?case by (simp add: write_lines_def text_lines.simps getline_def)
next
  case (Cons ts tss)
  have "write_lines (ts # tss) = unwords ts @ newline # write_lines tss" by (simp add: write_lines_def)
  then have "text_lines (write_lines (ts # tss)) = unwords ts # text_lines (write_lines tss)"
    using Cons.prems by (simp add: text_lines_step newline_unwords)
  with Cons show ?case by (simp add: words_unwords)
qed

text \<open>The laws can hold: \<open>trim\<close> and \<open>split\<close> by hand.\<close>

definition trim_spaces :: "string \<Rightarrow> string" where
  "trim_spaces s = rev (dropWhile is_space (rev (dropWhile is_space s)))"

function split_spaces :: "string \<Rightarrow> string list" where
  "split_spaces s =
     (let w = takeWhile (\<lambda>c. \<not> is_space c) s; r = dropWhile (\<lambda>c. \<not> is_space c) s
      in if r = [] then [w] else w # split_spaces (dropWhile is_space r))"
  by auto
termination
proof (relation "measure length")
  fix s w r :: string
  assume r_def: "r = dropWhile (\<lambda>c. \<not> is_space c) s" and "r \<noteq> []"
  then have "is_space (hd r)" using hd_dropWhile [of "\<lambda>c. \<not> is_space c" s] by (simp add: r_def)
  with \<open>r \<noteq> []\<close> have "length (dropWhile is_space r) < length r"
    by (cases r) (auto simp: less_Suc_eq_le length_dropWhile_le)
  also have "\<dots> \<le> length s" by (simp add: r_def length_dropWhile_le)
  finally show "(dropWhile is_space r, s) \<in> measure length" by simp
qed simp

declare split_spaces.simps [simp del]

definition example_boost :: boost_string where
  "example_boost = \<lparr>bs_trim = trim_spaces, bs_split = split_spaces, bs_to_lower = map lower_char\<rparr>"

lemma trim_spaces_law:
  "\<exists>l r. s = l @ trim_spaces s @ r \<and> list_all is_space l \<and> list_all is_space r
     \<and> (trim_spaces s = [] \<or> \<not> is_space (hd (trim_spaces s)) \<and> \<not> is_space (last (trim_spaces s)))"
proof -
  define l where "l = takeWhile is_space s"
  define t where "t = dropWhile is_space s"
  define r where "r = rev (takeWhile is_space (rev t))"
  have ts: "trim_spaces s = rev (dropWhile is_space (rev t))" by (simp add: trim_spaces_def t_def)
  have "rev t = takeWhile is_space (rev t) @ dropWhile is_space (rev t)" by simp
  then have "t = trim_spaces s @ r" unfolding ts r_def by (metis rev_append rev_rev_ident)
  moreover from this have "trim_spaces s \<noteq> [] \<Longrightarrow> hd (trim_spaces s) = hd t \<and> t \<noteq> []" by auto
  moreover have "t \<noteq> [] \<Longrightarrow> \<not> is_space (hd t)" unfolding t_def by (rule hd_dropWhile)
  moreover have "trim_spaces s \<noteq> [] \<Longrightarrow> \<not> is_space (last (trim_spaces s))"
    unfolding ts by (simp add: last_rev hd_dropWhile)
  moreover have "s = l @ t" by (simp add: l_def t_def)
  moreover have "list_all is_space l" "list_all is_space r"
    unfolding l_def r_def list_all_iff by (auto dest: set_takeWhileD)
  ultimately show ?thesis by (intro exI [of _ l] exI [of _ r]) auto
qed

lemma example_boost_laws: "boost_laws example_boost"
  unfolding boost_laws_def
proof (intro conjI allI impI)
  show "\<exists>l r. s = l @ bs_trim example_boost s @ r \<and> list_all is_space l \<and> list_all is_space r
     \<and> (bs_trim example_boost s = [] \<or>
        \<not> is_space (hd (bs_trim example_boost s)) \<and> \<not> is_space (last (bs_trim example_boost s)))" for s
    using trim_spaces_law [of s] by (simp add: example_boost_def)
next
  fix w assume "list_all (\<lambda>c. \<not> is_space c) w"
  then have "dropWhile (\<lambda>c. \<not> is_space c) w = []" "takeWhile (\<lambda>c. \<not> is_space c) w = w"
    by (simp_all add: list_all_iff)
  then show "bs_split example_boost w = [w]"
    by (simp add: example_boost_def split_spaces.simps)
next
  fix w sep rest :: string
  assume w: "list_all (\<lambda>c. \<not> is_space c) w" and sep: "sep \<noteq> []" "list_all is_space sep"
    and rest: "rest = [] \<or> \<not> is_space (hd rest)"
  let ?P = "\<lambda>c. \<not> is_space c"
  have d: "dropWhile ?P (w @ sep @ rest) = sep @ rest" "takeWhile ?P (w @ sep @ rest) = w"
    using w sep by (cases sep; simp add: list_all_iff)+
  have "dropWhile is_space (sep @ rest) = rest"
    using sep rest by (cases rest) (simp_all add: dropWhile_spaces list_all_iff)
  with d sep show "bs_split example_boost (w @ sep @ rest) = w # bs_split example_boost rest"
    by (simp add: example_boost_def) (subst split_spaces.simps, simp add: Let_def)
qed (simp add: example_boost_def)

text \<open>
  C23. What a configuration loader sees of a file: for each line of the text, in order, its words,
  except for the lines that are blank or whose first word starts with \<open>#\<close>. The loops of
  \<open>getconfigline\<close> and of the loaders end on every text, and a loader stops at the first line it
  rejects.
\<close>

theorem config_loop_reads_directives:
  assumes "boost_laws B"
  shows "config_loop B f st s = foldE f st (filter is_directive (map words (text_lines s)))"
  by (simp add: config_loop_foldE config_lines_spec [OF assms])

theorem config_loop_reads_directives_witness:
  "config_loop example_boost (\<lambda>st ts. if ts = [''stop''] then Inl ts else Inr (st @ [ts])) []
     (''# comment'' @ [newline] @ '' a  b '' @ [newline, newline] @ ''c'')
   = Inr [[''a'', ''b''], [''c'']]"
  by (subst config_loop_reads_directives [OF example_boost_laws]) code_simp

end
