(* ===== verification/Ns3_Config.thy ===== *)
theory Ns3_Config
  imports Ns3_Env Io_Utils
begin

text \<open>
  \<open>sim/ns3object_config.cc\<close> and \<open>sim/ns3_utils.cc\<close>, \<open>sim/ns3_utils.h\<close>: object configurations,
  attribute assignments \<open>Name=value\<close>, and the calls made on the ns-3 helpers to apply them. What a
  helper is told is recorded as a list of \<open>helper_call\<close>; a function that returns false after an
  error message returns \<open>False\<close> together with the calls it had made.
\<close>

section \<open>Errors of the configuration loaders\<close>

datatype cfg_error =
    ReturnFalse      \<comment> \<open>an error was printed and the loader returns false\<close>
  | Crash fault      \<comment> \<open>the program does not get that far\<close>

text \<open>
  A loader as an interface: a step for the tokens of one line, what holds of the configuration
  between lines, and the errors a line can cause.
\<close>

locale config_loader =
  fixes load_line :: "'s \<Rightarrow> string list \<Rightarrow> 'e + 's"
    and inv :: "'s \<Rightarrow> bool"
    and errs :: "'e set"
  assumes line_inv: "token_line ts \<Longrightarrow> inv st \<Longrightarrow> load_line st ts = Inr st' \<Longrightarrow> inv st'"
    and line_errs: "token_line ts \<Longrightarrow> inv st \<Longrightarrow> load_line st ts = Inl e \<Longrightarrow> e \<in> errs"
begin

lemma lines_inv_errs:
  "list_all token_line tss \<Longrightarrow> inv st \<Longrightarrow>
   (case foldE load_line st tss of Inl e \<Rightarrow> e \<in> errs | Inr st' \<Rightarrow> inv st')"
proof (induction tss arbitrary: st)
  case (Cons ts tss)
  show ?case
  proof (cases "load_line st ts")
    case (Inl e)
    with Cons.prems line_errs show ?thesis by auto
  next
    case (Inr st')
    with Cons.prems line_inv have "inv st'" by auto
    with Cons.IH Cons.prems Inr show ?thesis by auto
  qed
qed simp

lemma load_inv_errs:
  assumes "boost_laws B" and "inv st"
  shows "case config_loop B load_line st s of Inl e \<Rightarrow> e \<in> errs | Inr st' \<Rightarrow> inv st'"
  unfolding config_loop_foldE by (rule lines_inv_errs) (rule config_lines_token_line [OF assms(1)], rule assms(2))

end

definition token_at :: "string list \<Rightarrow> nat \<Rightarrow> cfg_error + string" where
  "token_at tokens k = (if k < length tokens then Inr (tokens ! k) else Inl (Crash OutOfBounds))"

definition or_false :: "'a option \<Rightarrow> cfg_error + 'a" where
  "or_false r = (case r of None \<Rightarrow> Inl ReturnFalse | Some x \<Rightarrow> Inr x)"

definition or_crash :: "fault + 'a \<Rightarrow> cfg_error + 'a" where
  "or_crash r = (case r of Inl f \<Rightarrow> Inl (Crash f) | Inr x \<Rightarrow> Inr x)"

lemma or_false_Inr [simp]: "or_false r = Inr x \<longleftrightarrow> r = Some x"
  by (cases r) (simp_all add: or_false_def)

lemma or_false_Inl [simp]: "or_false r = Inl e \<longleftrightarrow> r = None \<and> e = ReturnFalse"
  by (cases r) (auto simp: or_false_def)

lemma or_crash_Inr [simp]: "or_crash r = Inr x \<longleftrightarrow> r = Inr x"
  by (cases r) (simp_all add: or_crash_def)

lemma or_crash_Inl [simp]: "or_crash r = Inl e \<longleftrightarrow> (\<exists>f. r = Inl f \<and> e = Crash f)"
  by (cases r) (auto simp: or_crash_def)

lemma token_at_Inr [simp]: "token_at tokens k = Inr t \<longleftrightarrow> k < length tokens \<and> t = tokens ! k"
  by (auto simp: token_at_def)

lemma token_at_Inl [simp]: "token_at tokens k = Inl e \<longleftrightarrow> length tokens \<le> k \<and> e = Crash OutOfBounds"
  by (auto simp: token_at_def)

text \<open>A line of the directive \<open>d\<close>.\<close>

definition is_line :: "string \<Rightarrow> string list \<Rightarrow> bool" where
  "is_line d ts \<longleftrightarrow> ts \<noteq> [] \<and> hd ts = d"

section \<open>Attribute assignments\<close>

definition ParseAttributeAssignmentSpec :: "string \<Rightarrow> (string \<times> string) option" where
  "ParseAttributeAssignmentSpec spec =
     (let x = length (takeWhile (\<lambda>c. c \<noteq> CHR ''='') spec)
      in if x = length spec then None else Some (take x spec, drop (x + 1) spec))"

lemma parse_assignment:
  "CHR ''='' \<notin> set k \<Longrightarrow> ParseAttributeAssignmentSpec (k @ ''='' @ v) = Some (k, v)"
proof -
  assume k: "CHR ''='' \<notin> set k"
  then have "\<forall>c \<in> set k. c \<noteq> CHR ''=''" by auto
  then have "takeWhile (\<lambda>c. c \<noteq> CHR ''='') (k @ ''='' @ v) = k" by simp
  then show ?thesis by (simp add: ParseAttributeAssignmentSpec_def)
qed

lemma parse_assignment_SomeD:
  assumes "ParseAttributeAssignmentSpec s = Some (k, v)"
  shows "s = k @ ''='' @ v \<and> CHR ''='' \<notin> set k"
proof -
  let ?tw = "takeWhile (\<lambda>c. c \<noteq> CHR ''='') s" and ?dw = "dropWhile (\<lambda>c. c \<noteq> CHR ''='') s"
  from assms have len: "length ?tw \<noteq> length s" and kv: "k = take (length ?tw) s" "v = drop (length ?tw + 1) s"
    by (simp_all add: ParseAttributeAssignmentSpec_def Let_def split: if_splits)
  have tk: "take (length ?tw) s = ?tw" by (rule takeWhile_eq_take [symmetric])
  have dr: "drop (length ?tw) s = ?dw" by (rule dropWhile_eq_drop [symmetric])
  have ne: "?dw \<noteq> []" using len by (metis append_Nil2 takeWhile_dropWhile_id)
  with hd_dropWhile [OF ne] obtain d where d: "?dw = CHR ''='' # d" by (cases ?dw) auto
  have "v = d" using kv(2) dr d by (metis drop_drop drop_0 drop_Suc_Cons One_nat_def add.commute)
  moreover have "s = ?tw @ ?dw" by simp
  moreover have "CHR ''='' \<notin> set ?tw" by (auto dest: set_takeWhileD)
  ultimately show ?thesis using kv(1) tk d by simp
qed

lemma parse_assignment_None: "ParseAttributeAssignmentSpec s = None \<longleftrightarrow> CHR ''='' \<notin> set s"
proof -
  have "length (takeWhile (\<lambda>c. c \<noteq> CHR ''='') s) = length s \<longleftrightarrow> CHR ''='' \<notin> set s"
  proof (cases "CHR ''='' \<in> set s")
    case True
    then have "length (takeWhile (\<lambda>c. c \<noteq> CHR ''='') s) < length s" by (intro length_takeWhile_less) blast
    with True show ?thesis by simp
  next
    case False
    then have "\<forall>c \<in> set s. c \<noteq> CHR ''=''" by auto
    then have tw: "takeWhile (\<lambda>c. c \<noteq> CHR ''='') s = s" by simp
    show ?thesis unfolding tw using False by simp
  qed
  then show ?thesis by (simp add: ParseAttributeAssignmentSpec_def Let_def)
qed

section \<open>Object configurations\<close>

record ns3objectConfig =
  type_name :: string
  attribute_assignments :: "string list"

definition empty_object :: ns3objectConfig where
  "empty_object = \<lparr>type_name = '''', attribute_assignments = []\<rparr>"

text \<open>The attribute assignments are appended to those already in \<open>cfg\<close>.\<close>

definition readNs3objectConfig :: "ns3objectConfig \<Rightarrow> string list \<Rightarrow> ns3objectConfig option" where
  "readNs3objectConfig cfg toks =
     (case toks of [] \<Rightarrow> None
      | ty # attrs \<Rightarrow> Some (cfg\<lparr>type_name := ty, attribute_assignments := attribute_assignments cfg @ attrs\<rparr>))"

section \<open>Calls on the helpers\<close>

datatype WifiPhyStandard =
    WIFI_PHY_STANDARD_80211a | WIFI_PHY_STANDARD_80211b | WIFI_PHY_STANDARD_80211g
  | WIFI_PHY_STANDARD_80211n_2_4GHZ | WIFI_PHY_STANDARD_80211n_5GHZ | WIFI_PHY_STANDARD_80211ac
  | WIFI_PHY_STANDARD_80211ax_2_4GHZ | WIFI_PHY_STANDARD_80211ax_5GHZ

type_synonym setter_args = "string \<times> (string \<times> string) list"

datatype helper_call =
    SetStandard WifiPhyStandard
  | SetRemoteStationManager setter_args
  | SetPropagationDelay setter_args
  | AddPropagationLoss setter_args
  | UseDefaultChannel
  | HelperSet string string
  | ObjectSetAttribute string string

type_synonym helper_result = "bool \<times> helper_call list"

definition andB :: "helper_result \<Rightarrow> helper_result \<Rightarrow> helper_result" where
  "andB r k = (if fst r then (fst k, snd r @ snd k) else (False, snd r))"

lemma andB_simps [simp]:
  "andB (True, cs) k = (fst k, cs @ snd k)"
  "andB (False, cs) k = (False, cs)"
  by (simp_all add: andB_def)

lemma fst_andB [simp]: "fst (andB r k) \<longleftrightarrow> fst r \<and> fst k"
  by (simp add: andB_def)

definition SetWifiStandardByString :: "string \<Rightarrow> WifiPhyStandard option" where
  "SetWifiStandardByString s =
     (if s = ''a'' \<or> s = ''802.11a'' then Some WIFI_PHY_STANDARD_80211a
      else if s = ''b'' \<or> s = ''802.11b'' then Some WIFI_PHY_STANDARD_80211b
      else if s = ''g'' \<or> s = ''802.11g'' then Some WIFI_PHY_STANDARD_80211g
      else if s = ''n2.4'' \<or> s = ''802.11n2.4'' then Some WIFI_PHY_STANDARD_80211n_2_4GHZ
      else if s = ''n5'' \<or> s = ''802.11n5'' then Some WIFI_PHY_STANDARD_80211n_5GHZ
      else if s = ''ac'' \<or> s = ''802.11ac'' then Some WIFI_PHY_STANDARD_80211ac
      else if s = ''ax2.4'' \<or> s = ''802.11ax2.4'' then Some WIFI_PHY_STANDARD_80211ax_2_4GHZ
      else if s = ''ax5'' \<or> s = ''802.11ax5'' then Some WIFI_PHY_STANDARD_80211ax_5GHZ
      else None)"

definition SetAttributeByAssignmentSpec :: "string \<Rightarrow> helper_result" where
  "SetAttributeByAssignmentSpec spec =
     (case ParseAttributeAssignmentSpec spec of None \<Rightarrow> (False, [])
      | Some (k, v) \<Rightarrow> (True, [ObjectSetAttribute k v]))"

definition SetFactoryAttributeByAssignmentSpec :: "string \<Rightarrow> helper_result" where
  "SetFactoryAttributeByAssignmentSpec spec =
     (case ParseAttributeAssignmentSpec spec of None \<Rightarrow> (False, [])
      | Some (k, v) \<Rightarrow> (True, [HelperSet k v]))"

text \<open>The loop that fills the arrays \<open>aname\<close> and \<open>aval\<close> of length 8.\<close>

fun fill_attributes :: "nat \<Rightarrow> string list \<Rightarrow> (string \<times> string) list \<Rightarrow> (string \<times> string) list option" where
  "fill_attributes i [] a = Some a"
| "fill_attributes i (spec # specs) a =
     (case ParseAttributeAssignmentSpec spec of None \<Rightarrow> None
      | Some kv \<Rightarrow> fill_attributes (Suc i) specs (a[i := kv]))"

definition setObjectFromConfig :: "(setter_args \<Rightarrow> helper_call) \<Rightarrow> ns3objectConfig \<Rightarrow> helper_result" where
  "setObjectFromConfig setter cfg =
     (if length (attribute_assignments cfg) > 8 then (False, [])
      else case fill_attributes 0 (attribute_assignments cfg) (replicate 8 ('''', '''')) of
        None \<Rightarrow> (False, [])
      | Some a \<Rightarrow> (True, [setter (type_name cfg, a)]))"

lemma fill_attributes_Some:
  "i + length specs \<le> length a \<Longrightarrow> fill_attributes i specs a =
    (case those (map ParseAttributeAssignmentSpec specs) of None \<Rightarrow> None
     | Some kvs \<Rightarrow> Some (take i a @ kvs @ drop (i + length specs) a))"
proof (induction specs arbitrary: i a)
  case (Cons spec specs)
  show ?case
  proof (cases "ParseAttributeAssignmentSpec spec")
    case (Some kv)
    have i: "i < length a" using Cons.prems by simp
    have t: "take (Suc i) (a[i := kv]) = take i a @ [kv]" using i by (simp add: take_Suc_conv_app_nth)
    have d: "drop (Suc i + length specs) (a[i := kv]) = drop (i + length (spec # specs)) a" by simp
    have "Suc i + length specs \<le> length (a[i := kv])" using Cons.prems by simp
    note IH = Cons.IH [OF this, unfolded t d]
    show ?thesis
      unfolding fill_attributes.simps Some option.case IH
      by (cases "those (map ParseAttributeAssignmentSpec specs)") (simp_all add: Some)
  qed simp
qed simp

lemma those_map_Some: "those (map f xs) = Some ys \<longleftrightarrow> list_all2 (\<lambda>x y. f x = Some y) xs ys"
proof (induction xs arbitrary: ys)
  case Nil
  show ?case by (cases ys) auto
next
  case (Cons x xs)
  show ?case by (cases ys) (auto simp: Cons.IH split: option.splits)
qed

lemma those_map_None: "those (map f xs) = None \<longleftrightarrow> (\<exists>x \<in> set xs. f x = None)"
  by (induction xs) (auto split: option.splits)

text \<open>The name and the value of a well-formed assignment.\<close>

definition assignment_of :: "string \<Rightarrow> string \<times> string" where
  "assignment_of s = (takeWhile (\<lambda>c. c \<noteq> CHR ''='') s, tl (dropWhile (\<lambda>c. c \<noteq> CHR ''='') s))"

lemma assignment_of_parse: "ParseAttributeAssignmentSpec s = Some kv \<Longrightarrow> kv = assignment_of s"
proof -
  assume a: "ParseAttributeAssignmentSpec s = Some kv"
  obtain k v where kv: "kv = (k, v)" by fastforce
  from parse_assignment_SomeD [of s k v] a kv have s: "s = k @ ''='' @ v" "CHR ''='' \<notin> set k" by auto
  then have "\<forall>c \<in> set k. c \<noteq> CHR ''=''" by auto
  then show ?thesis unfolding kv assignment_of_def s(1) by simp
qed

lemma those_parse:
  "list_all (\<lambda>s. CHR ''='' \<in> set s) specs \<Longrightarrow>
   those (map ParseAttributeAssignmentSpec specs) = Some (map assignment_of specs)"
  unfolding those_map_Some list_all2_conv_all_nth list_all_length
  using parse_assignment_None assignment_of_parse by (metis length_map nth_map option.exhaust)

lemma setObjectFromConfig_args:
  "setObjectFromConfig setter cfg =
     (let specs = attribute_assignments cfg
      in if length specs \<le> 8 \<and> list_all (\<lambda>s. CHR ''='' \<in> set s) specs
         then (True, [setter (type_name cfg, map assignment_of specs @ replicate (8 - length specs) ('''', ''''))])
         else (False, []))"
proof -
  let ?specs = "attribute_assignments cfg"
  consider (long) "length ?specs > 8"
    | (bad) "length ?specs \<le> 8" "\<not> list_all (\<lambda>s. CHR ''='' \<in> set s) ?specs"
    | (good) "length ?specs \<le> 8" "list_all (\<lambda>s. CHR ''='' \<in> set s) ?specs" by linarith
  then show ?thesis
  proof cases
    case long
    then show ?thesis by (simp add: setObjectFromConfig_def)
  next
    case bad
    then have "those (map ParseAttributeAssignmentSpec ?specs) = None"
      unfolding those_map_None list_all_iff using parse_assignment_None by blast
    with bad show ?thesis
      by (simp add: setObjectFromConfig_def fill_attributes_Some Let_def)
  next
    case good
    then show ?thesis
      by (simp add: setObjectFromConfig_def fill_attributes_Some those_parse Let_def)
  qed
qed

end
