(* ===== verification/Mobility_Config.thy ===== *)
theory Mobility_Config
  imports Ns3_Config
begin

text \<open>
  \<open>configureMobilityHelper\<close>, \<open>sim/mobility_config.cc\<close>: the loader of the files that place the nodes.
  The first directive of a file names a position allocator of ns-3 with its attributes, each later one
  is a point. A \<open>double\<close> is a type parameter \<open>'d\<close>; what the object factory, the attribute system and
  \<open>std::stod\<close> answer is the parameter \<open>alloc_env\<close>.
\<close>

section \<open>Data\<close>

record 'd alloc_env =
  ae_create :: "string \<Rightarrow> fault + bool option"
    \<comment> \<open>\<open>SetTypeId\<close> and \<open>Create<PositionAllocator>\<close>: \<open>None\<close> is the null pointer of an object of another
       class, \<open>Some b\<close> says whether the object is a \<open>ListPositionAllocator\<close>\<close>
  ae_accepts :: "string \<Rightarrow> string \<Rightarrow> string \<Rightarrow> bool"   \<comment> \<open>type, attribute and value\<close>
  ae_stod :: "string \<Rightarrow> fault + 'd"

record 'd PositionAllocator =
  pa_type :: string
  pa_is_list :: bool
  pa_attrs :: "(string \<times> string) list"
  pa_points :: "('d \<times> 'd \<times> 'd) list"

record 'd MobilityHelper =
  mh_alloc :: "'d PositionAllocator option"
  mh_model :: string

section \<open>The loader\<close>

definition create_alloc :: "'d alloc_env \<Rightarrow> string \<Rightarrow> cfg_error + 'd PositionAllocator option" where
  "create_alloc E ty =
     bindE (or_crash (ae_create E ty)) (\<lambda>r.
       Inr (map_option (\<lambda>is_list. \<lparr>pa_type = ty, pa_is_list = is_list, pa_attrs = [], pa_points = []\<rparr>) r))"

text \<open>A call on the allocator through its pointer; \<open>SetAttribute\<close> aborts for an attribute or a value
  that the class does not have.\<close>

definition alloc_call ::
  "'d alloc_env \<Rightarrow> 'd PositionAllocator option \<Rightarrow> helper_call \<Rightarrow> cfg_error + 'd PositionAllocator option" where
  "alloc_call E p c =
     (case p of None \<Rightarrow> Inl (Crash NullPointer)
      | Some pa \<Rightarrow> (case c of
          ObjectSetAttribute k v \<Rightarrow>
            if ae_accepts E (pa_type pa) k v then Inr (Some (pa\<lparr>pa_attrs := pa_attrs pa @ [(k, v)]\<rparr>))
            else Inl (Crash (FatalError ''SetAttribute''))
        | _ \<Rightarrow> Inr p))"

definition set_alloc_attribute ::
  "'d alloc_env \<Rightarrow> 'd PositionAllocator option \<Rightarrow> string \<Rightarrow> cfg_error + 'd PositionAllocator option" where
  "set_alloc_attribute E p spec =
     (let (ok, calls) = SetAttributeByAssignmentSpec spec in
      if \<not> ok then Inl ReturnFalse else foldE (alloc_call E) p calls)"

definition read_point :: "'d::zero alloc_env \<Rightarrow> string list \<Rightarrow> fault + ('d \<times> 'd \<times> 'd)" where
  "read_point E tok =
     bindE (ae_stod E (tok ! 0)) (\<lambda>x. bindE (ae_stod E (tok ! 1)) (\<lambda>y.
       if length tok = 2 then Inr (x, y, 0)
       else bindE (ae_stod E (tok ! 2)) (\<lambda>z. Inr (x, y, z))))"

definition load_position ::
  "'d::zero alloc_env \<Rightarrow> 'd PositionAllocator option \<Rightarrow> string list \<Rightarrow> cfg_error + 'd PositionAllocator option" where
  "load_position E p tok =
     (if length tok \<noteq> 2 \<and> length tok \<noteq> 3 then Inl ReturnFalse
      else bindE (or_crash (read_point E tok)) (\<lambda>v.
        case p of None \<Rightarrow> Inl (Crash NullPointer)
        | Some pa \<Rightarrow> if pa_is_list pa then Inr (Some (pa\<lparr>pa_points := pa_points pa @ [v]\<rparr>))
                     else Inl (Crash NullPointer)))"

definition configureMobilityHelper ::
  "'d::zero alloc_env \<Rightarrow> boost_string \<Rightarrow> 'd MobilityHelper \<Rightarrow> string option \<Rightarrow> cfg_error + 'd MobilityHelper" where
  "configureMobilityHelper E B helper fp =
     (case fp of None \<Rightarrow> Inl ReturnFalse
      | Some s \<Rightarrow> (case getconfiglinetokenized B s of None \<Rightarrow> Inl ReturnFalse
          | Some (pos_alloc_spec, s') \<Rightarrow>
              bindE (token_at pos_alloc_spec 0) (\<lambda>ty.
              bindE (create_alloc E ty) (\<lambda>p.
              bindE (foldE (set_alloc_attribute E) p (tl pos_alloc_spec)) (\<lambda>p.
              bindE (config_loop B (load_position E) p s') (\<lambda>p.
                Inr (helper\<lparr>mh_alloc := p, mh_model := ''ns3::ConstantPositionMobilityModel''\<rparr>)))))))"

section \<open>What a file means\<close>

definition alloc_ok :: "'d PositionAllocator option \<Rightarrow> bool" where
  "alloc_ok p \<longleftrightarrow> (case p of None \<Rightarrow> True | Some pa \<Rightarrow> pa_points pa = [] \<or> pa_is_list pa)"

definition position_errors :: "'d alloc_env \<Rightarrow> cfg_error set" where
  "position_errors E = {ReturnFalse, Crash NullPointer} \<union> {Crash f |f. \<exists>t. ae_stod E t = Inl f}"

lemma load_position_Inr:
  "load_position E p tok = Inr p' \<longleftrightarrow>
   (\<exists>pa v. p = Some pa \<and> pa_is_list pa \<and> length tok \<in> {2, 3} \<and> read_point E tok = Inr v
      \<and> p' = Some (pa\<lparr>pa_points := pa_points pa @ [v]\<rparr>))"
  by (auto simp: load_position_def split: option.splits if_splits)

lemma read_point_Inl: "read_point E tok = Inl f \<Longrightarrow> \<exists>t. ae_stod E t = Inl f"
  by (auto simp: read_point_def bindE_Inl_iff split: if_splits)

interpretation mobility: config_loader "load_position E" alloc_ok "position_errors E" for E :: "'d::zero alloc_env"
proof unfold_locales
  fix ts and p p' :: "'d PositionAllocator option"
  assume "load_position E p ts = Inr p'"
  then show "alloc_ok p'" by (auto simp: load_position_Inr alloc_ok_def)
next
  fix ts and p :: "'d PositionAllocator option" and e
  assume "load_position E p ts = Inl e"
  then show "e \<in> position_errors E"
    using read_point_Inl
    by (auto simp: load_position_def bindE_Inl_iff position_errors_def split: option.splits if_splits)
qed

lemma set_alloc_attributes:
  "foldE (set_alloc_attribute E) p specs = Inr p' \<Longrightarrow> specs \<noteq> [] \<or> p \<noteq> None \<Longrightarrow>
   \<exists>pa. p = Some pa \<and> p' = Some (pa\<lparr>pa_attrs := pa_attrs pa @ map assignment_of specs\<rparr>)"
proof (induction specs arbitrary: p)
  case (Cons spec specs)
  from Cons.prems(1) obtain q where q: "set_alloc_attribute E p spec = Inr q"
    "foldE (set_alloc_attribute E) q specs = Inr p'" by auto
  from q(1) obtain pa kv where pa: "p = Some pa" "ParseAttributeAssignmentSpec spec = Some kv"
    "q = Some (pa\<lparr>pa_attrs := pa_attrs pa @ [kv]\<rparr>)"
    by (auto simp: set_alloc_attribute_def SetAttributeByAssignmentSpec_def alloc_call_def split: option.splits if_splits)
  from Cons.IH [OF q(2)] pa assignment_of_parse [OF pa(2)] show ?case by auto
qed auto

lemma load_positions:
  "foldE (load_position E) (Some pa) rows = Inr p' \<Longrightarrow>
   \<exists>vs. list_all2 (\<lambda>tok v. length tok \<in> {2, 3} \<and> read_point E tok = Inr v) rows vs
      \<and> p' = Some (pa\<lparr>pa_points := pa_points pa @ vs\<rparr>) \<and> (rows \<noteq> [] \<longrightarrow> pa_is_list pa)"
proof (induction rows arbitrary: pa)
  case (Cons tok rows)
  then obtain q where q: "load_position E (Some pa) tok = Inr q" "foldE (load_position E) q rows = Inr p'" by auto
  from q(1) obtain v where v: "length tok \<in> {2, 3}" "read_point E tok = Inr v" "pa_is_list pa"
    "q = Some (pa\<lparr>pa_points := pa_points pa @ [v]\<rparr>)" by (auto simp: load_position_Inr)
  from Cons.IH [of "pa\<lparr>pa_points := pa_points pa @ [v]\<rparr>"] q(2) v(4) obtain vs where
    "list_all2 (\<lambda>tok v. length tok \<in> {2, 3} \<and> read_point E tok = Inr v) rows vs"
    "p' = Some (pa\<lparr>pa_points := pa_points pa @ v # vs\<rparr>)" by auto
  with v show ?case by (intro exI [of _ "v # vs"]) simp
qed simp

lemma load_positions_null: "foldE (load_position E) None rows = Inr p' \<Longrightarrow> rows = [] \<and> p' = None"
  by (cases rows) (auto simp: load_position_Inr)

lemma first_line:
  "getconfiglinetokenized B s = Some (ts, s') \<Longrightarrow> config_lines B s = ts # config_lines B s'"
  "getconfiglinetokenized B s = None \<Longrightarrow> config_lines B s = []"
  by (subst config_lines.simps, simp)+


definition example_alloc_env :: "int alloc_env" where
  "example_alloc_env = \<lparr>ae_create = (\<lambda>ty. if ty = ''ns3::ListPositionAllocator'' then Inr (Some True) else Inl (FatalError ty)),
     ae_accepts = (\<lambda>_ _ _. False), ae_stod = (\<lambda>s. Inr (int (length s)))\<rparr>"

definition example_mobility :: string where
  "example_mobility = ''# places'' @ [newline] @ ''ns3::ListPositionAllocator'' @ [newline] @ ''1 22'' @ [newline] @ ''333 1 1''"

lemma example_mobility_loads:
  "\<not> isl (configureMobilityHelper example_alloc_env example_boost \<lparr>mh_alloc = None, mh_model = ''''\<rparr> (Some example_mobility))"
  "filter is_directive (map words (text_lines example_mobility)) = [[''ns3::ListPositionAllocator''], [''1'', ''22''], [''333'', ''1'', ''1'']]"
  by code_simp+

lemma example_stod: "ae_stod example_alloc_env t = Inr (int (length t))"
  by (simp add: example_alloc_env_def)


end
