(* ===== verification/Wifi_Config.thy ===== *)
theory Wifi_Config
  imports Ns3_Config
begin

text \<open>
  \<open>sim/wifi_config.cc\<close>, the loader of \<open>mesh_wifi.txt\<close> and \<open>apsta_wifi.txt\<close>, and the functions of
  \<open>sim/ns3_utils\<close> that apply a \<open>wifiConfig\<close> to the ns-3 helpers. The loader is an instance of
  \<open>config_loader\<close> whose only error is returning false.
\<close>

section \<open>Loading\<close>

record wifiConfig =
  wifi_standard :: string
  station_manager :: ns3objectConfig
  phy_attribs :: "string list"
  default_channel :: bool
  delay_model :: ns3objectConfig
  loss_model :: "ns3objectConfig list"

text \<open>A \<open>wifiConfig\<close> as declared; \<open>loadWifiConfig\<close> sets \<open>default_channel\<close> before it reads.\<close>

definition init_wifiConfig :: wifiConfig where
  "init_wifiConfig = \<lparr>wifi_standard = '''', station_manager = empty_object, phy_attribs = [],
     default_channel = True, delay_model = empty_object, loss_model = []\<rparr>"

definition load_channel :: "wifiConfig \<Rightarrow> string list \<Rightarrow> cfg_error + wifiConfig" where
  "load_channel cfg tokens =
     (let cfg = cfg\<lparr>default_channel := False\<rparr> in
      if length tokens < 2 then Inl ReturnFalse
      else if tokens ! 1 = ''delay'' then
        (case readNs3objectConfig (delay_model cfg) (drop 2 tokens) of
           None \<Rightarrow> Inl ReturnFalse | Some m \<Rightarrow> Inr (cfg\<lparr>delay_model := m\<rparr>))
      else if tokens ! 1 = ''add_loss'' then
        (case readNs3objectConfig empty_object (drop 2 tokens) of
           None \<Rightarrow> Inl ReturnFalse | Some loss \<Rightarrow> Inr (cfg\<lparr>loss_model := loss_model cfg @ [loss]\<rparr>))
      else Inl ReturnFalse)"

definition load_wifi_line :: "wifiConfig \<Rightarrow> string list \<Rightarrow> cfg_error + wifiConfig" where
  "load_wifi_line cfg tokens =
     (case tokens of [] \<Rightarrow> Inl (Crash OutOfBounds)
      | t0 # args \<Rightarrow>
          if t0 = ''standard'' then
            (if length tokens \<noteq> 2 then Inl ReturnFalse else Inr (cfg\<lparr>wifi_standard := tokens ! 1\<rparr>))
          else if t0 = ''ratecontrol'' then
            (case readNs3objectConfig (station_manager cfg) args of
               None \<Rightarrow> Inl ReturnFalse | Some m \<Rightarrow> Inr (cfg\<lparr>station_manager := m\<rparr>))
          else if t0 = ''phy_attribs'' then Inr (cfg\<lparr>phy_attribs := phy_attribs cfg @ args\<rparr>)
          else if t0 = ''channel'' then load_channel cfg tokens
          else Inl ReturnFalse)"

text \<open>\<open>None\<close> is a file that cannot be opened.\<close>

definition loadWifiConfig :: "boost_string \<Rightarrow> wifiConfig \<Rightarrow> string option \<Rightarrow> cfg_error + wifiConfig" where
  "loadWifiConfig B cfg fp =
     (case fp of None \<Rightarrow> Inl ReturnFalse
      | Some s \<Rightarrow> config_loop B load_wifi_line (cfg\<lparr>default_channel := True\<rparr>) s)"

section \<open>Applying\<close>

fun add_losses :: "ns3objectConfig list \<Rightarrow> helper_result" where
  "add_losses [] = (True, [])"
| "add_losses (m # ms) =
     (if type_name m = ''@matrix'' then (False, [])
      else andB (setObjectFromConfig AddPropagationLoss m) (add_losses ms))"

definition configureWifiChannel :: "wifiConfig \<Rightarrow> helper_result" where
  "configureWifiChannel cfg =
     (if default_channel cfg then (True, [UseDefaultChannel])
      else andB
        (if type_name (delay_model cfg) = ''''
         then (True, [SetPropagationDelay (''ns3::ConstantSpeedPropagationDelayModel'', replicate 8 ('''', ''''))])
         else setObjectFromConfig SetPropagationDelay (delay_model cfg))
        (add_losses (loss_model cfg)))"

fun configureWifiPhy :: "string list \<Rightarrow> helper_result" where
  "configureWifiPhy [] = (True, [])"
| "configureWifiPhy (a # attribs) = andB (SetFactoryAttributeByAssignmentSpec a) (configureWifiPhy attribs)"

definition configureWifiStdAndRateControl :: "wifiConfig \<Rightarrow> helper_result" where
  "configureWifiStdAndRateControl cfg =
     (case SetWifiStandardByString (wifi_standard cfg) of None \<Rightarrow> (False, [])
      | Some std \<Rightarrow> andB (True, [SetStandard std])
          (setObjectFromConfig SetRemoteStationManager (station_manager cfg)))"

section \<open>What a loaded configuration says\<close>

definition wifi_ok :: "wifiConfig \<Rightarrow> bool" where
  "wifi_ok cfg \<longleftrightarrow>
     (default_channel cfg \<longrightarrow> loss_model cfg = [] \<and> delay_model cfg = empty_object)
   \<and> list_all (\<lambda>m. type_name m \<noteq> '''') (loss_model cfg)"

definition is_channel_line :: "string \<Rightarrow> string list \<Rightarrow> bool" where
  "is_channel_line d ts \<longleftrightarrow> is_line ''channel'' ts \<and> length ts \<ge> 2 \<and> ts ! 1 = d"

text \<open>The last line of a kind decides; all the attributes of a kind accumulate.\<close>

definition last_arg :: "(string list \<Rightarrow> bool) \<Rightarrow> nat \<Rightarrow> string \<Rightarrow> string list list \<Rightarrow> string" where
  "last_arg P k dflt tss = (if filter P tss = [] then dflt else last (filter P tss) ! k)"

definition object_of :: "(string list \<Rightarrow> bool) \<Rightarrow> nat \<Rightarrow> string list list \<Rightarrow> ns3objectConfig" where
  "object_of P k tss = \<lparr>type_name = last_arg P k '''' tss,
     attribute_assignments = concat (map (drop (Suc k)) (filter P tss))\<rparr>"

definition wifi_meaning :: "string list list \<Rightarrow> wifiConfig" where
  "wifi_meaning tss =
     \<lparr>wifi_standard = last_arg (is_line ''standard'') 1 '''' tss,
      station_manager = object_of (is_line ''ratecontrol'') 1 tss,
      phy_attribs = concat (map tl (filter (is_line ''phy_attribs'') tss)),
      default_channel = \<not> list_ex (is_line ''channel'') tss,
      delay_model = object_of (is_channel_line ''delay'') 2 tss,
      loss_model = map (\<lambda>ts. \<lparr>type_name = ts ! 2, attribute_assignments = drop 3 ts\<rparr>)
        (filter (is_channel_line ''add_loss'') tss)\<rparr>"

lemma last_arg_snoc: "last_arg P k dflt (tss @ [ts]) = (if P ts then ts ! k else last_arg P k dflt tss)"
  by (simp add: last_arg_def)

lemma object_of_snoc: "object_of P k (tss @ [ts]) =
  (if P ts then \<lparr>type_name = ts ! k, attribute_assignments = attribute_assignments (object_of P k tss) @ drop (Suc k) ts\<rparr>
   else object_of P k tss)"
  by (simp add: object_of_def last_arg_snoc)

lemma read_object:
  "readNs3objectConfig cfg ts = Some m \<longleftrightarrow>
   (\<exists>ty attrs. ts = ty # attrs
      \<and> m = cfg\<lparr>type_name := ty, attribute_assignments := attribute_assignments cfg @ attrs\<rparr>)"
  by (cases ts) (auto simp: readNs3objectConfig_def)

text \<open>The lines a wifi configuration can have, and what each does.\<close>

lemma load_channel_cases:
  assumes "load_channel c (t0 # args) = Inr c'"
  obtains
    (delay) ty attrs where "args = ''delay'' # ty # attrs"
      "c' = c\<lparr>default_channel := False, delay_model := \<lparr>type_name = ty,
         attribute_assignments = attribute_assignments (delay_model c) @ attrs\<rparr>\<rparr>"
  | (loss) ty attrs where "args = ''add_loss'' # ty # attrs"
      "c' = c\<lparr>default_channel := False,
         loss_model := loss_model c @ [\<lparr>type_name = ty, attribute_assignments = attrs\<rparr>]\<rparr>"
proof (cases args)
  case Nil
  with assms show ?thesis by (simp add: load_channel_def)
next
  case (Cons t1 args')
  with assms show ?thesis
    by (cases args'; cases "t1 = ''delay''"; cases "t1 = ''add_loss''")
      (auto simp: load_channel_def Let_def readNs3objectConfig_def empty_object_def intro: delay loss)
qed

lemma load_wifi_line_cases:
  assumes "load_wifi_line c ts = Inr c'"
  obtains
    (standard) std where "ts = [''standard'', std]" "c' = c\<lparr>wifi_standard := std\<rparr>"
  | (ratecontrol) ty attrs where "ts = ''ratecontrol'' # ty # attrs"
      "c' = c\<lparr>station_manager := \<lparr>type_name = ty,
         attribute_assignments = attribute_assignments (station_manager c) @ attrs\<rparr>\<rparr>"
  | (phy) attrs where "ts = ''phy_attribs'' # attrs" "c' = c\<lparr>phy_attribs := phy_attribs c @ attrs\<rparr>"
  | (delay) ty attrs where "ts = ''channel'' # ''delay'' # ty # attrs"
      "c' = c\<lparr>default_channel := False, delay_model := \<lparr>type_name = ty,
         attribute_assignments = attribute_assignments (delay_model c) @ attrs\<rparr>\<rparr>"
  | (loss) ty attrs where "ts = ''channel'' # ''add_loss'' # ty # attrs"
      "c' = c\<lparr>default_channel := False,
         loss_model := loss_model c @ [\<lparr>type_name = ty, attribute_assignments = attrs\<rparr>]\<rparr>"
proof (cases ts)
  case Nil
  with assms show ?thesis by (simp add: load_wifi_line_def)
next
  case (Cons t0 args)
  consider (s) "t0 = ''standard''" | (r) "t0 = ''ratecontrol''" | (p) "t0 = ''phy_attribs''" | (ch) "t0 = ''channel''"
    using assms Cons by (auto simp: load_wifi_line_def split: if_splits)
  then show ?thesis
  proof cases
    case s
    with assms Cons show ?thesis
      by (cases args; cases "tl args") (auto simp: load_wifi_line_def intro: standard)
  next
    case r
    with assms Cons show ?thesis
      by (cases args) (auto simp: load_wifi_line_def readNs3objectConfig_def intro: ratecontrol)
  next
    case p
    with assms Cons show ?thesis by (auto simp: load_wifi_line_def intro: phy)
  next
    case ch
    with assms Cons have "load_channel c (t0 # args) = Inr c'" by (simp add: load_wifi_line_def)
    then show ?thesis by (cases rule: load_channel_cases) (use Cons ch delay loss in auto)
  qed
qed

lemma load_wifi_line_Inl: "load_wifi_line c ts = Inl e \<Longrightarrow> ts \<noteq> [] \<Longrightarrow> e = ReturnFalse"
  by (cases ts) (simp_all add: load_wifi_line_def load_channel_def Let_def split: if_splits option.splits)

lemmas wifi_line_simps = is_line_def is_channel_line_def wifi_meaning_def last_arg_snoc object_of_snoc

text \<open>One line keeps the loaded configuration what the lines so far mean.\<close>

lemma load_wifi_line_meaning:
  assumes "load_wifi_line (wifi_meaning tss) ts = Inr cfg"
  shows "cfg = wifi_meaning (tss @ [ts])"
  using assms
  by (cases rule: load_wifi_line_cases) (simp_all add: wifi_line_simps object_of_def)

lemma load_wifi_lines_meaning:
  "foldE load_wifi_line (wifi_meaning tss0) tss = Inr cfg \<Longrightarrow> cfg = wifi_meaning (tss0 @ tss)"
proof (induction tss arbitrary: tss0)
  case (Cons ts tss)
  then obtain c where c: "load_wifi_line (wifi_meaning tss0) ts = Inr c" "foldE load_wifi_line c tss = Inr cfg" by auto
  from load_wifi_line_meaning [OF c(1)] c(2) Cons.IH [of "tss0 @ [ts]"] show ?case by simp
qed simp

interpretation wifi: config_loader load_wifi_line wifi_ok "{ReturnFalse}"
proof unfold_locales
  fix ts st st' assume "token_line ts" "wifi_ok st" "load_wifi_line st ts = Inr st'"
  from this(3,1,2) show "wifi_ok st'"
    by (cases rule: load_wifi_line_cases) (simp_all add: wifi_ok_def token_line_def)
next
  fix ts st e assume "token_line ts" "load_wifi_line st ts = Inl e"
  then show "e \<in> {ReturnFalse}"
    using load_wifi_line_Inl [of st ts e] by (simp add: token_line_def is_directive_def)
qed

lemma init_wifi_meaning: "init_wifiConfig\<lparr>default_channel := True\<rparr> = wifi_meaning []"
  by (simp add: init_wifiConfig_def wifi_meaning_def object_of_def last_arg_def empty_object_def)

lemma loaded_wifi:
  assumes "boost_laws B" and "loadWifiConfig B init_wifiConfig (Some s) = Inr cfg"
  shows "cfg = wifi_meaning (filter is_directive (map words (text_lines s)))"
proof -
  let ?tss = "filter is_directive (map words (text_lines s))"
  have "foldE load_wifi_line (wifi_meaning []) ?tss = Inr cfg"
    using assms(2) by (simp add: loadWifiConfig_def init_wifi_meaning config_loop_foldE config_lines_spec [OF assms(1)])
  from load_wifi_lines_meaning [OF this] show ?thesis by simp
qed

text \<open>
  C24. Loading a wifi configuration: the loader never crashes, and what it returns is the meaning of
  the directives of the file. The last \<open>standard\<close>, \<open>ratecontrol\<close> and \<open>channel delay\<close> line decides the
  standard and the types, every \<open>channel add_loss\<close> line adds a loss model in the order of the file,
  and the channel is the default one exactly when no line speaks of it. The attributes of all the
  \<open>ratecontrol\<close> lines accumulate, those of an overruled type included.
\<close>

theorem wifi_config_meaning:
  assumes "boost_laws B"
  shows "case loadWifiConfig B init_wifiConfig (Some s) of
      Inl e \<Rightarrow> e = ReturnFalse
    | Inr cfg \<Rightarrow> cfg = wifi_meaning (filter is_directive (map words (text_lines s)))"
proof (cases "loadWifiConfig B init_wifiConfig (Some s)")
  case (Inr cfg)
  with loaded_wifi [OF assms Inr] show ?thesis by simp
next
  case (Inl e)
  have "wifi_ok (wifi_meaning [])"
    by (simp add: wifi_ok_def wifi_meaning_def object_of_def last_arg_def empty_object_def)
  from wifi.load_inv_errs [OF assms this, of s] Inl show ?thesis
    by (simp add: loadWifiConfig_def init_wifi_meaning)
qed

section \<open>From the file to the helpers\<close>

definition setter_args_of :: "string \<Rightarrow> string list \<Rightarrow> setter_args" where
  "setter_args_of ty specs = (ty, map assignment_of specs @ replicate (8 - length specs) ('''', ''''))"

lemma setObject_True:
  "setObjectFromConfig setter cfg = (True, cs) \<Longrightarrow>
   cs = [setter (setter_args_of (type_name cfg) (attribute_assignments cfg))]"
  unfolding setObjectFromConfig_args by (auto simp: setter_args_of_def Let_def split: if_splits)

lemma andB_True: "andB r k = (True, cs) \<longleftrightarrow> (\<exists>a b. r = (True, a) \<and> k = (True, b) \<and> cs = a @ b)"
  by (cases r; cases k) (auto simp: andB_def)

lemma add_losses_calls:
  "add_losses ms = (True, cs) \<Longrightarrow>
   cs = map (\<lambda>m. AddPropagationLoss (setter_args_of (type_name m) (attribute_assignments m))) ms"
  by (induction ms arbitrary: cs) (auto simp: andB_True dest!: setObject_True split: if_splits)

lemma delay_line_type:
  assumes "token_line ts" and "load_wifi_line c ts = Inr c'"
  shows "is_channel_line ''delay'' ts \<or> type_name (delay_model c) \<noteq> '''' \<Longrightarrow> type_name (delay_model c') \<noteq> ''''"
  using assms(2,1)
  by (cases rule: load_wifi_line_cases) (simp_all add: wifi_line_simps token_line_def)

lemma delay_lines_type:
  "list_all token_line tss \<Longrightarrow> foldE load_wifi_line c tss = Inr cfg \<Longrightarrow>
   list_ex (is_channel_line ''delay'') tss \<or> type_name (delay_model c) \<noteq> '''' \<Longrightarrow> type_name (delay_model cfg) \<noteq> ''''"
proof (induction tss arbitrary: c)
  case (Cons ts tss)
  then obtain c' where c': "load_wifi_line c ts = Inr c'" "foldE load_wifi_line c' tss = Inr cfg" by auto
  from Cons.prems(1,3) delay_line_type [OF _ c'(1)]
  have "list_ex (is_channel_line ''delay'') tss \<or> type_name (delay_model c') \<noteq> ''''" by auto
  with Cons.IH c'(2) Cons.prems(1) show ?case by simp
qed simp

lemma no_delay_line: "\<not> list_ex P tss \<Longrightarrow> last_arg P k dflt tss = dflt"
proof -
  assume "\<not> list_ex P tss"
  then have "filter P tss = []" by (auto simp: filter_empty_conv list_ex_iff)
  then show ?thesis by (simp add: last_arg_def)
qed

text \<open>
  When a loaded configuration is applied to a channel successfully, the helper is told to use
  its default channel if the file has no \<open>channel\<close> line, and otherwise gets the delay model first and
  then one loss model for each \<open>channel add_loss\<close> line, in the order of the file, each with the
  attributes of its own line.
\<close>

theorem wifi_channel_in_file_order:
  assumes "boost_laws B" and "loadWifiConfig B init_wifiConfig (Some s) = Inr cfg"
    and "configureWifiChannel cfg = (True, calls)"
    and "tss = filter is_directive (map words (text_lines s))"
  shows "if list_ex (is_line ''channel'') tss
    then \<exists>d. calls = SetPropagationDelay d
           # map (\<lambda>ts. AddPropagationLoss (setter_args_of (ts ! 2) (drop 3 ts))) (filter (is_channel_line ''add_loss'') tss)
         \<and> fst d = last_arg (is_channel_line ''delay'') 2 ''ns3::ConstantSpeedPropagationDelayModel'' tss
    else calls = [UseDefaultChannel]"
proof -
  have cfg: "cfg = wifi_meaning tss" using loaded_wifi [OF assms(1,2)] assms(4) by simp
  show ?thesis
  proof (cases "list_ex (is_line ''channel'') tss")
    case False
    then have "default_channel cfg" by (simp add: cfg wifi_meaning_def)
    with False assms(3) show ?thesis by (simp add: configureWifiChannel_def)
  next
    case True
    then have nd: "\<not> default_channel cfg" by (simp add: cfg wifi_meaning_def)
    have lm: "loss_model cfg = map (\<lambda>ts. \<lparr>type_name = ts ! 2, attribute_assignments = drop 3 ts\<rparr>)
        (filter (is_channel_line ''add_loss'') tss)"
      and dm: "delay_model cfg = object_of (is_channel_line ''delay'') 2 tss"
      by (simp_all add: cfg wifi_meaning_def)
    from assms(3) nd obtain a b where ab: "calls = a @ b" "add_losses (loss_model cfg) = (True, b)"
      "(if type_name (delay_model cfg) = ''''
         then (True, [SetPropagationDelay (''ns3::ConstantSpeedPropagationDelayModel'', replicate 8 ('''', ''''))])
         else setObjectFromConfig SetPropagationDelay (delay_model cfg)) = (True, a)"
      by (auto simp: configureWifiChannel_def andB_True)
    have dt: "type_name (delay_model cfg) = last_arg (is_channel_line ''delay'') 2 '''' tss" by (simp add: dm object_of_def)
    have fold: "foldE load_wifi_line (wifi_meaning []) tss = Inr cfg"
      using assms(2,4)
      by (simp add: loadWifiConfig_def init_wifi_meaning config_loop_foldE config_lines_spec [OF assms(1)])
    have tl: "list_all token_line tss"
      using config_lines_token_line [OF assms(1), of s] assms(4) by (simp add: config_lines_spec [OF assms(1)])
    have "\<exists>d. a = [SetPropagationDelay d]
        \<and> fst d = last_arg (is_channel_line ''delay'') 2 ''ns3::ConstantSpeedPropagationDelayModel'' tss"
    proof (cases "list_ex (is_channel_line ''delay'') tss")
      case True
      with delay_lines_type [OF tl fold] have ne: "type_name (delay_model cfg) \<noteq> ''''" by blast
      then have "filter (is_channel_line ''delay'') tss \<noteq> []" using dt by (auto simp: last_arg_def)
      with ne ab(3) dt show ?thesis by (auto simp: setter_args_of_def last_arg_def dest!: setObject_True)
    next
      case False
      with ab(3) dt show ?thesis by (auto simp: no_delay_line)
    qed
    moreover have "b = map (\<lambda>ts. AddPropagationLoss (setter_args_of (ts ! 2) (drop 3 ts)))
        (filter (is_channel_line ''add_loss'') tss)"
      using add_losses_calls [OF ab(2)] by (simp add: lm)
    ultimately show ?thesis using True ab(1) by auto
  qed
qed

definition example_wifi :: string where
  "example_wifi = ''standard a'' @ [newline] @ ''channel add_loss ns3::L1 X=1'' @ [newline] @ ''# note'' @ [newline]
     @ ''channel add_loss ns3::L2'' @ [newline] @ ''ratecontrol ns3::R A=b''"

definition example_lines :: "string list list" where
  "example_lines = [[''standard'', ''a''], [''channel'', ''add_loss'', ''ns3::L1'', ''X=1''],
     [''channel'', ''add_loss'', ''ns3::L2''], [''ratecontrol'', ''ns3::R'', ''A=b'']]"

lemma example_wifi_facts:
  "filter is_directive (map words (text_lines example_wifi)) = example_lines"
  "\<not> isl (loadWifiConfig example_boost init_wifiConfig (Some example_wifi))"
  "fst (configureWifiChannel (wifi_meaning example_lines))"
  "list_ex (is_line ''channel'') example_lines"
  "filter (is_channel_line ''add_loss'') example_lines
     = [[''channel'', ''add_loss'', ''ns3::L1'', ''X=1''], [''channel'', ''add_loss'', ''ns3::L2'']]"
  by code_simp+

theorem wifi_config_meaning_witness:
  "loadWifiConfig example_boost init_wifiConfig (Some example_wifi) = Inr (wifi_meaning example_lines)"
  using wifi_config_meaning [OF example_boost_laws, of example_wifi] example_wifi_facts(1,2)
  by (auto split: sum.splits)

theorem wifi_channel_in_file_order_witness:
  "\<exists>d. snd (configureWifiChannel (wifi_meaning example_lines)) =
     [SetPropagationDelay d, AddPropagationLoss (setter_args_of ''ns3::L1'' [''X=1'']),
      AddPropagationLoss (setter_args_of ''ns3::L2'' [])]"
proof -
  from example_wifi_facts(2) obtain cfg where cfg: "loadWifiConfig example_boost init_wifiConfig (Some example_wifi) = Inr cfg"
    by (auto simp: isl_def split: sum.splits) (metis sum.exhaust)
  have m: "cfg = wifi_meaning example_lines"
    using loaded_wifi [OF example_boost_laws cfg] example_wifi_facts(1) by simp
  have "configureWifiChannel cfg = (True, snd (configureWifiChannel cfg))"
    using example_wifi_facts(3) by (simp add: m prod_eq_iff)
  from wifi_channel_in_file_order [OF example_boost_laws cfg this example_wifi_facts(1) [symmetric]]
  show ?thesis using example_wifi_facts(4,5) by (auto simp: m)
qed

end
