(* ===== verification/Ip_Addr.thy ===== *)
theory Ip_Addr
  imports Io_Utils
begin

text \<open>
  \<open>sim/io_utils.cc\<close>: \<open>read_ip_network_addr\<close> and \<open>read_ip_addr\<close>, over a model of the conversions
  of \<open>sscanf\<close> that its format uses, and the dotted printing of an address that \<open>mesh_sim.cc\<close> uses
  for routes and file names. Printing an address and reading it back gives the address; so does
  a network address with every prefix length from 0 to 32.
\<close>

section \<open>sscanf\<close>

datatype conv = ConvD | ConvC | Lit char
datatype scan_arg = IntArg u32 | CharArg char

text \<open>\<open>%d\<close>: leading white space, an optional sign, and as many digits as there are.\<close>

definition scan_sign :: "string \<Rightarrow> bool \<times> string" where
  "scan_sign s = (case s of [] \<Rightarrow> (False, s)
     | c # cs \<Rightarrow> if c = CHR ''-'' then (True, cs) else if c = CHR ''+'' then (False, cs) else (False, s))"

definition scan_int :: "string \<Rightarrow> (int \<times> string) option" where
  "scan_int s =
     (let (neg, t) = scan_sign (dropWhile is_space s); ds = takeWhile is_digit t
      in if ds = [] then None
         else Some ((if neg then - int (digits_val 0 ds) else int (digits_val 0 ds)), dropWhile is_digit t))"

text \<open>What is stored for the number \<open>v\<close>: C leaves it open when \<open>v\<close> does not fit an \<open>int\<close>.\<close>

definition store_int :: "(int \<Rightarrow> u32) \<Rightarrow> int \<Rightarrow> u32" where
  "store_int oor v = (if - (2 ^ 31) \<le> v \<and> v < 2 ^ 31 then of_int v else oor v)"

fun scan_args :: "(int \<Rightarrow> u32) \<Rightarrow> conv list \<Rightarrow> string \<Rightarrow> scan_arg list" where
  "scan_args oor [] s = []"
| "scan_args oor (ConvD # fs) s =
     (case scan_int s of None \<Rightarrow> [] | Some (v, s') \<Rightarrow> IntArg (store_int oor v) # scan_args oor fs s')"
| "scan_args oor (ConvC # fs) s = (case s of [] \<Rightarrow> [] | c # s' \<Rightarrow> CharArg c # scan_args oor fs s')"
| "scan_args oor (Lit l # fs) s =
     (case s of [] \<Rightarrow> [] | c # s' \<Rightarrow> if c = l then scan_args oor fs s' else [])"

text \<open>The value returned: the conversions stored, or \<open>EOF\<close> when the text ends before the first.\<close>

definition sscanf :: "(int \<Rightarrow> u32) \<Rightarrow> conv list \<Rightarrow> string \<Rightarrow> int \<times> scan_arg list" where
  "sscanf oor fs s =
     (let args = scan_args oor fs s
      in (if args = [] \<and> dropWhile is_space s = [] then - 1 else int (length args), args))"

section \<open>Reading addresses\<close>

text \<open>\<open>"%d.%d.%d.%d/%d%c"\<close>\<close>

definition ip_format :: "conv list" where
  "ip_format = [ConvD, Lit (CHR ''.''), ConvD, Lit (CHR ''.''), ConvD, Lit (CHR ''.''), ConvD,
     Lit (CHR ''/''), ConvD, ConvC]"

text \<open>An \<open>unsigned int\<close> variable after the call: what the conversion stored, else its initial value.\<close>

definition int_var :: "scan_arg list \<Rightarrow> nat \<Rightarrow> u32 \<Rightarrow> u32" where
  "int_var args k init = (if k < length args then (case args ! k of IntArg v \<Rightarrow> v | CharArg _ \<Rightarrow> init) else init)"

definition inrange :: "u32 \<Rightarrow> bool" where
  "inrange x \<longleftrightarrow> 0 \<le> x \<and> x < 256"

definition netmask_of_len :: "u32 \<Rightarrow> u32" where
  "netmask_of_len e = (if e = 0 then 0 else NOT (push_bit (unat (32 - e)) 1 - 1))"

definition read_ip_network_addr :: "(int \<Rightarrow> u32) \<Rightarrow> string \<Rightarrow> (u32 \<times> u32) option" where
  "read_ip_network_addr oor addr =
     (let (n, args) = sscanf oor ip_format addr;
          a = int_var args 0 0; b = int_var args 1 0; c = int_var args 2 0; d = int_var args 3 0;
          e = int_var args 4 32
      in if (n \<noteq> 4 \<and> n \<noteq> 5) \<or> \<not> inrange a \<or> \<not> inrange b \<or> \<not> inrange c \<or> \<not> inrange d \<or> e > 32 then None
         else Some (push_bit 24 a + push_bit 16 b + push_bit 8 c + d,
                    if n = 4 then - 1 else netmask_of_len e))"

definition read_ip_addr :: "(int \<Rightarrow> u32) \<Rightarrow> string \<Rightarrow> u32 option" where
  "read_ip_addr oor addr =
     (case read_ip_network_addr oor addr of None \<Rightarrow> None
      | Some (host, netmask) \<Rightarrow> if netmask \<noteq> - 1 then None else Some host)"

section \<open>Printing addresses\<close>

definition route_arg :: "u32 \<Rightarrow> nat \<Rightarrow> u32" where
  "route_arg x k = drop_bit k x AND 255"

definition print_ip :: "u32 \<Rightarrow> string" where
  "print_ip x = dec_nat (unat (route_arg x 24)) @ ''.'' @ dec_nat (unat (route_arg x 16)) @ ''.''
     @ dec_nat (unat (route_arg x 8)) @ ''.'' @ dec_nat (unat (route_arg x 0))"

section \<open>Lemmas\<close>

lemma digit_not_space: "is_digit c \<Longrightarrow> \<not> is_space c"
  by (auto simp: is_digit_def is_space_def)

lemma scan_sign_digit: "is_digit c \<Longrightarrow> scan_sign (c # cs) = (False, c # cs)"
  by (auto simp: scan_sign_def)

lemma scan_int_dec_nat:
  assumes "rest = [] \<or> \<not> is_digit (hd rest)"
  shows "scan_int (dec_nat n @ rest) = Some (int n, rest)"
proof -
  obtain c cs where d: "dec_nat n = c # cs" by (cases "dec_nat n") (use dec_nat_nonempty in auto)
  have dg: "list_all is_digit (dec_nat n)" by (rule dec_nat_digits)
  then have c: "is_digit c" using d by simp
  have "dropWhile is_space (dec_nat n @ rest) = dec_nat n @ rest" using d digit_not_space [OF c] by simp
  moreover have "scan_sign (dec_nat n @ rest) = (False, dec_nat n @ rest)" using d scan_sign_digit [OF c] by simp
  moreover have "takeWhile is_digit (dec_nat n @ rest) = dec_nat n" "dropWhile is_digit (dec_nat n @ rest) = rest"
    using dg assms by (cases rest; simp add: list_all_iff)+
  ultimately show ?thesis by (simp add: scan_int_def)
qed

lemma store_int_small: "n < 2 ^ 31 \<Longrightarrow> store_int oor (int n) = of_nat n"
  by (simp add: store_int_def)

lemma route_arg_bound: "unat (route_arg x k) < 256"
proof -
  have "route_arg x k \<le> 255" unfolding route_arg_def by (rule word_and_le1)
  then show ?thesis by (simp add: word_le_nat_alt)
qed

lemma inrange_route_arg: "inrange (route_arg x k)"
  using route_arg_bound [of x k] by (simp add: inrange_def word_less_nat_alt)

lemma store_uint: "unat y < 2 ^ 31 \<Longrightarrow> store_int oor (uint y) = y"
  using store_int_small [of "unat y" oor] by simp

lemma store_octet: "store_int oor (uint (route_arg x k)) = route_arg x k"
  using route_arg_bound [of x k] by (intro store_uint) simp

lemma scan_octet:
  "rest = [] \<or> \<not> is_digit (hd rest) \<Longrightarrow>
   scan_args oor (ConvD # fs) (dec_nat (unat (route_arg x k)) @ rest) = IntArg (route_arg x k) # scan_args oor fs rest"
  using store_octet [of oor x k] by (simp add: scan_int_dec_nat)

lemma scan_print_ip:
  assumes "rest = [] \<or> \<not> is_digit (hd rest)"
  shows "scan_args oor ip_format (print_ip x @ rest) =
    [IntArg (route_arg x 24), IntArg (route_arg x 16), IntArg (route_arg x 8), IntArg (route_arg x 0)]
    @ scan_args oor [Lit (CHR ''/''), ConvD, ConvC] rest"
  using assms by (simp add: ip_format_def print_ip_def scan_octet del: scan_args.simps(2))

lemma route_arg_nat: "route_arg x k = of_nat (unat x div 2 ^ k mod 256)"
proof -
  have "(255 :: u32) = mask 8" by (simp add: mask_eq_exp_minus_1)
  then have "route_arg x k = take_bit 8 (drop_bit k x)" by (simp add: route_arg_def take_bit_eq_mask)
  also have "\<dots> = of_nat (unat (take_bit 8 (drop_bit k x)))" by simp
  also have "unat (take_bit 8 (drop_bit k x)) = unat x div 2 ^ k mod 256"
  proof -
    have "unat (take_bit 8 (drop_bit k x)) = take_bit 8 (drop_bit k (unat x))"
      by (simp add: unsigned_take_bit_eq unsigned_drop_bit_eq take_bit_nat_eq_self [OF unat_u32_bound])
    then show ?thesis by (simp only: take_bit_eq_mod drop_bit_eq_div) simp
  qed
  finally show ?thesis .
qed

lemma octets_nat:
  "n < 2 ^ 32 \<Longrightarrow> 2 ^ 24 * (n div 2 ^ 24 mod 256) + 2 ^ 16 * (n div 2 ^ 16 mod 256) + 2 ^ 8 * (n div 2 ^ 8 mod 256)
     + n div 2 ^ 0 mod 256 = (n :: nat)"
proof -
  assume n: "n < 2 ^ 32"
  define p where "p = n div 256"
  define q where "q = p div 256"
  have d: "n div 2 ^ 8 = p" "n div 2 ^ 16 = q" "n div 2 ^ 24 = q div 256"
    by (simp_all add: p_def q_def div_mult2_eq [symmetric])
  have "q div 256 < 256" using n d(3) by (simp add: less_mult_imp_div_less)
  then have m: "q div 256 mod 256 = q div 256" by simp
  have "256 * p + n mod 256 = n" "256 * q + p mod 256 = p" "256 * (q div 256) + q mod 256 = q"
    by (simp_all add: p_def q_def)
  then have "16777216 * (q div 256) + 65536 * (q mod 256) + 256 * (p mod 256) + n mod 256 = n" by linarith
  then show ?thesis unfolding d m by simp
qed

lemma add_octets:
  "push_bit 24 (route_arg x 24) + push_bit 16 (route_arg x 16) + push_bit 8 (route_arg x 8) + route_arg x 0 = x"
proof -
  have "push_bit k (of_nat m :: u32) = of_nat (2 ^ k * m)" for k m by (simp add: push_bit_eq_mult)
  then have "push_bit 24 (route_arg x 24) + push_bit 16 (route_arg x 16) + push_bit 8 (route_arg x 8) + route_arg x 0
    = of_nat (2 ^ 24 * (unat x div 2 ^ 24 mod 256) + 2 ^ 16 * (unat x div 2 ^ 16 mod 256)
       + 2 ^ 8 * (unat x div 2 ^ 8 mod 256) + unat x div 2 ^ 0 mod 256)"
    unfolding route_arg_nat by (simp only: of_nat_add)
  also have "\<dots> = x" unfolding octets_nat [OF unat_u32_bound] by simp
  finally show ?thesis .
qed

text \<open>The number of conversions when the text after the address does not carry a prefix length.\<close>

definition no_length_follows :: "string \<Rightarrow> bool" where
  "no_length_follows rest \<longleftrightarrow> scan_args (\<lambda>_. 0) [Lit (CHR ''/''), ConvD, ConvC] rest = []"

lemma no_length_scan: "no_length_follows rest \<Longrightarrow> scan_args oor [Lit (CHR ''/''), ConvD, ConvC] rest = []"
  by (auto simp: no_length_follows_def split: list.splits option.splits if_splits)

lemma read_ip_network_addr_host:
  assumes "rest = [] \<or> \<not> is_digit (hd rest)" and "no_length_follows rest"
  shows "read_ip_network_addr oor (print_ip x @ rest) = Some (x, - 1)"
  using inrange_route_arg [of x]
  by (simp add: read_ip_network_addr_def sscanf_def scan_print_ip [OF assms(1)] no_length_scan [OF assms(2)]
      int_var_def add_octets Let_def del: scan_args.simps)

lemma read_ip_network_addr_len:
  assumes "e \<le> 32"
  shows "read_ip_network_addr oor (print_ip x @ ''/'' @ dec_nat e) = Some (x, netmask_of_len (of_nat e))"
proof -
  have "scan_args oor [Lit (CHR ''/''), ConvD, ConvC] (''/'' @ dec_nat e) = [IntArg (of_nat e)]"
    using assms scan_int_dec_nat [of "[]" e] by (simp add: store_int_small)
  then have "scan_args oor ip_format (print_ip x @ ''/'' @ dec_nat e) =
    [IntArg (route_arg x 24), IntArg (route_arg x 16), IntArg (route_arg x 8), IntArg (route_arg x 0), IntArg (of_nat e)]"
    using scan_print_ip [of "''/'' @ dec_nat e" oor x] by simp
  moreover have "(of_nat e :: u32) \<le> 32" using assms by (simp add: word_le_nat_alt unat_of_nat take_bit_nat_eq_self)
  ultimately show ?thesis
    using inrange_route_arg [of x]
    by (simp add: read_ip_network_addr_def sscanf_def int_var_def add_octets Let_def linorder_not_less)
qed

lemma bit_netmask: "e \<le> 32 \<Longrightarrow> bit (netmask_of_len (of_nat e)) i \<longleftrightarrow> 32 - e \<le> i \<and> i < 32"
proof (cases "e = 0")
  case False
  assume e: "e \<le> 32"
  have ne: "(of_nat e :: u32) \<noteq> 0"
  proof
    assume "(of_nat e :: u32) = 0"
    then have "unat (of_nat e :: u32) = 0" by simp
    with e False show False by (simp add: unat_of_nat take_bit_nat_eq_self)
  qed
  have "(32 :: u32) - of_nat e = of_nat (32 - e)" using e by simp
  then have "unat (32 - of_nat e :: u32) = 32 - e" using e by (simp add: unat_of_nat take_bit_nat_eq_self del: of_nat_diff)
  then have "netmask_of_len (of_nat e) = NOT (mask (32 - e))"
    using ne by (simp add: netmask_of_len_def mask_eq_exp_minus_1 push_bit_eq_mult)
  then show ?thesis by (auto simp: bit_simps)
qed (simp add: netmask_of_len_def)

text \<open>
  Printing an IPv4 address and reading it back gives the address, for each of the \<open>2^32\<close>
  addresses, and a network address with a prefix length from 0 to 32 is read as the address and the
  mask whose \<open>e\<close> highest bits are set.
\<close>

theorem ip_addr_roundtrip:
  "read_ip_addr oor (print_ip x) = Some x \<and>
   (e \<le> 32 \<longrightarrow> (\<exists>m. read_ip_network_addr oor (print_ip x @ ''/'' @ dec_nat e) = Some (x, m)
      \<and> (\<forall>i. bit m i = (32 - e \<le> i \<and> i < 32))))"
proof (intro conjI impI exI)
  have "no_length_follows []" by (simp add: no_length_follows_def)
  then show "read_ip_addr oor (print_ip x) = Some x"
    using read_ip_network_addr_host [of "[]" oor x] by (simp add: read_ip_addr_def)
next
  assume e: "e \<le> 32"
  show "read_ip_network_addr oor (print_ip x @ ''/'' @ dec_nat e) = Some (x, netmask_of_len (of_nat e))"
    by (rule read_ip_network_addr_len [OF e])
  show "\<forall>i. bit (netmask_of_len (of_nat e)) i = (32 - e \<le> i \<and> i < 32)"
    using bit_netmask [OF e] by blast
qed

theorem ip_addr_roundtrip_witness:
  "read_ip_addr (\<lambda>_. 0) (print_ip 167838209) = Some 167838209 \<and> print_ip 167838209 = ''10.1.2.1'' \<and>
   (\<exists>m. read_ip_network_addr (\<lambda>_. 0) (print_ip 167838209 @ ''/'' @ dec_nat 24) = Some (167838209, m)
      \<and> (\<forall>i. bit m i = (8 \<le> i \<and> i < 32)))"
proof -
  have "print_ip 167838209 = ''10.1.2.1''" by code_simp
  with ip_addr_roundtrip [of "\<lambda>_. 0" 167838209 24] show ?thesis by simp
qed

lemma read_mask_prefix:
  assumes "read_ip_network_addr oor s = Some (net, m)"
  shows "\<exists>e \<le> 32. \<forall>i. bit m i = (32 - e \<le> i \<and> i < 32)"
proof -
  have full: "\<forall>i. bit (- 1 :: u32) i = (32 - 32 \<le> i \<and> i < 32)" by simp
  let ?e = "int_var (snd (sscanf oor ip_format s)) 4 32"
  from assms have e: "?e \<le> 32" and m: "m = - 1 \<or> m = netmask_of_len ?e"
    by (auto simp: read_ip_network_addr_def Let_def split: prod.splits if_splits)
  show ?thesis
  proof (cases "m = - 1")
    case True
    with full show ?thesis by blast
  next
    case False
    have "unat ?e \<le> 32" using e by (simp add: word_le_nat_alt)
    with bit_netmask [of "unat ?e"] m False show ?thesis by auto
  qed
qed

text \<open>
  A network address that is read has a mask of leading ones: the mask returned is that of a
  prefix length from 0 to 32, whatever the text. A host address always has the mask of all ones.
\<close>

theorem read_ip_network_addr_masks:
  assumes "read_ip_network_addr oor s = Some (net, m)"
  shows "\<exists>e \<le> 32. \<forall>i. bit m i = (32 - e \<le> i \<and> i < 32)"
  using read_mask_prefix [OF assms] .

theorem read_ip_network_addr_masks_witness:
  "\<exists>e \<le> 32. \<forall>i. bit (4294901760 :: u32) i = (32 - e \<le> i \<and> i < 32)"
proof (rule read_ip_network_addr_masks)
  show "read_ip_network_addr (\<lambda>_. 0) ''10.1.0.0/16'' = Some (167837696, 4294901760)" by code_simp
qed

text \<open>
  What follows a complete address is ignored unless it is a slash and a number: four converted
  fields are accepted whatever stops the fifth. A mistyped prefix length such as \<open>10.1.2.0/x\<close> makes
  the entry a host route instead of an error.
\<close>

theorem trailing_text_ignored:
  assumes "rest = [] \<or> \<not> is_digit (hd rest)" and "no_length_follows rest"
  shows "read_ip_addr oor (print_ip x @ rest) = Some x
     \<and> read_ip_network_addr oor (print_ip x @ rest) = Some (x, - 1)"
  using read_ip_network_addr_host [OF assms] by (simp add: read_ip_addr_def)

theorem trailing_text_ignored_witness:
  "read_ip_addr (\<lambda>_. 0) (print_ip 167838208 @ ''/x'') = Some 167838208
     \<and> read_ip_network_addr (\<lambda>_. 0) (print_ip 167838208 @ ''/x'') = Some (167838208, - 1)"
  by (rule trailing_text_ignored) (simp add: is_digit_def, code_simp)

end
