(* ===== verification/Routing_Config.thy ===== *)
theory Routing_Config
  imports Ns3_Config Ip_Addr
begin

text \<open>
  \<open>sim/routing_config.cc\<close>, the loader of \<open>routing.txt\<close>: the routing protocol and the static routes
  of the hosts. The loop's variable \<open>routes_on\<close> is part of the state that a line changes. A table is
  an entry of the map \<open>tables\<close>, whose first access creates it.
\<close>

section \<open>Data\<close>

datatype RoutingProtocol = ROUTING_NONE | ROUTING_OLSR | ROUTING_AODV

record rtbl_entry =
  target :: u32
  target_mask :: u32
  via_if_ip :: u32
  gateway :: u32
  metric :: int

record routingConfig =
  proto :: RoutingProtocol
  tables :: "u32 \<Rightarrow> rtbl_entry list option"

definition init_routingConfig :: routingConfig where
  "init_routingConfig = \<lparr>proto = ROUTING_OLSR, tables = Map.empty\<rparr>"

text \<open>\<open>tables[ip]\<close>: a reference that creates the table when it is missing.\<close>

definition table_at :: "routingConfig \<Rightarrow> u32 \<Rightarrow> rtbl_entry list" where
  "table_at cfg ip = (case tables cfg ip of None \<Rightarrow> [] | Some es \<Rightarrow> es)"

section \<open>One line\<close>

text \<open>\<open>std::stoi\<close> in base 10: leading white space and what follows the digits are ignored.\<close>

definition stoi :: "string \<Rightarrow> fault + int" where
  "stoi s = (case scan_int s of None \<Rightarrow> Inl (UncaughtException ''std::invalid_argument'')
     | Some (v, _) \<Rightarrow> if - (2 ^ 31) \<le> v \<and> v < 2 ^ 31 then Inr v
         else Inl (UncaughtException ''std::out_of_range''))"

definition load_proto :: "boost_string \<Rightarrow> routingConfig \<Rightarrow> string list \<Rightarrow> cfg_error + routingConfig" where
  "load_proto B cfg tokens =
     bindE (token_at tokens 1) (\<lambda>t. let r = bs_to_lower B t in
       if r = ''olsr'' then Inr (cfg\<lparr>proto := ROUTING_OLSR\<rparr>)
       else if r = ''aodv'' then Inr (cfg\<lparr>proto := ROUTING_AODV\<rparr>)
       else if r = ''none'' then Inr (cfg\<lparr>proto := ROUTING_NONE\<rparr>)
       else Inl ReturnFalse)"

text \<open>A routing entry; the test of the number of tokens is false for every number.\<close>

definition load_entry :: "(int \<Rightarrow> u32) \<Rightarrow> string list \<Rightarrow> cfg_error + rtbl_entry" where
  "load_entry oor tokens =
     (if length tokens < 2 \<and> length tokens > 4 then Inl ReturnFalse
      else bindE (token_at tokens 0) (\<lambda>t0.
        bindE (or_false (read_ip_network_addr oor t0)) (\<lambda>(tgt, msk).
        bindE (token_at tokens 1) (\<lambda>t1.
        bindE (or_false (read_ip_addr oor t1)) (\<lambda>via.
        bindE (if length tokens \<ge> 3 then or_false (read_ip_addr oor (tokens ! 2)) else Inr 0) (\<lambda>gw.
        bindE (if length tokens \<ge> 4 then or_crash (stoi (tokens ! 3)) else Inr 0) (\<lambda>m.
        Inr \<lparr>target = tgt, target_mask = msk, via_if_ip = via, gateway = gw, metric = m\<rparr>)))))))"

definition load_routing_line ::
  "boost_string \<Rightarrow> (int \<Rightarrow> u32) \<Rightarrow> u32 \<times> routingConfig \<Rightarrow> string list \<Rightarrow> cfg_error + (u32 \<times> routingConfig)" where
  "load_routing_line B oor st tokens =
     (let (routes_on, cfg) = st in
      bindE (token_at tokens 0) (\<lambda>t0.
        if t0 = ''proto'' then bindE (load_proto B cfg tokens) (\<lambda>cfg'. Inr (routes_on, cfg'))
        else if t0 = ''routes_on'' then
          bindE (token_at tokens 1) (\<lambda>t1. bindE (or_false (read_ip_addr oor t1)) (\<lambda>ip. Inr (ip, cfg)))
        else bindE (load_entry oor tokens) (\<lambda>ent.
          Inr (routes_on, cfg\<lparr>tables := (tables cfg)(routes_on \<mapsto> table_at cfg routes_on @ [ent])\<rparr>))))"

definition loadRoutingConfig ::
  "boost_string \<Rightarrow> (int \<Rightarrow> u32) \<Rightarrow> routingConfig \<Rightarrow> string option \<Rightarrow> cfg_error + routingConfig" where
  "loadRoutingConfig B oor cfg fp =
     (case fp of None \<Rightarrow> Inl ReturnFalse
      | Some s \<Rightarrow> bindE (config_loop B (load_routing_line B oor) (0, cfg) s) (\<lambda>(_, cfg'). Inr cfg'))"

section \<open>The loader as an instance\<close>

definition entry_ok :: "rtbl_entry \<Rightarrow> bool" where
  "entry_ok e \<longleftrightarrow> (\<exists>n \<le> 32. \<forall>i. bit (target_mask e) i = (32 - n \<le> i \<and> i < 32))
     \<and> - (2 ^ 31) \<le> metric e \<and> metric e < 2 ^ 31"

definition routing_ok :: "u32 \<times> routingConfig \<Rightarrow> bool" where
  "routing_ok st \<longleftrightarrow> (\<forall>ip es. tables (snd st) ip = Some es \<longrightarrow> es \<noteq> [] \<and> list_all entry_ok es)"

definition routing_errors :: "cfg_error set" where
  "routing_errors = {ReturnFalse, Crash OutOfBounds, Crash (UncaughtException ''std::invalid_argument''),
     Crash (UncaughtException ''std::out_of_range'')}"

lemma stoi_range: "stoi s = Inr v \<Longrightarrow> - (2 ^ 31) \<le> v \<and> v < 2 ^ 31"
  by (auto simp: stoi_def split: option.splits if_splits)

lemma stoi_errors: "stoi s = Inl f \<Longrightarrow> Crash f \<in> routing_errors"
  by (auto simp: stoi_def routing_errors_def split: option.splits if_splits)

lemma load_entry_Inr:
  assumes "load_entry oor tokens = Inr e"
  shows "entry_ok e"
proof -
  have "\<exists>t0. read_ip_network_addr oor t0 = Some (target e, target_mask e)"
    "metric e = 0 \<or> (\<exists>t. stoi t = Inr (metric e))"
    using assms by (auto simp: load_entry_def split: if_splits)
  then show ?thesis using read_mask_prefix stoi_range by (fastforce simp: entry_ok_def)
qed

lemma load_entry_Inl: "load_entry oor tokens = Inl e \<Longrightarrow> e \<in> routing_errors"
  by (auto simp: load_entry_def bindE_Inl_iff stoi_errors split: if_splits)
    (auto simp: routing_errors_def)

lemma load_proto_Inr: "load_proto B cfg tokens = Inr cfg' \<Longrightarrow> tables cfg' = tables cfg"
  by (auto simp: load_proto_def Let_def split: if_splits)

lemma load_proto_Inl: "load_proto B cfg tokens = Inl e \<Longrightarrow> e \<in> routing_errors"
  by (auto simp: load_proto_def bindE_Inl_iff Let_def routing_errors_def split: if_splits)

interpretation routing: config_loader "load_routing_line B oor" routing_ok routing_errors for B oor
proof unfold_locales
  fix ts and st st' :: "u32 \<times> routingConfig"
  assume ok: "routing_ok st" and l: "load_routing_line B oor st ts = Inr st'"
  obtain ro cfg where st: "st = (ro, cfg)" by fastforce
  consider (same) "tables (snd st') = tables cfg"
    | (entry) ent where "load_entry oor ts = Inr ent"
        "tables (snd st') = (tables cfg)(ro \<mapsto> table_at cfg ro @ [ent])"
    using l by (auto simp: load_routing_line_def st load_proto_Inr split: if_splits)
  then show "routing_ok st'"
  proof cases
    case same
    with ok st show ?thesis by (simp add: routing_ok_def)
  next
    case entry
    have "list_all entry_ok (table_at cfg ro)"
      using ok st by (auto simp: routing_ok_def table_at_def split: option.splits)
    with ok st entry(2) load_entry_Inr [OF entry(1)] show ?thesis by (auto simp: routing_ok_def)
  qed
next
  fix ts and st :: "u32 \<times> routingConfig" and e
  assume "load_routing_line B oor st ts = Inl e"
  then show "e \<in> routing_errors"
    by (auto simp: load_routing_line_def bindE_Inl_iff load_entry_Inl load_proto_Inl split: prod.splits if_splits)
      (auto simp: routing_errors_def)
qed

section \<open>Writing a configuration\<close>

text \<open>
  A table as a script writes it: the host, and for each route the entry with its prefix length.
\<close>

type_synonym route_block = "u32 \<times> (rtbl_entry \<times> nat) list"

definition write_entry :: "rtbl_entry \<times> nat \<Rightarrow> string list" where
  "write_entry en = (case en of (e, n) \<Rightarrow>
     [print_ip (target e) @ ''/'' @ dec_nat n, print_ip (via_if_ip e), print_ip (gateway e), dec_int (metric e)])"

definition write_block :: "route_block \<Rightarrow> string list list" where
  "write_block b = [''routes_on'', print_ip (fst b)] # map write_entry (snd b)"

definition entry_length_ok :: "rtbl_entry \<times> nat \<Rightarrow> bool" where
  "entry_length_ok en \<longleftrightarrow> snd en \<le> 32 \<and> target_mask (fst en) = netmask_of_len (of_nat (snd en))
     \<and> - (2 ^ 31) \<le> metric (fst en) \<and> metric (fst en) < 2 ^ 31"

lemma scan_int_dec_int: "scan_int (dec_int m) = Some (m, [])"
proof (cases "m < 0")
  case False
  then show ?thesis using scan_int_dec_nat [of "[]" "nat m"] by (simp add: dec_int_def)
next
  case True
  have dg: "list_all is_digit (dec_nat (nat (- m)))" by (rule dec_nat_digits)
  then have tw: "takeWhile is_digit (dec_nat (nat (- m))) = dec_nat (nat (- m))"
    and dw: "dropWhile is_digit (dec_nat (nat (- m))) = []" by (simp_all add: list_all_iff)
  have "\<not> is_space (CHR ''-'')" by (simp add: is_space_def)
  with True show ?thesis by (simp add: dec_int_def scan_int_def scan_sign_def Let_def tw dw)
qed

lemma stoi_dec_int: "- (2 ^ 31) \<le> m \<Longrightarrow> m < 2 ^ 31 \<Longrightarrow> stoi (dec_int m) = Inr m"
  by (simp add: stoi_def scan_int_dec_int)

lemma dec_nat_plain: "plain_token (dec_nat n)"
  using dec_nat_digits [of n] by (auto simp: plain_token_def list_all_iff digit_not_space)

lemma dec_int_plain: "plain_token (dec_int m)"
  using dec_nat_plain by (auto simp: dec_int_def plain_token_def is_space_def)

lemma print_ip_plain: "plain_token (print_ip x)"
  using dec_nat_plain by (auto simp: print_ip_def plain_token_def is_space_def)

lemma print_ip_head: "\<exists>c cs. print_ip x = c # cs \<and> is_digit c"
proof -
  obtain c cs where "dec_nat (unat (route_arg x 24)) = c # cs"
    by (cases "dec_nat (unat (route_arg x 24))") (use dec_nat_nonempty in auto)
  with dec_nat_digits [of "unat (route_arg x 24)"] show ?thesis by (simp add: print_ip_def)
qed

lemma print_ip_not_word: "\<not> is_digit (hd w) \<Longrightarrow> print_ip x @ s \<noteq> w"
  using print_ip_head [of x] by auto

lemma print_ip_read: "read_ip_addr oor (print_ip x) = Some x"
proof -
  have "no_length_follows []" by (simp add: no_length_follows_def)
  then show ?thesis using read_ip_network_addr_host [of "[]" oor x] by (simp add: read_ip_addr_def)
qed

lemma load_write_entry:
  assumes "entry_length_ok (e, n)"
  shows "load_entry oor (write_entry (e, n)) = Inr e"
  using assms read_ip_network_addr_len [of n oor "target e"]
  by (simp add: load_entry_def write_entry_def entry_length_ok_def print_ip_read stoi_dec_int token_at_def)

lemma write_entry_line:
  assumes "entry_length_ok (e, n)"
  shows "load_routing_line B oor (ip, cfg) (write_entry (e, n))
    = Inr (ip, cfg\<lparr>tables := (tables cfg)(ip \<mapsto> table_at cfg ip @ [e])\<rparr>)"
proof -
  have "print_ip (target e) @ ''/'' @ dec_nat n \<noteq> ''proto''" "print_ip (target e) @ ''/'' @ dec_nat n \<noteq> ''routes_on''"
    by (rule print_ip_not_word, simp add: is_digit_def)+
  moreover have "write_entry (e, n) ! 0 = print_ip (target e) @ ''/'' @ dec_nat n" "write_entry (e, n) \<noteq> []"
    by (simp_all add: write_entry_def)
  ultimately show ?thesis
    using load_write_entry [OF assms, of oor] by (simp add: load_routing_line_def token_at_def)
qed

lemma write_entries:
  "list_all entry_length_ok es \<Longrightarrow> \<exists>cfg'. foldE (load_routing_line B oor) (ip, cfg) (map write_entry es) = Inr (ip, cfg')
     \<and> proto cfg' = proto cfg \<and> (\<forall>a. table_at cfg' a = table_at cfg a @ (if a = ip then map fst es else []))"
proof (induction es arbitrary: cfg)
  case (Cons en es)
  obtain e n where en: "en = (e, n)" by fastforce
  let ?c = "cfg\<lparr>tables := (tables cfg)(ip \<mapsto> table_at cfg ip @ [e])\<rparr>"
  from Cons obtain cfg' where c': "foldE (load_routing_line B oor) (ip, ?c) (map write_entry es) = Inr (ip, cfg')"
    "proto cfg' = proto ?c" "\<forall>a. table_at cfg' a = table_at ?c a @ (if a = ip then map fst es else [])"
    by (metis list.pred_inject(2))
  have "table_at ?c a = table_at cfg a @ (if a = ip then [e] else [])" for a by (simp add: table_at_def)
  with c' Cons.prems show ?case by (auto simp: en write_entry_line)
qed simp

lemma write_blocks:
  "list_all (\<lambda>b. list_all entry_length_ok (snd b)) blocks \<Longrightarrow>
   \<exists>ro' cfg'. foldE (load_routing_line B oor) (ro, cfg) (concat (map write_block blocks)) = Inr (ro', cfg')
     \<and> proto cfg' = proto cfg
     \<and> (\<forall>a. table_at cfg' a = table_at cfg a @ concat (map (\<lambda>b. if fst b = a then map fst (snd b) else []) blocks))"
proof (induction blocks arbitrary: ro cfg)
  case (Cons b blocks)
  have r: "load_routing_line B oor (ro, cfg) [''routes_on'', print_ip (fst b)] = Inr (fst b, cfg)"
    by (simp add: load_routing_line_def token_at_def print_ip_read)
  from write_entries [of "snd b" B oor "fst b" cfg] Cons.prems obtain c where c:
    "foldE (load_routing_line B oor) (fst b, cfg) (map write_entry (snd b)) = Inr (fst b, c)" "proto c = proto cfg"
    "\<forall>a. table_at c a = table_at cfg a @ (if a = fst b then map fst (snd b) else [])" by auto
  from Cons.IH [of "fst b" c] Cons.prems obtain ro' c' where
    "foldE (load_routing_line B oor) (fst b, c) (concat (map write_block blocks)) = Inr (ro', c')" "proto c' = proto c"
    "\<forall>a. table_at c' a = table_at c a @ concat (map (\<lambda>b. if fst b = a then map fst (snd b) else []) blocks)" by auto
  with r c show ?case by (auto simp: write_block_def [of b] foldE_append)
qed simp

lemma write_block_lines: "list_all (\<lambda>ts. is_directive ts \<and> list_all plain_token ts) (concat (map write_block blocks))"
proof -
  have "plain_token ''routes_on''" by (simp add: plain_token_def is_space_def)
  moreover have "plain_token (print_ip (target e) @ ''/'' @ dec_nat n)" for e :: rtbl_entry and n
    using print_ip_plain dec_nat_plain by (auto simp: plain_token_def is_space_def)
  moreover have "hd (print_ip (target e) @ ''/'' @ dec_nat n) \<noteq> CHR ''#''" for e :: rtbl_entry and n
    using print_ip_head [of "target e"] by (auto simp: is_digit_def)
  ultimately show ?thesis
    by (auto simp: list_all_iff write_block_def write_entry_def is_directive_def print_ip_plain dec_int_plain
        split: prod.splits)
qed

lemma loadRoutingConfig_blocks:
  assumes "boost_laws B" and "list_all (\<lambda>b. list_all entry_length_ok (snd b)) blocks"
  shows "\<exists>cfg. loadRoutingConfig B oor init_routingConfig (Some (write_lines (concat (map write_block blocks)))) = Inr cfg
     \<and> proto cfg = ROUTING_OLSR
     \<and> (\<forall>ip. table_at cfg ip = concat (map (\<lambda>b. if fst b = ip then map fst (snd b) else []) blocks))"
proof -
  from write_blocks [OF assms(2), of B oor 0 init_routingConfig] obtain ro cfg where
    "foldE (load_routing_line B oor) (0, init_routingConfig) (concat (map write_block blocks)) = Inr (ro, cfg)"
    "proto cfg = ROUTING_OLSR"
    "\<forall>ip. table_at cfg ip = concat (map (\<lambda>b. if fst b = ip then map fst (snd b) else []) blocks)"
    by (auto simp: init_routingConfig_def table_at_def)
  then show ?thesis
    by (simp add: loadRoutingConfig_def config_loop_foldE config_lines_spec [OF assms(1)]
        read_written_lines [OF write_block_lines])
qed

text \<open>
  C15. Static routes written to a file as a script writes them (for each host a \<open>routes_on\<close> line, then
  the routes with target, prefix length, local address, gateway and metric) are read back: every
  host's table holds exactly its routes, in the order of the file, also when a host has several
  blocks.
\<close>

theorem routing_file_roundtrip:
  assumes "boost_laws B" and "list_all (\<lambda>b. list_all entry_length_ok (snd b)) blocks"
  shows "\<exists>cfg. loadRoutingConfig B oor init_routingConfig (Some (write_lines (concat (map write_block blocks)))) = Inr cfg
     \<and> proto cfg = ROUTING_OLSR
     \<and> (\<forall>ip. table_at cfg ip = concat (map (\<lambda>b. if fst b = ip then map fst (snd b) else []) blocks))"
  by (rule loadRoutingConfig_blocks [OF assms])

definition example_blocks :: "route_block list" where
  "example_blocks =
     [(167837953, [(\<lparr>target = 167838208, target_mask = 4294967040, via_if_ip = 167837953, gateway = 0, metric = - 3\<rparr>, 24)]),
      (167837954, []),
      (167837953, [(\<lparr>target = 167838465, target_mask = 4294967295, via_if_ip = 167837953, gateway = 167837955, metric = 7\<rparr>, 32)])]"

theorem routing_file_roundtrip_witness:
  "\<exists>cfg. loadRoutingConfig example_boost (\<lambda>_. 0) init_routingConfig
       (Some (write_lines (concat (map write_block example_blocks)))) = Inr cfg
     \<and> map metric (table_at cfg 167837953) = [- 3, 7] \<and> table_at cfg 167837954 = []"
proof -
  have "list_all (\<lambda>b. list_all entry_length_ok (snd b)) example_blocks" by code_simp
  from routing_file_roundtrip [OF example_boost_laws this] show ?thesis
    by (fastforce simp: example_blocks_def)
qed

text \<open>
  C40. A route line with a target and nothing else makes the loader read past the end of the token
  vector: the test that should refuse it, fewer than two and more than four tokens, never holds.
\<close>

theorem route_without_interface_crashes:
  assumes "boost_laws B"
  shows "loadRoutingConfig B oor cfg (Some (write_lines [[print_ip x]])) = Inl (Crash OutOfBounds)"
proof -
  have "is_directive [print_ip x]"
    using print_ip_head [of x] by (auto simp: is_directive_def is_digit_def)
  then have "filter is_directive (map words (text_lines (write_lines [[print_ip x]]))) = [[print_ip x]]"
    by (intro read_written_lines) (simp add: print_ip_plain)
  moreover have "print_ip x \<noteq> ''proto''" "print_ip x \<noteq> ''routes_on''"
    using print_ip_not_word [of _ x "''''"] by (simp_all add: is_digit_def)
  moreover have "read_ip_network_addr oor (print_ip x) = Some (x, - 1)"
    using read_ip_network_addr_host [of "[]" oor x] by (simp add: no_length_follows_def)
  ultimately show ?thesis
    by (simp add: loadRoutingConfig_def config_loop_foldE config_lines_spec [OF assms] load_routing_line_def
        load_entry_def token_at_def or_false_def)
qed

theorem route_without_interface_crashes_witness:
  "loadRoutingConfig example_boost (\<lambda>_. 0) init_routingConfig (Some ''10.1.1.1'') = Inl (Crash OutOfBounds)
   \<and> loadRoutingConfig example_boost (\<lambda>_. 0) init_routingConfig (Some (write_lines [[print_ip 167837953]]))
     = Inl (Crash OutOfBounds)"
proof
  show "loadRoutingConfig example_boost (\<lambda>_. 0) init_routingConfig (Some ''10.1.1.1'') = Inl (Crash OutOfBounds)"
    by code_simp
qed (rule route_without_interface_crashes [OF example_boost_laws])

end
