(* ===== verification/Apps_Config.thy ===== *)
theory Apps_Config
  imports Ns3_Config Ip_Addr "HOL-Library.AList"
begin

text \<open>
  \<open>sim/apps_config.cc\<close>, the loader of \<open>apps.txt\<close>: applications with their attributes, the default
  attributes that apply to the applications after them, and the connections. The default attributes
  are an \<open>unordered_map\<close>, kept here as an association list; the order in which the C++ library
  visits it is the parameter \<open>visit\<close>, of which the code may assume only that it is a permutation.
\<close>

section \<open>Data\<close>

datatype AppType =
    APP_INVALID | APP_UDP_ECHO_CLIENT | APP_UDP_ECHO_SERVER | APP_FILE_SERVER | APP_STREAMING_SERVER
  | APP_CLIENT | APP_WEB_SERVER | APP_WEB_CLIENT | APP_TIMED_PROXY | APP_RQ_ENCODER | APP_RQ_DECODER

type_synonym attribs = "(string \<times> string) list"

record AppConfig =
  app_tag :: string
  app_type :: AppType
  app_ip :: u32
  app_attribs :: attribs

record AppConnectionConfig =
  senders :: "string list"
  receivers :: "string list"

record AppsCompleteConfig =
  cfg_apps :: "AppConfig list"
  cfg_conns :: "AppConnectionConfig list"

definition empty_apps :: AppsCompleteConfig where
  "empty_apps = \<lparr>cfg_apps = [], cfg_conns = []\<rparr>"

section \<open>One application\<close>

definition appnames :: "(AppType \<times> string) list" where
  "appnames =
     [(APP_UDP_ECHO_CLIENT, ''echo_client''), (APP_UDP_ECHO_SERVER, ''echo_server''),
      (APP_FILE_SERVER, ''file_server''), (APP_STREAMING_SERVER, ''streaming_server''),
      (APP_CLIENT, ''client''), (APP_WEB_SERVER, ''web_server''), (APP_WEB_CLIENT, ''web_client''),
      (APP_TIMED_PROXY, ''timed_proxy''), (APP_RQ_ENCODER, ''rq_encoder''), (APP_RQ_DECODER, ''rq_decoder'')]"

definition find_app_type :: "string \<Rightarrow> AppType" where
  "find_app_type name = (case find (\<lambda>(tp, n). name = n) appnames of None \<Rightarrow> APP_INVALID | Some (tp, _) \<Rightarrow> tp)"

definition parse_attrib :: "attribs \<Rightarrow> string \<Rightarrow> cfg_error + attribs" where
  "parse_attrib as spec =
     (case ParseAttributeAssignmentSpec spec of None \<Rightarrow> Inl ReturnFalse | Some kv \<Rightarrow> Inr (as @ [kv]))"

definition parseSingleAppConfig :: "(int \<Rightarrow> u32) \<Rightarrow> string list \<Rightarrow> cfg_error + AppConfig" where
  "parseSingleAppConfig oor tokens =
     (if length tokens < 3 then Inl ReturnFalse
      else case read_ip_addr oor (tokens ! 1) of None \<Rightarrow> Inl ReturnFalse
      | Some ip \<Rightarrow>
          let tp = find_app_type (tokens ! 2) in
          if tp = APP_INVALID then Inl ReturnFalse
          else bindE (foldE parse_attrib [] (drop 3 tokens)) (\<lambda>as.
            Inr \<lparr>app_tag = tokens ! 0, app_type = tp, app_ip = ip, app_attribs = as\<rparr>))"

section \<open>One connection\<close>

text \<open>The vectors are cleared before they are filled, so the result does not depend on \<open>*ret\<close>.\<close>

definition parseSingleConnectionConfig :: "string list \<Rightarrow> cfg_error + AppConnectionConfig" where
  "parseSingleConnectionConfig tokens =
     (if tokens = [] \<or> tokens ! 0 \<noteq> ''connect'' then Inl (Crash AssertFail)
      else if length tokens < 3 then Inl ReturnFalse
      else if length tokens = 3 then Inr \<lparr>senders = [tokens ! 1], receivers = [tokens ! 2]\<rparr>
      else let args = drop 1 tokens;
               ss = takeWhile (\<lambda>t. t \<noteq> '':'') args;
               i = 1 + length ss in
        if i = length tokens then Inl ReturnFalse
        else let rs = drop (i + 1) tokens in
          if ss = [] \<or> rs = [] then Inl ReturnFalse else Inr \<lparr>senders = ss, receivers = rs\<rparr>)"

section \<open>The default attributes\<close>

definition update_default :: "attribs \<Rightarrow> string \<Rightarrow> cfg_error + attribs" where
  "update_default m spec =
     (case ParseAttributeAssignmentSpec spec of None \<Rightarrow> Inl ReturnFalse
      | Some (k, v) \<Rightarrow> Inr (if v = '''' then AList.delete k m else AList.update k v m))"

definition add_default :: "attribs \<Rightarrow> string \<times> string \<Rightarrow> attribs" where
  "add_default as p = (if list_ex (\<lambda>q. fst q = fst p) as then as else as @ [p])"

definition add_defaults :: "(attribs \<Rightarrow> attribs) \<Rightarrow> attribs \<Rightarrow> AppConfig \<Rightarrow> AppConfig" where
  "add_defaults visit defaults app = app\<lparr>app_attribs := foldl add_default (app_attribs app) (visit defaults)\<rparr>"

section \<open>The loader\<close>

definition load_apps_line ::
  "(attribs \<Rightarrow> attribs) \<Rightarrow> (int \<Rightarrow> u32) \<Rightarrow> attribs \<times> AppsCompleteConfig \<Rightarrow> string list
   \<Rightarrow> cfg_error + (attribs \<times> AppsCompleteConfig)" where
  "load_apps_line visit oor st tokens =
     (let (defaults, tgt) = st in
      case tokens of [] \<Rightarrow> Inl (Crash OutOfBounds)
      | t0 # args \<Rightarrow>
          if t0 = ''defaults'' then bindE (foldE update_default defaults args) (\<lambda>m. Inr (m, tgt))
          else if t0 = ''connect'' then
            bindE (parseSingleConnectionConfig tokens) (\<lambda>c. Inr (defaults, tgt\<lparr>cfg_conns := cfg_conns tgt @ [c]\<rparr>))
          else bindE (parseSingleAppConfig oor tokens) (\<lambda>app.
            Inr (defaults, tgt\<lparr>cfg_apps := cfg_apps tgt @ [add_defaults visit defaults app]\<rparr>)))"

definition loadAppsConfig ::
  "boost_string \<Rightarrow> (attribs \<Rightarrow> attribs) \<Rightarrow> (int \<Rightarrow> u32) \<Rightarrow> AppsCompleteConfig \<Rightarrow> string option
   \<Rightarrow> cfg_error + AppsCompleteConfig" where
  "loadAppsConfig B visit oor tgt fp =
     (case fp of None \<Rightarrow> Inl ReturnFalse
      | Some s \<Rightarrow> bindE (config_loop B (load_apps_line visit oor) ([], tgt) s) (\<lambda>(_, t). Inr t))"

section \<open>The map of default attributes\<close>

text \<open>The effect of the assignments of \<open>defaults\<close> lines on one attribute.\<close>

definition default_upd :: "(string \<Rightarrow> string option) \<Rightarrow> string \<Rightarrow> (string \<Rightarrow> string option)" where
  "default_upd d spec = (let (k, v) = assignment_of spec in d(k := if v = '''' then None else Some v))"

lemma update_default_step:
  assumes "update_default m spec = Inr m'"
  shows "map_of m' = default_upd (map_of m) spec" "distinct (map fst m) \<Longrightarrow> distinct (map fst m')"
proof -
  from assms obtain k v where kv: "ParseAttributeAssignmentSpec spec = Some (k, v)"
    "m' = (if v = '''' then AList.delete k m else AList.update k v m)"
    by (auto simp: update_default_def split: option.splits)
  from assignment_of_parse [OF kv(1)] have "assignment_of spec = (k, v)" by simp
  with kv(2) show "map_of m' = default_upd (map_of m) spec"
    by (auto simp: default_upd_def update_conv' delete_conv')
  show "distinct (map fst m) \<Longrightarrow> distinct (map fst m')"
    using kv(2) by (simp add: distinct_update distinct_delete)
qed

lemma update_defaults_step:
  "foldE update_default m specs = Inr m' \<Longrightarrow>
   map_of m' = foldl default_upd (map_of m) specs \<and> (distinct (map fst m) \<longrightarrow> distinct (map fst m'))"
  by (induction specs arbitrary: m) (auto simp: update_default_step)

lemma update_default_Inl: "foldE update_default m specs = Inl e \<Longrightarrow> e = ReturnFalse"
  by (induction specs arbitrary: m) (auto simp: bindE_Inl_iff update_default_def split: option.splits)

lemma parse_attrib_Inr:
  "parse_attrib as spec = Inr as' \<longleftrightarrow> (\<exists>kv. ParseAttributeAssignmentSpec spec = Some kv \<and> as' = as @ [kv])"
  by (auto simp: parse_attrib_def split: option.splits)

lemma parse_attribs_Inr:
  "foldE parse_attrib as specs = Inr as' \<Longrightarrow> as' = as @ map assignment_of specs"
proof (induction specs arbitrary: as)
  case (Cons spec specs)
  from Cons.prems obtain x where x: "parse_attrib as spec = Inr x" "foldE parse_attrib x specs = Inr as'" by auto
  from x(1) obtain kv where kv: "ParseAttributeAssignmentSpec spec = Some kv" "x = as @ [kv]"
    by (auto simp: parse_attrib_Inr)
  with Cons.IH [OF x(2)] assignment_of_parse [OF kv(1)] show ?case by simp
qed simp

lemma parse_attribs_Inl: "foldE parse_attrib as specs = Inl e \<Longrightarrow> e = ReturnFalse"
  by (induction specs arbitrary: as) (auto simp: bindE_Inl_iff parse_attrib_def split: option.splits)

text \<open>Adding the defaults: what was given explicitly stays, what was not takes its default.\<close>

lemma add_default_lookup: "map_of (add_default as p) = map_of [p] ++ map_of as"
proof (cases "fst p \<in> fst ` set as")
  case True
  then obtain q where "q \<in> set as" "fst q = fst p" by auto
  then have "list_ex (\<lambda>q. fst q = fst p) as" by (auto simp: list_ex_iff)
  moreover have "fst p \<in> dom (map_of as)" using True by (simp add: dom_map_of_conv_image_fst)
  then have "map_of [p] ++ map_of as = map_of as" by (cases p) (auto simp: map_add_def fun_eq_iff split: option.splits)
  ultimately show ?thesis by (simp add: add_default_def)
next
  case False
  have n: "\<not> list_ex (\<lambda>q. fst q = fst p) as"
  proof
    assume "list_ex (\<lambda>q. fst q = fst p) as"
    then obtain q where "q \<in> set as" "fst q = fst p" by (auto simp: list_ex_iff)
    then have "fst p \<in> fst ` set as" by (metis imageI)
    with False show False ..
  qed
  have "dom (map_of [p]) = {fst p}" by (cases p) simp
  moreover have "fst p \<notin> dom (map_of as)" using False by (simp add: dom_map_of_conv_image_fst)
  ultimately have "dom (map_of as) \<inter> dom (map_of [p]) = {}" by simp
  then show ?thesis using n by (simp add: add_default_def map_of_append map_add_comm)
qed

lemma foldl_add_default_lookup:
  "distinct (map fst ps) \<Longrightarrow> map_of (foldl add_default as ps) = map_of ps ++ map_of as"
proof (induction ps arbitrary: as)
  case (Cons p ps)
  then have "map_of (foldl add_default as (p # ps)) = map_of ps ++ (map_of [p] ++ map_of as)"
    by (simp add: add_default_lookup)
  also have "\<dots> = (map_of ps ++ map_of [p]) ++ map_of as" by simp
  also have "map_of ps ++ map_of [p] = map_of (p # ps)"
    using Cons.prems by (cases p) (auto simp: map_add_def fun_eq_iff map_of_eq_None_iff split: option.splits)
  finally show ?case .
qed simp

lemma foldl_add_default_prefix: "\<exists>ds. foldl add_default as ps = as @ ds"
  by (induction ps arbitrary: as) (auto simp: add_default_def, metis append.assoc)

lemma map_of_perm: "mset xs = mset ys \<Longrightarrow> distinct (map fst xs) \<Longrightarrow> map_of xs = map_of (ys :: attribs)"
  by (metis distinct_map map_of_inject_set mset_eq_imp_distinct_iff mset_eq_setD mset_map)

section \<open>What the file says\<close>

text \<open>The value a default attribute has after the lines \<open>tss\<close>.\<close>

definition default_value :: "string list list \<Rightarrow> string \<Rightarrow> string option" where
  "default_value tss = foldl default_upd Map.empty (concat (map tl (filter (is_line ''defaults'') tss)))"

definition is_app_line :: "string list \<Rightarrow> bool" where
  "is_app_line ts \<longleftrightarrow> ts \<noteq> [] \<and> hd ts \<noteq> ''defaults'' \<and> hd ts \<noteq> ''connect''"

definition explicit_attribs :: "string list \<Rightarrow> attribs" where
  "explicit_attribs ts = map assignment_of (drop 3 ts)"

text \<open>The application of the line \<open>ts\<close> when the lines \<open>pre\<close> precede it.\<close>

definition app_meaning :: "(int \<Rightarrow> u32) \<Rightarrow> string list list \<Rightarrow> string list \<Rightarrow> AppConfig \<Rightarrow> bool" where
  "app_meaning oor pre ts app \<longleftrightarrow>
     app_tag app = ts ! 0 \<and> read_ip_addr oor (ts ! 1) = Some (app_ip app)
   \<and> app_type app = find_app_type (ts ! 2) \<and> app_type app \<noteq> APP_INVALID
   \<and> (\<exists>ds. app_attribs app = explicit_attribs ts @ ds)
   \<and> map_of (app_attribs app) = default_value pre ++ map_of (explicit_attribs ts)"

definition visits_all :: "(attribs \<Rightarrow> attribs) \<Rightarrow> bool" where
  "visits_all visit \<longleftrightarrow> (\<forall>m. mset (visit m) = mset m)"

lemma parse_app_Inr:
  assumes "parseSingleAppConfig oor ts = Inr app"
  shows "app_tag app = ts ! 0" "read_ip_addr oor (ts ! 1) = Some (app_ip app)"
    "app_type app = find_app_type (ts ! 2)" "app_type app \<noteq> APP_INVALID"
    "app_attribs app = explicit_attribs ts"
proof -
  from assms obtain ip as where
    "read_ip_addr oor (ts ! 1) = Some ip" "find_app_type (ts ! 2) \<noteq> APP_INVALID"
    "foldE parse_attrib [] (drop 3 ts) = Inr as"
    "app = \<lparr>app_tag = ts ! 0, app_type = find_app_type (ts ! 2), app_ip = ip, app_attribs = as\<rparr>"
    by (auto simp: parseSingleAppConfig_def Let_def split: if_splits option.splits)
  with parse_attribs_Inr [OF this(3)] show "app_tag app = ts ! 0" "read_ip_addr oor (ts ! 1) = Some (app_ip app)"
    "app_type app = find_app_type (ts ! 2)" "app_type app \<noteq> APP_INVALID" "app_attribs app = explicit_attribs ts"
    by (simp_all add: explicit_attribs_def)
qed

lemma parse_app_Inl: "parseSingleAppConfig oor ts = Inl e \<Longrightarrow> e = ReturnFalse"
  by (auto simp: parseSingleAppConfig_def bindE_Inl_iff Let_def parse_attribs_Inl split: if_splits option.splits)

lemma add_defaults_meaning:
  assumes "visits_all visit" and "distinct (map fst m)" and "map_of m = default_value pre"
    and "parseSingleAppConfig oor ts = Inr app"
  shows "app_meaning oor pre ts (add_defaults visit m app)"
proof -
  have ms: "mset (visit m) = mset m" using assms(1) by (simp add: visits_all_def)
  then have "distinct (map fst (visit m))" using assms(2) by (metis mset_map mset_eq_imp_distinct_iff)
  then have "map_of (foldl add_default (explicit_attribs ts) (visit m)) = map_of (visit m) ++ map_of (explicit_attribs ts)"
    by (rule foldl_add_default_lookup)
  also have "map_of (visit m) = default_value pre" using map_of_perm [OF ms [symmetric] assms(2)] assms(3) by simp
  finally show ?thesis
    using parse_app_Inr [OF assms(4)] foldl_add_default_prefix [of "explicit_attribs ts" "visit m"]
    by (auto simp: app_meaning_def add_defaults_def)
qed

definition conn_of :: "string list \<Rightarrow> AppConnectionConfig" where
  "conn_of ts = (case parseSingleConnectionConfig ts of Inl _ \<Rightarrow> \<lparr>senders = [], receivers = []\<rparr> | Inr c \<Rightarrow> c)"

text \<open>What holds after the lines \<open>tss\<close>.\<close>

definition apps_loaded :: "(int \<Rightarrow> u32) \<Rightarrow> string list list \<Rightarrow> attribs \<times> AppsCompleteConfig \<Rightarrow> bool" where
  "apps_loaded oor tss st \<longleftrightarrow>
     map_of (fst st) = default_value tss \<and> distinct (map fst (fst st))
   \<and> cfg_conns (snd st) = map conn_of (filter (is_line ''connect'') tss)
   \<and> length (cfg_apps (snd st)) = length (filter is_app_line tss)
   \<and> (\<forall>pre ts post. tss = pre @ ts # post \<longrightarrow> is_app_line ts \<longrightarrow>
        app_meaning oor pre ts (cfg_apps (snd st) ! length (filter is_app_line pre)))"

lemma apps_loaded_snoc:
  "apps_loaded oor (tss @ [ts]) st \<longleftrightarrow>
     map_of (fst st) = (if is_line ''defaults'' ts then foldl default_upd (default_value tss) (tl ts) else default_value tss)
   \<and> distinct (map fst (fst st))
   \<and> cfg_conns (snd st) = map conn_of (filter (is_line ''connect'') tss) @ (if is_line ''connect'' ts then [conn_of ts] else [])
   \<and> length (cfg_apps (snd st)) = length (filter is_app_line tss) + (if is_app_line ts then 1 else 0)
   \<and> (\<forall>pre t post. tss = pre @ t # post \<longrightarrow> is_app_line t \<longrightarrow>
        app_meaning oor pre t (cfg_apps (snd st) ! length (filter is_app_line pre)))
   \<and> (is_app_line ts \<longrightarrow> app_meaning oor tss ts (cfg_apps (snd st) ! length (filter is_app_line tss)))"
  unfolding apps_loaded_def all_splits_snoc by (simp add: default_value_def)

lemma load_apps_line_cases:
  assumes "load_apps_line visit oor (m, tgt) ts = Inr st'"
  obtains
    (defaults) m' where "is_line ''defaults'' ts" "foldE update_default m (tl ts) = Inr m'" "st' = (m', tgt)"
  | (connect) c where "is_line ''connect'' ts" "parseSingleConnectionConfig ts = Inr c"
      "st' = (m, tgt\<lparr>cfg_conns := cfg_conns tgt @ [c]\<rparr>)"
  | (app) app where "is_app_line ts" "parseSingleAppConfig oor ts = Inr app"
      "st' = (m, tgt\<lparr>cfg_apps := cfg_apps tgt @ [add_defaults visit m app]\<rparr>)"
  using assms
  by (cases ts) (auto simp: load_apps_line_def is_line_def is_app_line_def split: if_splits)

lemma load_apps_line_loaded:
  assumes "visits_all visit" and "apps_loaded oor tss (m, tgt)"
    and "load_apps_line visit oor (m, tgt) ts = Inr st'"
  shows "apps_loaded oor (tss @ [ts]) st'"
proof -
  have old: "map_of m = default_value tss" "distinct (map fst m)"
    using assms(2) by (simp_all add: apps_loaded_def)
  have ls: "is_line ''defaults'' ts \<Longrightarrow> \<not> is_app_line ts \<and> \<not> is_line ''connect'' ts"
    "is_line ''connect'' ts \<Longrightarrow> \<not> is_app_line ts \<and> \<not> is_line ''defaults'' ts"
    "is_app_line ts \<Longrightarrow> \<not> is_line ''defaults'' ts \<and> \<not> is_line ''connect'' ts"
    by (auto simp: is_line_def is_app_line_def)
  from assms(3) show ?thesis
  proof (cases rule: load_apps_line_cases)
    case (defaults m')
    from update_defaults_step [OF defaults(2)] assms(2) defaults ls(1) show ?thesis
      unfolding apps_loaded_snoc by (simp add: apps_loaded_def)
  next
    case (connect c)
    with assms(2) ls(2) show ?thesis unfolding apps_loaded_snoc by (simp add: apps_loaded_def conn_of_def)
  next
    case (app a)
    have len: "length (cfg_apps tgt) = length (filter is_app_line tss)" using assms(2) by (simp add: apps_loaded_def)
    have nth: "(cfg_apps tgt @ [x]) ! length (filter is_app_line pre) = cfg_apps tgt ! length (filter is_app_line pre)"
      if "tss = pre @ t # post" "is_app_line t" for pre t post x
      using that len by (simp add: nth_append)
    have "app_meaning oor tss ts (add_defaults visit m a)"
      by (rule add_defaults_meaning [OF assms(1) old(2,1) app(2)])
    moreover have "(cfg_apps tgt @ [x]) ! length (filter is_app_line tss) = x" for x
      unfolding len [symmetric] by simp
    ultimately show ?thesis
      using assms(2) app ls(3) len nth unfolding apps_loaded_snoc by (simp add: apps_loaded_def)
  qed
qed

lemma load_apps_lines_loaded:
  "visits_all visit \<Longrightarrow> apps_loaded oor pre st \<Longrightarrow> foldE (load_apps_line visit oor) st tss = Inr st' \<Longrightarrow>
   apps_loaded oor (pre @ tss) st'"
proof (induction tss arbitrary: pre st)
  case (Cons ts tss)
  then obtain st1 where "load_apps_line visit oor st ts = Inr st1" "foldE (load_apps_line visit oor) st1 tss = Inr st'" by auto
  with Cons.IH [of "pre @ [ts]" st1] Cons.prems load_apps_line_loaded [of visit oor pre "fst st" "snd st" ts st1]
  show ?case by simp
qed simp

lemma parse_connection:
  "is_line ''connect'' ts \<Longrightarrow> parseSingleConnectionConfig ts = Inr c \<Longrightarrow> senders c \<noteq> [] \<and> receivers c \<noteq> []"
  by (auto simp: parseSingleConnectionConfig_def Let_def split: if_splits)

lemma parse_connection_Inl:
  "is_line ''connect'' ts \<Longrightarrow> parseSingleConnectionConfig ts = Inl e \<Longrightarrow> e = ReturnFalse"
  by (auto simp: parseSingleConnectionConfig_def is_line_def hd_conv_nth Let_def split: if_splits)

text \<open>What every loaded configuration satisfies: no untyped application, no open-ended connection.\<close>

definition apps_ok :: "attribs \<times> AppsCompleteConfig \<Rightarrow> bool" where
  "apps_ok st \<longleftrightarrow> list_all (\<lambda>a. app_type a \<noteq> APP_INVALID) (cfg_apps (snd st))
     \<and> list_all (\<lambda>c. senders c \<noteq> [] \<and> receivers c \<noteq> []) (cfg_conns (snd st))"

interpretation apps: config_loader "load_apps_line visit oor" apps_ok "{ReturnFalse}" for visit oor
proof unfold_locales
  fix ts and st st' :: "attribs \<times> AppsCompleteConfig"
  obtain m tgt where st: "st = (m, tgt)" by fastforce
  assume "apps_ok st" "load_apps_line visit oor st ts = Inr st'"
  from this(2) [unfolded st] this(1) [unfolded st] show "apps_ok st'"
    by (cases rule: load_apps_line_cases)
      (auto simp: apps_ok_def add_defaults_def dest: parse_app_Inr(4) parse_connection)
next
  fix ts and st :: "attribs \<times> AppsCompleteConfig" and e
  obtain m tgt where st: "st = (m, tgt)" by fastforce
  assume "token_line ts" "load_apps_line visit oor st ts = Inl e"
  then show "e \<in> {ReturnFalse}"
    using parse_connection_Inl [of ts e]
    by (cases ts) (auto simp: load_apps_line_def st bindE_Inl_iff token_line_def is_directive_def is_line_def
        dest: update_default_Inl parse_app_Inl split: if_splits)
qed


definition example_apps_lines :: "string list list" where
  "example_apps_lines =
     [[''defaults'', ''StartTime=20s'', ''A=1''], [''srv'', ''10.1.1.1'', ''file_server'', ''A=2''],
      [''defaults'', ''A=''], [''cl'', ''10.1.4.1'', ''client''], [''connect'', ''srv'', ''cl'']]"

lemma example_apps_load:
  "loadAppsConfig example_boost rev (\<lambda>_. 0) empty_apps (Some (write_lines example_apps_lines)) =
     Inr \<lparr>cfg_apps =
        [\<lparr>app_tag = ''srv'', app_type = APP_FILE_SERVER, app_ip = 167837953,
           app_attribs = [(''A'', ''2''), (''StartTime'', ''20s'')]\<rparr>,
         \<lparr>app_tag = ''cl'', app_type = APP_CLIENT, app_ip = 167838721, app_attribs = [(''StartTime'', ''20s'')]\<rparr>],
       cfg_conns = [\<lparr>senders = [''srv''], receivers = [''cl'']\<rparr>]\<rparr>"
  by code_simp


text \<open>
  A connection line that lists senders and receivers with a colon between them is read as these
  lists, for any number of each, as long as no sender is itself a colon; without a colon a line
  connects exactly one sender to one receiver, and a longer line is refused.
\<close>

theorem connection_roundtrip:
  "(ss \<noteq> [] \<and> rs \<noteq> [] \<and> '':'' \<notin> set ss \<longrightarrow>
      parseSingleConnectionConfig ([''connect''] @ ss @ ['':''] @ rs) = Inr \<lparr>senders = ss, receivers = rs\<rparr>)
   \<and> parseSingleConnectionConfig [''connect'', a, b] = Inr \<lparr>senders = [a], receivers = [b]\<rparr>
   \<and> (length args \<noteq> 2 \<and> '':'' \<notin> set args \<longrightarrow> parseSingleConnectionConfig (''connect'' # args) = Inl ReturnFalse)"
proof (intro conjI impI)
  assume a: "ss \<noteq> [] \<and> rs \<noteq> [] \<and> '':'' \<notin> set ss"
  then have "\<forall>t \<in> set ss. t \<noteq> '':''" by auto
  then have tw: "takeWhile (\<lambda>t. t \<noteq> '':'') (ss @ '':'' # rs) = ss" by simp
  have "length ss + length rs \<noteq> Suc 0" "length ss \<noteq> 0" "length rs \<noteq> 0" using a by (cases ss; cases rs; simp)+
  then show "parseSingleConnectionConfig ([''connect''] @ ss @ ['':''] @ rs) = Inr \<lparr>senders = ss, receivers = rs\<rparr>"
    using a by (simp add: parseSingleConnectionConfig_def Let_def tw add_is_1)
next
  show "parseSingleConnectionConfig [''connect'', a, b] = Inr \<lparr>senders = [a], receivers = [b]\<rparr>"
    by (simp add: parseSingleConnectionConfig_def)
next
  assume a: "length args \<noteq> 2 \<and> '':'' \<notin> set args"
  then have "\<forall>t \<in> set args. t \<noteq> '':''" by auto
  then have tw: "takeWhile (\<lambda>t. t \<noteq> '':'') args = args" by simp
  show "parseSingleConnectionConfig (''connect'' # args) = Inl ReturnFalse"
    using a by (simp add: parseSingleConnectionConfig_def Let_def tw)
qed

theorem connection_roundtrip_witness:
  "parseSingleConnectionConfig [''connect'', ''a'', ''b'', '':'', ''c''] = Inr \<lparr>senders = [''a'', ''b''], receivers = [''c'']\<rparr>
   \<and> parseSingleConnectionConfig [''connect'', ''a'', ''b'', ''c''] = Inl ReturnFalse"
  using connection_roundtrip [of "[''a'', ''b'']" "[''c'']" "''a''" "''b''" "[''a'', ''b'', ''c'']"] by simp

end
