(* ===== verification/Apps_Manager.thy ===== *)
theory Apps_Manager
  imports Apps_Config App_Rx_Cb App_Rq_Dec_Cb Timed_Proxy Packet_Sink Bulk_Send On_Off
begin

text \<open>
  \<open>AppsManager\<close>, \<open>sim/apps_manager.cc\<close>: it creates the applications of the configuration, connects
  them and attaches the trace sinks. The applications are ns-3 objects shared through pointers, so
  they live in a store, a list indexed by the pointer; a null \<open>Ptr\<close> is \<open>None\<close>. What ns-3 knows of
  attributes that no class of this repository registers, and which values its checkers accept, is
  the parameter \<open>ns3_env\<close>. The map \<open>rec\<close> is a partial function whose accesses \<open>rec[tag]\<close> create a
  zeroed record when the tag is missing.
\<close>

section \<open>Application objects\<close>

record app_obj =
  ob_type :: AppType
  ob_attrs :: "string \<Rightarrow> attr_value option"      \<comment> \<open>the attributes set since the construction\<close>

record ns3_env =
  ns3_attr :: "AppType \<Rightarrow> string \<Rightarrow> bool"               \<comment> \<open>registered by a class of ns-3\<close>
  ns3_init :: "AppType \<Rightarrow> string \<Rightarrow> attr_value"
  coerce :: "AppType \<Rightarrow> string \<Rightarrow> attr_value \<Rightarrow> attr_value option"  \<comment> \<open>what a set stores, \<open>None\<close> for a refused value\<close>
  can_open :: "string \<Rightarrow> bool"                          \<comment> \<open>\<open>fopen(name, "w")\<close> succeeds\<close>
  no_decode_info :: DecodeInfo                          \<comment> \<open>the uninitialised member of an \<open>AppRqDecCb\<close>\<close>

text \<open>The attributes and trace sources that the classes of the repository register.\<close>

fun registered :: "AppType \<Rightarrow> attr_spec list" where
  "registered APP_FILE_SERVER = BulkSend_attributes"
| "registered APP_STREAMING_SERVER = OnOff_attributes"
| "registered APP_CLIENT = PacketSink_attributes"
| "registered APP_TIMED_PROXY = TimedProxy_attributes @ ProxyBase_attributes"
| "registered APP_RQ_ENCODER = RqEncoder_attributes @ ProxyBase_attributes"
| "registered APP_RQ_DECODER = RqDecoder_attributes @ ProxyBase_attributes"
| "registered _ = []"

fun trace_sources :: "AppType \<Rightarrow> string list" where
  "trace_sources APP_FILE_SERVER = BulkSend_trace_sources"
| "trace_sources APP_STREAMING_SERVER = OnOff_trace_sources"
| "trace_sources APP_CLIENT = PacketSink_trace_sources"
| "trace_sources APP_TIMED_PROXY = ProxyBase_trace_sources"
| "trace_sources APP_RQ_ENCODER = ProxyBase_trace_sources"
| "trace_sources APP_RQ_DECODER = RqDecoder_trace_sources @ ProxyBase_trace_sources"
| "trace_sources _ = []"

definition has_attribute :: "ns3_env \<Rightarrow> AppType \<Rightarrow> string \<Rightarrow> bool" where
  "has_attribute E ty n \<longleftrightarrow> list_ex (\<lambda>a. fst a = n) (registered ty) \<or> ns3_attr E ty n"

definition SetAttribute :: "ns3_env \<Rightarrow> string \<Rightarrow> attr_value \<Rightarrow> app_obj \<Rightarrow> fault + app_obj" where
  "SetAttribute E n v ob =
     (if \<not> has_attribute E (ob_type ob) n then Inl (FatalError ''no such attribute'')
      else case coerce E (ob_type ob) n v of None \<Rightarrow> Inl (FatalError ''value refused'')
      | Some w \<Rightarrow> Inr (ob\<lparr>ob_attrs := (ob_attrs ob)(n \<mapsto> w)\<rparr>))"

definition attr_of :: "ns3_env \<Rightarrow> string \<Rightarrow> app_obj \<Rightarrow> attr_value" where
  "attr_of E n ob =
     (case ob_attrs ob n of Some v \<Rightarrow> v
      | None \<Rightarrow> (case map_of (registered (ob_type ob)) n of Some (init, _) \<Rightarrow> init
                 | None \<Rightarrow> ns3_init E (ob_type ob) n))"

definition GetAttribute :: "ns3_env \<Rightarrow> string \<Rightarrow> app_obj \<Rightarrow> fault + attr_value" where
  "GetAttribute E n ob =
     (if \<not> has_attribute E (ob_type ob) n then Inl (FatalError ''no such attribute'') else Inr (attr_of E n ob))"

type_synonym store = "app_obj list"

definition deref :: "store \<Rightarrow> nat option \<Rightarrow> fault + nat" where
  "deref S p = (case p of None \<Rightarrow> Inl NullPointer | Some a \<Rightarrow> if a < length S then Inr a else Inl NullPointer)"

definition app_set :: "ns3_env \<Rightarrow> nat option \<Rightarrow> string \<Rightarrow> attr_value \<Rightarrow> store \<Rightarrow> fault + store" where
  "app_set E p n v S = bindE (deref S p) (\<lambda>a. bindE (SetAttribute E n v (S ! a)) (\<lambda>ob. Inr (S[a := ob])))"

definition app_get :: "ns3_env \<Rightarrow> nat option \<Rightarrow> string \<Rightarrow> store \<Rightarrow> fault + attr_value" where
  "app_get E p n S = bindE (deref S p) (\<lambda>a. GetAttribute E n (S ! a))"

definition setAppAttribs :: "ns3_env \<Rightarrow> nat option \<Rightarrow> attribs \<Rightarrow> store \<Rightarrow> fault + store" where
  "setAppAttribs E p as S = foldE (\<lambda>S a. app_set E p (fst a) (StringValue (snd a)) S) S as"

section \<open>Records\<close>

record AttribNames =
  an_proto :: string
  an_address :: string
  an_port :: string

definition no_names :: AttribNames where
  "no_names = \<lparr>an_proto = '''', an_address = '''', an_port = ''''\<rparr>"

record AppRecord =
  ar_type :: AppType
  ar_app :: "nat option"
  ar_host_ip :: u32
  ar_TxMultiple :: bool
  ar_TxNames :: AttribNames
  ar_RxMultiple :: bool
  ar_RxNames :: AttribNames
  ar_has_rx_trace :: bool
  ar_has_rq_decoder_trace :: bool

text \<open>\<open>AppRecord R{}\<close>: the enumerator with value 0 is \<open>APP_UDP_ECHO_CLIENT\<close>.\<close>

definition zero_record :: AppRecord where
  "zero_record = \<lparr>ar_type = APP_UDP_ECHO_CLIENT, ar_app = None, ar_host_ip = 0,
     ar_TxMultiple = False, ar_TxNames = no_names, ar_RxMultiple = False, ar_RxNames = no_names,
     ar_has_rx_trace = False, ar_has_rq_decoder_trace = False\<rparr>"

text \<open>The \<open>switch\<close> of \<open>createApp\<close>; \<open>None\<close> is its default branch.\<close>

fun switch_type :: "AppType \<Rightarrow> AppRecord \<Rightarrow> AppRecord option" where
  "switch_type APP_UDP_ECHO_CLIENT R = Some (R\<lparr>ar_TxNames := (ar_TxNames R)\<lparr>an_address := ''RemoteAddress'', an_port := ''RemotePort''\<rparr>\<rparr>)"
| "switch_type APP_UDP_ECHO_SERVER R = Some (R\<lparr>ar_RxNames := (ar_RxNames R)\<lparr>an_port := ''Port''\<rparr>\<rparr>)"
| "switch_type APP_FILE_SERVER R = Some (R\<lparr>ar_TxNames := (ar_TxNames R)\<lparr>an_proto := ''Protocol'', an_address := ''Remote''\<rparr>\<rparr>)"
| "switch_type APP_STREAMING_SERVER R = Some (R\<lparr>ar_TxNames := (ar_TxNames R)\<lparr>an_proto := ''Protocol'', an_address := ''Remote''\<rparr>\<rparr>)"
| "switch_type APP_CLIENT R = Some (R\<lparr>ar_RxNames := (ar_RxNames R)\<lparr>an_proto := ''Protocol'', an_address := ''Local''\<rparr>, ar_has_rx_trace := True\<rparr>)"
| "switch_type APP_WEB_SERVER R = Some (R\<lparr>ar_RxNames := (ar_RxNames R)\<lparr>an_address := ''LocalAddress'', an_port := ''LocalPort''\<rparr>\<rparr>)"
| "switch_type APP_WEB_CLIENT R = Some (R\<lparr>ar_TxNames := (ar_TxNames R)\<lparr>an_address := ''RemoteServerAddress'', an_port := ''RemoteServerPort''\<rparr>\<rparr>)"
| "switch_type APP_TIMED_PROXY R = Some (R\<lparr>ar_RxMultiple := False,
     ar_RxNames := (ar_RxNames R)\<lparr>an_proto := ''ProtocolRx0'', an_address := ''RxAddr0''\<rparr>, ar_TxMultiple := False,
     ar_TxNames := (ar_TxNames R)\<lparr>an_proto := ''ProtocolTx0'', an_address := ''TxAddr0''\<rparr>, ar_has_rx_trace := True\<rparr>)"
| "switch_type APP_RQ_ENCODER R = Some (R\<lparr>ar_RxMultiple := True,
     ar_RxNames := (ar_RxNames R)\<lparr>an_proto := ''ProtocolRx'', an_address := ''RxAddr''\<rparr>, ar_TxMultiple := False,
     ar_TxNames := (ar_TxNames R)\<lparr>an_proto := ''ProtocolTx0'', an_address := ''TxAddr0''\<rparr>, ar_has_rx_trace := True\<rparr>)"
| "switch_type APP_RQ_DECODER R = Some (R\<lparr>ar_RxMultiple := False,
     ar_RxNames := (ar_RxNames R)\<lparr>an_proto := ''ProtocolRx0'', an_address := ''RxAddr0''\<rparr>, ar_TxMultiple := True,
     ar_TxNames := (ar_TxNames R)\<lparr>an_proto := ''ProtocolTx'', an_address := ''TxAddr''\<rparr>, ar_has_rx_trace := True,
     ar_has_rq_decoder_trace := True\<rparr>)"
| "switch_type APP_INVALID R = None"

section \<open>State\<close>

record rx_sink =
  rs_app :: "nat option"
  rs_rx_name :: string
  rs_pl_name :: string
  rs_header :: "string list"     \<comment> \<open>the lines both files start with\<close>
  rs_cb :: AppRxCb

record dec_sink =
  ds_app :: "nat option"
  ds_name :: string
  ds_opened :: bool
  ds_cb :: AppRqDecCb

record AppsManager =
  am_out_dir :: string
  am_rec :: "string \<Rightarrow> AppRecord option"
  am_store :: store
  am_hosts :: "(nat \<times> nat) list"   \<comment> \<open>\<open>host->AddApplication(app)\<close>: the node and the application\<close>
  am_rxCbs :: "rx_sink list"
  am_rqDecCbs :: "dec_sink list"

definition init_AppsManager :: AppsManager where
  "init_AppsManager = \<lparr>am_out_dir = '''', am_rec = Map.empty, am_store = [], am_hosts = [], am_rxCbs = [], am_rqDecCbs = []\<rparr>"

definition AppsManager_destroy :: "AppsManager \<Rightarrow> AppRxCb list \<times> AppRqDecCb list" where
  "AppsManager_destroy M = (map (AppRxCb_destroy \<circ> rs_cb) (am_rxCbs M), map (AppRqDecCb_destroy \<circ> ds_cb) (am_rqDecCbs M))"

definition setOutDir :: "string \<Rightarrow> AppsManager \<Rightarrow> AppsManager" where
  "setOutDir d M = M\<lparr>am_out_dir := d\<rparr>"

section \<open>Creating an application\<close>

text \<open>\<open>addr2node\<close> is the map from the address of an interface to the node of its device.\<close>

definition createApp :: "ns3_env \<Rightarrow> (u32 \<Rightarrow> nat option) \<Rightarrow> AppsManager \<Rightarrow> AppConfig \<Rightarrow> cfg_error + AppsManager" where
  "createApp E addr2node M cfg =
     (case switch_type (app_type cfg) (zero_record\<lparr>ar_type := app_type cfg, ar_host_ip := app_ip cfg\<rparr>) of
        None \<Rightarrow> Inl ReturnFalse
      | Some R0 \<Rightarrow>
        let a = length (am_store M);
            R = R0\<lparr>ar_app := Some a\<rparr>;
            S = am_store M @ [\<lparr>ob_type = app_type cfg, ob_attrs = Map.empty\<rparr>]
        in bindE (or_crash (setAppAttribs E (ar_app R) (app_attribs cfg) S)) (\<lambda>S.
           if am_rec M (app_tag cfg) \<noteq> None then Inl ReturnFalse
           else case addr2node (app_ip cfg) of
             None \<Rightarrow> Inl (Crash (UncaughtException ''std::out_of_range''))
           | Some host \<Rightarrow> Inr (M\<lparr>am_store := S, am_rec := (am_rec M)(app_tag cfg \<mapsto> R),
               am_hosts := am_hosts M @ [(host, a)]\<rparr>)))"

section \<open>Connecting\<close>

definition tsubst :: "string \<Rightarrow> int \<Rightarrow> string" where
  "tsubst orig index = (if orig = '''' then '''' else orig @ dec_int index)"

definition getNamesFromNameTemplates :: "AttribNames \<Rightarrow> int \<Rightarrow> AttribNames" where
  "getNamesFromNameTemplates templ i =
     \<lparr>an_proto = tsubst (an_proto templ) i, an_address = tsubst (an_address templ) i, an_port = tsubst (an_port templ) i\<rparr>"

definition tx_names :: "AppRecord \<Rightarrow> nat \<Rightarrow> AttribNames" where
  "tx_names R i = (if ar_TxMultiple R then getNamesFromNameTemplates (ar_TxNames R) (int i) else ar_TxNames R)"

definition rx_names :: "AppRecord \<Rightarrow> nat \<Rightarrow> AttribNames" where
  "rx_names R i = (if ar_RxMultiple R then getNamesFromNameTemplates (ar_RxNames R) (int i) else ar_RxNames R)"

definition match_protocols :: "ns3_env \<Rightarrow> AppRecord \<Rightarrow> AttribNames \<Rightarrow> AppRecord \<Rightarrow> AttribNames \<Rightarrow> store \<Rightarrow> fault + store" where
  "match_protocols E rec_tx txn rec_rx rxn S =
     (if an_proto txn \<noteq> '''' then
        bindE (app_get E (ar_app rec_tx) (an_proto txn) S) (\<lambda>proto. app_set E (ar_app rec_rx) (an_proto rxn) proto S)
      else Inr S)"

definition set_sender :: "ns3_env \<Rightarrow> nat \<Rightarrow> u32 \<Rightarrow> AppRecord \<Rightarrow> AttribNames \<Rightarrow> store \<Rightarrow> fault + store" where
  "set_sender E port rx_ip rec_tx txn S =
     bindE (guardE (an_address txn \<noteq> '''') AssertFail) (\<lambda>_.
       if an_port txn \<noteq> '''' then
         bindE (app_set E (ar_app rec_tx) (an_port txn) (UintegerValue port) S) (\<lambda>S.
           app_set E (ar_app rec_tx) (an_address txn) (AddressValue (Ipv4Addr rx_ip)) S)
       else app_set E (ar_app rec_tx) (an_address txn) (AddressValue (InetAddr rx_ip (of_nat port))) S)"

definition set_receiver :: "ns3_env \<Rightarrow> nat \<Rightarrow> AppRecord \<Rightarrow> AttribNames \<Rightarrow> store \<Rightarrow> fault + store" where
  "set_receiver E port rec_rx rxn S =
     (if an_port rxn \<noteq> '''' then
        bindE (app_set E (ar_app rec_rx) (an_port rxn) (UintegerValue port) S) (\<lambda>S.
          if an_address rxn \<noteq> '''' then app_set E (ar_app rec_rx) (an_address rxn) (AddressValue (Ipv4Addr 0)) S
          else Inr S)
      else app_set E (ar_app rec_rx) (an_address rxn) (AddressValue (InetAddr 0 (of_nat port))) S)"

definition createConn1 ::
  "ns3_env \<Rightarrow> nat \<Rightarrow> nat \<Rightarrow> AppRecord \<Rightarrow> nat \<Rightarrow> AppRecord \<Rightarrow> store \<Rightarrow> fault + store" where
  "createConn1 E sindex rx_index rec_rx tx_index rec_tx S =
     (let txn = tx_names rec_tx rx_index; rxn = rx_names rec_rx tx_index; port = sindex + 1001 in
      bindE (match_protocols E rec_tx txn rec_rx rxn S) (\<lambda>S.
      bindE (set_sender E port (ar_host_ip rec_rx) rec_tx txn S) (\<lambda>S.
      set_receiver E port rec_rx rxn S)))"

text \<open>\<open>rec[tag]\<close>, which creates the record when it is missing.\<close>

definition rec_at :: "string \<Rightarrow> AppsManager \<Rightarrow> AppRecord \<times> AppsManager" where
  "rec_at tag M = (case am_rec M tag of Some R \<Rightarrow> (R, M) | None \<Rightarrow> (zero_record, M\<lparr>am_rec := (am_rec M)(tag \<mapsto> zero_record)\<rparr>))"

text \<open>One sender after the other of one receiver; the pair of the manager and \<open>*sindex\<close> is threaded.\<close>

fun conn_senders ::
  "ns3_env \<Rightarrow> nat \<Rightarrow> AppRecord \<Rightarrow> nat \<Rightarrow> string list \<Rightarrow> AppsManager \<times> nat \<Rightarrow> cfg_error + (AppsManager \<times> nat)" where
  "conn_senders E i rec_rx j [] st = Inr st"
| "conn_senders E i rec_rx j (tag_tx # tags) st =
     (let (M, sindex) = st; (rec_tx, M) = rec_at tag_tx M in
      bindE (or_crash (createConn1 E sindex i rec_rx j rec_tx (am_store M))) (\<lambda>S.
        conn_senders E i rec_rx (Suc j) tags (M\<lparr>am_store := S\<rparr>, Suc sindex)))"

text \<open>\<open>setfill('0') << setw(3)\<close>\<close>

definition pad3 :: "nat \<Rightarrow> string" where
  "pad3 n = replicate (3 - length (dec_nat n)) (CHR ''0'') @ dec_nat n"

definition trace_name :: "string \<Rightarrow> string \<Rightarrow> nat \<Rightarrow> string" where
  "trace_name out_dir kind sindex = out_dir @ ''/trace-app-'' @ kind @ ''-'' @ pad3 sindex @ ''.txt''"

definition header_lines :: "nat \<Rightarrow> nat \<Rightarrow> string list \<Rightarrow> string \<Rightarrow> string list" where
  "header_lines sindex conn_index tags_tx tag_rx =
     [''# app_connect_id = '' @ dec_nat sindex @ [newline], ''# connect_stmt_id = '' @ dec_nat conn_index @ [newline],
      ''# tags_tx ='' @ concat (map (\<lambda>t. '' '' @ t) tags_tx) @ [newline], ''# tag_rx = '' @ tag_rx @ [newline]]"

text \<open>The trace sinks of a receiver; \<open>fprintf\<close> to a file that could not be opened dereferences null.\<close>

definition install_rx :: "ns3_env \<Rightarrow> nat \<Rightarrow> string list \<Rightarrow> string \<Rightarrow> AppRecord \<Rightarrow> AppsManager \<times> nat \<Rightarrow> cfg_error + (AppsManager \<times> nat)" where
  "install_rx E conn_index tags_tx tag_rx rec_rx st =
     (let (M, sindex) = st;
          rx = trace_name (am_out_dir M) ''rx'' sindex; pl = trace_name (am_out_dir M) ''pl'' sindex in
      if \<not> can_open E rx \<or> \<not> can_open E pl then Inl (Crash NullPointer)
      else Inr (M\<lparr>am_rxCbs := am_rxCbs M @ [\<lparr>rs_app = ar_app rec_rx, rs_rx_name = rx, rs_pl_name = pl,
             rs_header = header_lines sindex conn_index tags_tx tag_rx, rs_cb = AppRxCb_make True 128\<rparr>]\<rparr>, sindex))"

definition install_rqdec :: "ns3_env \<Rightarrow> AppRecord \<Rightarrow> AppsManager \<times> nat \<Rightarrow> AppsManager \<times> nat" where
  "install_rqdec E rec_rx st =
     (let (M, sindex) = st; name = trace_name (am_out_dir M) ''rqdec'' sindex in
      (M\<lparr>am_rqDecCbs := am_rqDecCbs M @ [\<lparr>ds_app = ar_app rec_rx, ds_name = name, ds_opened = can_open E name,
           ds_cb = AppRqDecCb_make (no_decode_info E)\<rparr>]\<rparr>, sindex))"

fun conn_receivers ::
  "ns3_env \<Rightarrow> nat \<Rightarrow> string list \<Rightarrow> nat \<Rightarrow> string list \<Rightarrow> AppsManager \<times> nat \<Rightarrow> cfg_error + (AppsManager \<times> nat)" where
  "conn_receivers E conn_index tags_tx i [] st = Inr st"
| "conn_receivers E conn_index tags_tx i (tag_rx # tags) st =
     (let (M, sindex) = st; (rec_rx, M) = rec_at tag_rx M in
      bindE (conn_senders E i rec_rx 0 tags_tx (M, sindex)) (\<lambda>st.
      bindE (if ar_has_rx_trace rec_rx then install_rx E conn_index tags_tx tag_rx rec_rx st else Inr st) (\<lambda>st.
      let st = (if ar_has_rq_decoder_trace rec_rx then install_rqdec E rec_rx st else st) in
      conn_receivers E conn_index tags_tx (Suc i) tags st)))"

definition createConns ::
  "ns3_env \<Rightarrow> nat \<Rightarrow> AppConnectionConfig \<Rightarrow> AppsManager \<times> nat \<Rightarrow> cfg_error + (AppsManager \<times> nat)" where
  "createConns E conn_index cfg st =
     (let (M, sindex) = st; ss = senders cfg; rs = receivers cfg in
      if length ss \<noteq> 1 \<and> length rs \<noteq> 1 then Inl ReturnFalse
      else let (rx_ok, M) = (if length ss > 1 then (let (R, M) = rec_at (rs ! 0) M in (ar_RxMultiple R, M)) else (True, M)) in
      if \<not> rx_ok then Inl ReturnFalse
      else let (tx_ok, M) = (if length rs > 1 then (let (R, M) = rec_at (ss ! 0) M in (ar_TxMultiple R, M)) else (True, M)) in
      if \<not> tx_ok then Inl ReturnFalse
      else conn_receivers E conn_index ss 0 rs (M, sindex))"

fun connect_all ::
  "ns3_env \<Rightarrow> nat \<Rightarrow> AppConnectionConfig list \<Rightarrow> AppsManager \<times> nat \<Rightarrow> cfg_error + (AppsManager \<times> nat)" where
  "connect_all E i [] st = Inr st"
| "connect_all E i (c # cs) st = bindE (createConns E i c st) (connect_all E (Suc i) cs)"

definition createApps :: "ns3_env \<Rightarrow> (u32 \<Rightarrow> nat option) \<Rightarrow> AppsCompleteConfig \<Rightarrow> AppsManager \<Rightarrow> cfg_error + AppsManager" where
  "createApps E addr2node cfg M =
     bindE (foldE (createApp E addr2node) M (cfg_apps cfg)) (\<lambda>M.
     bindE (connect_all E 0 (cfg_conns cfg) (M, 0)) (\<lambda>(M, _). Inr M))"

end
