(* ===== verification/Mesh_Sim.thy ===== *)
theory Mesh_Sim
  imports Mesh_Net Mobility_Config Wifi_Config Routing_Config Apps_Manager
begin

text \<open>
  \<open>MeshSim\<close>, \<open>sim/mesh_sim.cc\<close>, and \<open>main\<close>: options and configuration, the construction of the
  topology, of the interfaces, routes and applications, and the packet traces. The containers of
  ns-3 are lists of nodes, devices and interfaces. What the program tells the helpers of ns-3 is
  recorded in \<open>ms_log\<close> in the order of the calls. An \<open>unordered_map\<close> is an association list, and the
  order in which a loop visits it a parameter.
\<close>

section \<open>Calls\<close>

datatype helper_id = MeshPhy | StaPhy | MeshChannel | StaChannel | ApStaWifi | MeshHelper | BackhaulP2p | WiredSta

datatype mac_value = MilliSeconds nat | UintV u64 | SsidV string | BoolV bool

record static_route =
  sr_dest :: u32
  sr_mask :: u32
  sr_gateway :: "u32 option"
  sr_iface :: u32
  sr_metric :: u32

datatype 'd sim_call =
    Configure helper_id helper_call              \<comment> \<open>a call made by \<open>ns3_utils\<close>\<close>
  | UseChannel helper_id helper_id               \<comment> \<open>\<open>SetChannel(helper.Create())\<close>\<close>
  | SetDeviceAttribute helper_id string string
  | SetChannelAttribute helper_id string string
  | SetStackInstaller string
  | SetMac helper_id string "(string \<times> mac_value) list"
  | SpreadChannels
  | InstallMobility "'d MobilityHelper" "nat list"
  | AddRouting RoutingProtocol
  | AddNetworkRouteTo nat static_route
  | PrintRoutingTable nat
  | SetPcapDataLinkType helper_id
  | EnablePcap helper_id string nat bool bool
  | Message string
  | InstallFlowMonitor
  | StopAt 'd
  | RunEvents
  | SerializeToXmlFile string
  | DestroySimulator
  | ConfigureDefaults                            \<comment> \<open>of the \<open>ConfigStore\<close>\<close>
  | ConfigureAttributes
  | StartProgressReport

section \<open>State\<close>

record 'd sim_options =
  configDir :: string
  outDir :: string
  simDuration :: 'd
  meshSize :: int
  staSize :: int
  cwmin :: int
  enablePcap :: bool
  promiscuousMode :: bool
  useRadioTap :: bool

record 'd sim_config = "'d sim_options" +
  meshMobilityHelper :: "'d MobilityHelper"
  staMobilityHelper :: "'d MobilityHelper"
  appsCfg :: AppsCompleteConfig
  routing_cfg :: routingConfig
  meshWifiConfig :: wifiConfig
  apStaWifiConfig :: wifiConfig

record ('d, 'n) MeshSim = "'d sim_config" +
  appsMgr :: AppsManager
  backhaulP2pInterfaces :: "iface list"
  meshInterfaces :: "iface list"
  apInterfaces :: "iface list"
  staInterfaces :: "iface list"
  sta2wInterfaces :: "iface list"
  wiredStaInterfaces :: "iface list"
  backhaulP2pDevices :: "nat list"
  backhaulNodes :: "nat list"
  meshNodes :: "nat list"
  meshDevices :: "nat list"
  apDevices :: "nat list"
  staNodes :: "nat list"
  staDevices :: "nat list"
  wiredStaNodes :: "nat list"
  sta2wDevices :: "nat list"
  wiredStaDevices :: "nat list"
  net :: 'n
  ms_log :: "'d sim_call list"

definition init_MeshSim :: "'d \<Rightarrow> 'd MobilityHelper \<Rightarrow> 'n \<Rightarrow> ('d, 'n) MeshSim" where
  "init_MeshSim sixty no_mobility n =
     \<lparr>configDir = ''conf'', outDir = ''out'', simDuration = sixty, meshSize = 9, staSize = 9, cwmin = 9999,
      enablePcap = False, promiscuousMode = False, useRadioTap = False,
      meshMobilityHelper = no_mobility, staMobilityHelper = no_mobility,
      appsCfg = empty_apps, routing_cfg = init_routingConfig,
      meshWifiConfig = init_wifiConfig, apStaWifiConfig = init_wifiConfig, appsMgr = init_AppsManager,
      backhaulP2pInterfaces = [], meshInterfaces = [], apInterfaces = [], staInterfaces = [], sta2wInterfaces = [],
      wiredStaInterfaces = [], backhaulP2pDevices = [], backhaulNodes = [], meshNodes = [], meshDevices = [],
      apDevices = [], staNodes = [], staDevices = [], wiredStaNodes = [], sta2wDevices = [], wiredStaDevices = [],
      net = n, ms_log = []\<rparr>"

definition emit :: "'d sim_call list \<Rightarrow> ('d, 'n) MeshSim \<Rightarrow> ('d, 'n) MeshSim" where
  "emit cs S = S\<lparr>ms_log := ms_log S @ cs\<rparr>"

text \<open>The calls of a function of \<open>ns3_utils\<close> on a helper; the caller returns false when it does.\<close>

definition configure :: "helper_id \<Rightarrow> helper_result \<Rightarrow> ('d, 'n) MeshSim \<Rightarrow> cfg_error + ('d, 'n) MeshSim" where
  "configure h r S = (if fst r then Inr (emit (map (Configure h) (snd r)) S) else Inl ReturnFalse)"

section \<open>Options and configuration files\<close>

definition options :: "string list" where
  "options = [''simDuration'', ''meshSize'', ''staSize'', ''enablePcap'', ''promiscuousMode'', ''useRadioTap'', ''cwmin'']"

text \<open>\<open>parse\<close> is \<open>CommandLine::Parse\<close> for the registered options: the variables it assigns and the
  arguments that are no options.\<close>

definition ProcessCommandLineArgs ::
  "(string list \<Rightarrow> string list \<Rightarrow> ('d, 'n) MeshSim \<Rightarrow> ('d, 'n) MeshSim \<times> string list) \<Rightarrow> (string \<Rightarrow> bool) \<Rightarrow> (string \<Rightarrow> bool)
   \<Rightarrow> string list \<Rightarrow> ('d, 'n) MeshSim \<Rightarrow> cfg_error + ('d, 'n) MeshSim" where
  "ProcessCommandLineArgs parse path_exists is_directory argv S =
     (let (S, extra) = parse options argv S; nopts = length extra in
      if nopts > 2 then Inl ReturnFalse
      else let S = (if nopts \<ge> 2 then S\<lparr>outDir := extra ! 1\<rparr> else S);
               S = (if nopts \<ge> 1 then S\<lparr>configDir := extra ! 0\<rparr> else S) in
      if \<not> path_exists (outDir S) \<or> \<not> is_directory (outDir S) then Inl ReturnFalse else Inr S)"

text \<open>What the loaders need: the files, the standard library and boost.\<close>

record 'd load_env =
  le_files :: "string \<Rightarrow> string option"
  le_boost :: boost_string
  le_oor :: "int \<Rightarrow> u32"
  le_visit :: "attribs \<Rightarrow> attribs"
  le_alloc :: "'d alloc_env"

definition LoadConfig :: "'d::zero load_env \<Rightarrow> ('d, 'n) MeshSim \<Rightarrow> cfg_error + ('d, 'n) MeshSim" where
  "LoadConfig L S =
     (let dir = configDir S; file = (\<lambda>name. le_files L (dir @ name)) in
      bindE (configureMobilityHelper (le_alloc L) (le_boost L) (meshMobilityHelper S) (file ''/mesh_mobility.txt''))
        (\<lambda>h. let S = S\<lparr>meshMobilityHelper := h\<rparr> in
      bindE (configureMobilityHelper (le_alloc L) (le_boost L) (staMobilityHelper S) (file ''/sta_mobility.txt''))
        (\<lambda>h. let S = S\<lparr>staMobilityHelper := h\<rparr> in
      bindE (loadAppsConfig (le_boost L) (le_visit L) (le_oor L) (appsCfg S) (file ''/apps.txt''))
        (\<lambda>c. let S = S\<lparr>appsCfg := c\<rparr> in
      bindE (loadRoutingConfig (le_boost L) (le_oor L) (routing_cfg S) (file ''/routing.txt''))
        (\<lambda>c. let S = S\<lparr>routing_cfg := c\<rparr> in
      bindE (loadWifiConfig (le_boost L) (meshWifiConfig S) (file ''/mesh_wifi.txt''))
        (\<lambda>c. let S = S\<lparr>meshWifiConfig := c\<rparr> in
      bindE (loadWifiConfig (le_boost L) (apStaWifiConfig S) (file ''/apsta_wifi.txt''))
        (\<lambda>c. Inr (S\<lparr>apStaWifiConfig := c\<rparr>))))))))"

section \<open>Channels, nodes and devices\<close>

definition CreateChannels :: "('d, 'n) MeshSim \<Rightarrow> cfg_error + ('d, 'n) MeshSim" where
  "CreateChannels S =
     bindE (configure MeshChannel (configureWifiChannel (meshWifiConfig S)) S) (\<lambda>S.
     let S = emit [UseChannel MeshPhy MeshChannel] S in
     bindE (configure StaChannel (configureWifiChannel (apStaWifiConfig S)) S) (\<lambda>S.
     let S = emit [UseChannel StaPhy StaChannel] S in
     bindE (configure ApStaWifi (configureWifiStdAndRateControl (apStaWifiConfig S)) S) (\<lambda>S.
     bindE (configure StaPhy (configureWifiPhy (phy_attribs (apStaWifiConfig S))) S) (\<lambda>S.
     Inr (emit [SetDeviceAttribute BackhaulP2p ''DataRate'' ''1Gbps'', SetChannelAttribute BackhaulP2p ''Delay'' ''1ms'',
                SetDeviceAttribute WiredSta ''DataRate'' ''10Gbps'', SetChannelAttribute WiredSta ''Delay'' ''0ms''] S)))))"

definition create_nodes :: "'n ns3_net \<Rightarrow> int \<Rightarrow> ('d, 'n) MeshSim \<Rightarrow> nat list \<times> ('d, 'n) MeshSim" where
  "create_nodes N k S = (let (ns, n) = node_create N (of_int k) (net S) in (ns, S\<lparr>net := n\<rparr>))"

definition install_devs :: "'n ns3_net \<Rightarrow> dev_kind \<Rightarrow> nat list \<Rightarrow> ('d, 'n) MeshSim \<Rightarrow> nat list \<times> ('d, 'n) MeshSim" where
  "install_devs N kind ns S = (let (ds, n) = dev_install N kind ns (net S) in (ds, S\<lparr>net := n\<rparr>))"

definition mesh_mac_args :: "int \<Rightarrow> (string \<times> mac_value) list" where
  "mesh_mac_args c = (''RandomStart'', MilliSeconds 100) # (if c = 9999 then [] else [(''CwMin'', UintV (of_int c))])"

definition CreateMesh :: "'n ns3_net \<Rightarrow> ('d, 'n) MeshSim \<Rightarrow> cfg_error + ('d, 'n) MeshSim" where
  "CreateMesh N S =
     (let (ns, S) = create_nodes N (meshSize S) S;
          S = emit [InstallMobility (meshMobilityHelper S) (meshNodes S @ ns)] (S\<lparr>meshNodes := meshNodes S @ ns\<rparr>) in
      bindE (configure MeshHelper (configureWifiStdAndRateControl (meshWifiConfig S)) S) (\<lambda>S.
      bindE (configure MeshPhy (configureWifiPhy (phy_attribs (meshWifiConfig S))) S) (\<lambda>S.
      let S = emit [SetStackInstaller ''ns3::Dot11sStack'', SetMac MeshHelper '''' (mesh_mac_args (cwmin S)), SpreadChannels] S;
          (ds, S) = install_devs N MeshDev (meshNodes S) S;
          S = emit [SetMac ApStaWifi ''ns3::ApWifiMac'' [(''Ssid'', SsidV ''ns-3-ssid'')]] (S\<lparr>meshDevices := ds\<rparr>);
          (as, S) = install_devs N ApDev (meshNodes S) S
      in Inr (S\<lparr>apDevices := as\<rparr>))))"

definition CreateStas :: "'n ns3_net \<Rightarrow> ('d, 'n) MeshSim \<Rightarrow> ('d, 'n) MeshSim" where
  "CreateStas N S =
     (let (ns, S) = create_nodes N (staSize S) S;
          S = S\<lparr>staNodes := staNodes S @ ns\<rparr>;
          S = emit [InstallMobility (staMobilityHelper S) (staNodes S),
                    SetMac ApStaWifi ''ns3::StaWifiMac'' [(''Ssid'', SsidV ''ns-3-ssid''), (''ActiveProbing'', BoolV False)]] S;
          (ds, S) = install_devs N StaDev (staNodes S) S
      in S\<lparr>staDevices := ds\<rparr>)"

definition wire_sta :: "'n ns3_net \<Rightarrow> ('d, 'n) MeshSim \<Rightarrow> nat \<Rightarrow> fault + ('d, 'n) MeshSim" where
  "wire_sta N S i =
     bindE (guardE (i < length (staNodes S)) OutOfBounds) (\<lambda>_.
     let ((a, b), n) = p2p_install N (staNodes S ! i) (wiredStaNodes S ! i) (net S) in
     Inr (S\<lparr>net := n, sta2wDevices := sta2wDevices S @ [a], wiredStaDevices := wiredStaDevices S @ [b]\<rparr>))"

definition CreateWiredStas :: "'n ns3_net \<Rightarrow> ('d, 'n) MeshSim \<Rightarrow> fault + ('d, 'n) MeshSim" where
  "CreateWiredStas N S =
     (let (ns, S) = create_nodes N (staSize S) S; S = S\<lparr>wiredStaNodes := wiredStaNodes S @ ns\<rparr> in
      foldE (wire_sta N) S [0..<length (wiredStaNodes S)])"

definition CreateBackhaul :: "'n ns3_net \<Rightarrow> ('d, 'n) MeshSim \<Rightarrow> fault + ('d, 'n) MeshSim" where
  "CreateBackhaul N S =
     (let (ns, S) = create_nodes N 1 S; S = S\<lparr>backhaulNodes := backhaulNodes S @ ns\<rparr> in
      bindE (guardE (backhaulNodes S \<noteq> [] \<and> meshNodes S \<noteq> []) OutOfBounds) (\<lambda>_.
      let ((a, b), n) = p2p_install N (backhaulNodes S ! 0) (meshNodes S ! 0) (net S) in
      Inr (S\<lparr>net := n, backhaulP2pDevices := [a, b]\<rparr>)))"

section \<open>Interfaces and routes\<close>

text \<open>\<open>addrHelper.SetBase(network, "255.255.255.0", host)\<close> and \<open>Assign\<close>.\<close>

definition assign_addrs ::
  "'n ns3_net \<Rightarrow> nat \<Rightarrow> nat \<Rightarrow> nat list \<Rightarrow> ('d, 'n) MeshSim \<Rightarrow> fault + (iface list \<times> ('d, 'n) MeshSim)" where
  "assign_addrs N subnet host ds S =
     bindE (addr_assign N (ip4 10 1 subnet 0, ip4 255 255 255 0, of_nat host) ds (net S))
       (\<lambda>(ifs, n). Inr (ifs, S\<lparr>net := n\<rparr>))"

definition CreateStack :: "'n ns3_net \<Rightarrow> ('d, 'n) MeshSim \<Rightarrow> ('d, 'n) MeshSim" where
  "CreateStack N S =
     emit (case proto (routing_cfg S) of ROUTING_NONE \<Rightarrow> [] | p \<Rightarrow> [AddRouting p])
       (S\<lparr>net := stack_install N (wiredStaNodes S) (stack_install N (staNodes S)
          (stack_install N (meshNodes S) (stack_install N (backhaulNodes S) (net S))))\<rparr>)"

definition AssignAddresses :: "'n ns3_net \<Rightarrow> ('d, 'n) MeshSim \<Rightarrow> fault + ('d, 'n) MeshSim" where
  "AssignAddresses N S =
     bindE (assign_addrs N 1 1 (backhaulP2pDevices S) S) (\<lambda>(ifs, S). let S = S\<lparr>backhaulP2pInterfaces := ifs\<rparr> in
     bindE (assign_addrs N 2 1 (meshDevices S) S) (\<lambda>(ifs, S). let S = S\<lparr>meshInterfaces := ifs\<rparr> in
     bindE (assign_addrs N 3 1 (apDevices S) S) (\<lambda>(ifs, S). let S = S\<lparr>apInterfaces := ifs\<rparr> in
     bindE (assign_addrs N 3 101 (staDevices S) S) (\<lambda>(ifs, S). let S = S\<lparr>staInterfaces := ifs\<rparr> in
     bindE (assign_addrs N 4 101 (sta2wDevices S) S) (\<lambda>(ifs, S). let S = S\<lparr>sta2wInterfaces := ifs\<rparr> in
     bindE (assign_addrs N 4 1 (wiredStaDevices S) S) (\<lambda>(ifs, S). Inr (S\<lparr>wiredStaInterfaces := ifs\<rparr>)))))))"

text \<open>The map that both \<open>CreateInterfaces\<close> and \<open>InstallApps\<close> build.\<close>

definition all_interfaces :: "('d, 'n) MeshSim \<Rightarrow> iface list list" where
  "all_interfaces S = [backhaulP2pInterfaces S, meshInterfaces S, apInterfaces S, staInterfaces S, sta2wInterfaces S,
     wiredStaInterfaces S]"

definition addr2netdev :: "'n ns3_net \<Rightarrow> ('d, 'n) MeshSim \<Rightarrow> (u32 \<times> nat) list" where
  "addr2netdev N S = foldl (addInterfacesToMap N (net S)) [] (all_interfaces S)"

definition static_route_of :: "'n ns3_net \<Rightarrow> 'n \<Rightarrow> nat \<Rightarrow> rtbl_entry \<Rightarrow> static_route" where
  "static_route_of N n node ent =
     \<lparr>sr_dest = target ent, sr_mask = target_mask ent,
      sr_gateway = (if gateway ent = 0 then None else Some (gateway ent)),
      sr_iface = if_for_addr N n node (via_if_ip ent), sr_metric = of_int (metric ent)\<rparr>"

definition route_line :: "u32 \<Rightarrow> rtbl_entry \<Rightarrow> string" where
  "route_line if_index ent =
     replicate 15 (CHR '' '') @ print_ip (target ent) @ '' mask '' @ print_ip (target_mask ent) @ '' via '' @ dec_int (sint if_index)
     @ (if gateway ent = 0 then '''' else '' gateway '' @ print_ip (gateway ent)) @ [newline]"

definition install_entry :: "'n ns3_net \<Rightarrow> 'n \<Rightarrow> nat \<Rightarrow> rtbl_entry \<Rightarrow> 'd sim_call list" where
  "install_entry N n node ent =
     (let r = static_route_of N n node ent in [AddNetworkRouteTo node r, Message (route_line (sr_iface r) ent)])"

text \<open>One iteration over \<open>routing.tables\<close>; \<open>addr2netdev[ip]\<close> is a null pointer for an unknown address.\<close>

definition install_table ::
  "'n ns3_net \<Rightarrow> (u32 \<times> nat) list \<Rightarrow> ('d, 'n) MeshSim \<Rightarrow> u32 \<times> rtbl_entry list \<Rightarrow> fault + ('d, 'n) MeshSim" where
  "install_table N m S tbl =
     (let (ip, ents) = tbl in
      case map_of m ip of None \<Rightarrow> Inl NullPointer
      | Some dev \<Rightarrow>
          let node = dev_node N (net S) dev in
          Inr (emit (Message (''Static routes on node '' @ print_ip ip @ '':'' @ [newline])
                 # concat (map (install_entry N (net S) node) ents) @ [PrintRoutingTable node]) S))"

definition CreateInterfaces ::
  "'n ns3_net \<Rightarrow> ((u32 \<Rightarrow> rtbl_entry list option) \<Rightarrow> (u32 \<times> rtbl_entry list) list) \<Rightarrow> ('d, 'n) MeshSim
   \<Rightarrow> fault + ('d, 'n) MeshSim" where
  "CreateInterfaces N visit S =
     bindE (AssignAddresses N (CreateStack N S)) (\<lambda>S.
       foldE (install_table N (addr2netdev N S)) S (visit (tables (routing_cfg S))))"

section \<open>Applications and packet traces\<close>

definition InstallApps :: "'n ns3_net \<Rightarrow> ns3_env \<Rightarrow> ('d, 'n) MeshSim \<Rightarrow> cfg_error + ('d, 'n) MeshSim" where
  "InstallApps N E S =
     (let m = addr2netdev N S; mgr = setOutDir (outDir S) (appsMgr S) in
      bindE (createApps E (\<lambda>ip. map_option (dev_node N (net S)) (map_of m ip)) (appsCfg S) mgr) (\<lambda>mgr.
        Inr (S\<lparr>appsMgr := mgr\<rparr>)))"

definition pcap_prefix :: "string \<Rightarrow> string \<Rightarrow> u32 \<Rightarrow> string" where
  "pcap_prefix out_dir name ip = out_dir @ ''/'' @ name @ ''-'' @ print_ip ip"

text \<open>The files of one device; a mesh point has one for each of its interfaces.\<close>

definition pcap_files :: "'n ns3_net \<Rightarrow> 'n \<Rightarrow> string \<Rightarrow> string \<Rightarrow> u32 \<times> nat \<Rightarrow> (string \<times> nat) list" where
  "pcap_files N n out_dir name p =
     (let (ip, dev) = p; fn = pcap_prefix out_dir name ip in
      case sub_devs N n dev of
        None \<Rightarrow> [(fn @ ''.pcap'', dev)]
      | Some ds \<Rightarrow> map (\<lambda>i. (fn @ ''-'' @ dec_nat i @ ''.pcap'', ds ! i)) [0..<length ds])"

definition devtypelist :: "('d, 'n) MeshSim \<Rightarrow> (string \<times> helper_id \<times> iface list) list" where
  "devtypelist S =
     [(''backhaul'', BackhaulP2p, backhaulP2pInterfaces S), (''mesh'', MeshPhy, meshInterfaces S),
      (''ap'', StaPhy, apInterfaces S), (''sta'', StaPhy, staInterfaces S),
      (''sta2w'', WiredSta, sta2wInterfaces S), (''wiredsta'', WiredSta, wiredStaInterfaces S)]"

definition pcap_calls ::
  "'n ns3_net \<Rightarrow> ((u32 \<times> nat) list \<Rightarrow> (u32 \<times> nat) list) \<Rightarrow> ('d, 'n) MeshSim \<Rightarrow> string \<times> helper_id \<times> iface list \<Rightarrow> 'd sim_call list" where
  "pcap_calls N visit S v =
     (let (name, helper, ifs) = v; addr2dev = addInterfacesToMap N (net S) [] ifs in
      Message (''name: '' @ name @ ''   size: '' @ dec_nat (length addr2dev) @ [newline])
      # map (\<lambda>(fn, dev). EnablePcap helper fn dev (promiscuousMode S) True)
          (concat (map (pcap_files N (net S) (outDir S) name) (visit addr2dev))))"

definition PreparePcap :: "'n ns3_net \<Rightarrow> ((u32 \<times> nat) list \<Rightarrow> (u32 \<times> nat) list) \<Rightarrow> ('d, 'n) MeshSim \<Rightarrow> ('d, 'n) MeshSim" where
  "PreparePcap N visit S =
     (if \<not> enablePcap S then S
      else emit ((if useRadioTap S then [SetPcapDataLinkType StaPhy, SetPcapDataLinkType MeshPhy] else [])
             @ concat (map (pcap_calls N visit S) (devtypelist S))) S)"

section \<open>The whole program\<close>

record 'n sim_env =
  se_net :: "'n ns3_net"
  se_tables :: "(u32 \<Rightarrow> rtbl_entry list option) \<Rightarrow> (u32 \<times> rtbl_entry list) list"   \<comment> \<open>visits an \<open>unordered_map\<close>\<close>
  se_devs :: "(u32 \<times> nat) list \<Rightarrow> (u32 \<times> nat) list"                                \<comment> \<open>visits an \<open>unordered_map\<close>\<close>
  se_apps :: ns3_env

definition CreateSim :: "'n sim_env \<Rightarrow> ('d, 'n) MeshSim \<Rightarrow> cfg_error + ('d, 'n) MeshSim" where
  "CreateSim E S =
     (let N = se_net E in
      bindE (CreateChannels S) (\<lambda>S.
      bindE (CreateMesh N S) (\<lambda>S.
      bindE (or_crash (CreateBackhaul N (CreateStas N S))) (\<lambda>S.
      bindE (or_crash (CreateWiredStas N S)) (\<lambda>S.
      bindE (or_crash (CreateInterfaces N (se_tables E) S)) (\<lambda>S.
      bindE (InstallApps N (se_apps E) S) (\<lambda>S.
      Inr (PreparePcap N (se_devs E) S))))))))"

definition Run_sim :: "('d, 'n) MeshSim \<Rightarrow> ('d, 'n) MeshSim" where
  "Run_sim S = emit [InstallFlowMonitor, StopAt (simDuration S), RunEvents, SerializeToXmlFile (outDir S @ ''/flowdata.xml''),
     DestroySimulator] S"

text \<open>\<open>main\<close>: the exit status with the state in the end, or the crash of a run that is aborted.\<close>

definition exit_failure :: "cfg_error \<Rightarrow> fault + (int \<times> 'a option)" where
  "exit_failure e = (case e of ReturnFalse \<Rightarrow> Inr (1, None) | Crash f \<Rightarrow> Inl f)"

definition main_mesh_sim ::
  "(string list \<Rightarrow> string list \<Rightarrow> ('d, 'n) MeshSim \<Rightarrow> ('d, 'n) MeshSim \<times> string list) \<Rightarrow> (string \<Rightarrow> bool) \<Rightarrow> (string \<Rightarrow> bool)
   \<Rightarrow> 'd::zero load_env \<Rightarrow> 'n sim_env \<Rightarrow> string list \<Rightarrow> ('d, 'n) MeshSim \<Rightarrow> fault + (int \<times> ('d, 'n) MeshSim option)" where
  "main_mesh_sim parse path_exists is_directory L E argv S =
     (case ProcessCommandLineArgs parse path_exists is_directory argv S of
        Inl e \<Rightarrow> exit_failure e
      | Inr S \<Rightarrow> (case LoadConfig L (emit [ConfigureDefaults] S) of
          Inl e \<Rightarrow> exit_failure e
        | Inr S \<Rightarrow> (case CreateSim E (emit [Message (''Creating the Simulation setup...'' @ [newline])] S) of
            Inl e \<Rightarrow> exit_failure e
          | Inr S \<Rightarrow> Inr (0, Some (Run_sim (emit
              [ConfigureAttributes, Message (''Running the Simulation.'' @ [newline]), StartProgressReport] S))))))"

end
