(* ===== verification/Mesh_Plan.thy ===== *)
theory Mesh_Plan
  imports Mesh_Sim
begin

text \<open>
  The topology that \<open>MeshSim\<close> builds and its addresses, against the plan that \<open>README.md\<close> documents:
  which node each device sits on, which address each device gets, and what the map from addresses to
  devices is that routes and applications are installed with.
\<close>

section \<open>Devices on nodes\<close>

text \<open>The devices created so far, each with its node; none has an address yet.\<close>

definition built :: "'n ns3_net \<Rightarrow> 'n \<Rightarrow> (nat \<times> nat) list \<Rightarrow> bool" where
  "built N n ps \<longleftrightarrow> wf_net N n \<and> (\<forall>a. \<not> allocated N n a) \<and> bare N n (snd ` set ps) \<and> distinct (map snd ps)
     \<and> (\<forall>p \<in> set ps. dev_node N n (snd p) = fst p)"

definition fresh_net :: "'n ns3_net \<Rightarrow> 'n \<Rightarrow> bool" where
  "fresh_net N n \<longleftrightarrow> ifs_of N n = {} \<and> (\<forall>a. \<not> allocated N n a)"

lemma built_fresh: "fresh_net N n \<Longrightarrow> built N n []"
  by (simp add: fresh_net_def built_def wf_net_def bare_def)

lemma builtD:
  assumes "built N n ps"
  shows "wf_net N n" "\<not> allocated N n a" "bare N n (snd ` set ps)" "distinct (map snd ps)"
    and "p \<in> set ps \<Longrightarrow> dev_node N n (snd p) = fst p" and "p \<in> set ps \<Longrightarrow> snd p \<in> devs_of N n"
  using assms by (auto simp: built_def bare_def)

lemma built_keeps:
  assumes b: "built N n ps" and k: "keeps N n n'"
  shows "built N n' ps"
  unfolding built_def
proof (intro conjI ballI allI)
  show "wf_net N n'" by (rule wf_net_keeps [OF builtD(1) [OF b] k])
  show "bare N n' (snd ` set ps)" by (rule bare_keeps [OF builtD(3) [OF b] k])
  show "\<not> allocated N n' a" for a using builtD(2) [OF b] keepsD(8) [OF k] by simp
  show "distinct (map snd ps)" by (rule builtD(4) [OF b])
  show "dev_node N n' (snd p) = fst p" if "p \<in> set ps" for p
    using keepsD(3) [OF k builtD(6) [OF b that]] builtD(5) [OF b that] by simp
qed

lemma built_mset: "built N n ps \<Longrightarrow> mset ps = mset ps' \<Longrightarrow> built N n ps'"
proof -
  assume b: "built N n ps" and m: "mset ps = mset ps'"
  have "set ps = set ps'" using m by (rule mset_eq_setD)
  moreover have "distinct (map snd ps) = distinct (map snd ps')" using m by (metis mset_eq_imp_distinct_iff mset_map)
  ultimately show ?thesis using b by (simp add: built_def)
qed

lemma built_new:
  assumes b: "built N n ps" and k: "keeps N n n'" and d: "new_devs N n n' ns ds"
  shows "built N n' (ps @ zip ns ds)"
  unfolding built_def
proof (intro conjI ballI allI)
  note b' = built_keeps [OF b k]
  have len: "length ds = length ns" and disj: "set ds \<inter> devs_of N n = {}" and dn: "map (dev_node N n') ds = ns" and dd: "distinct ds"
    using d by (simp_all add: new_devs_def)
  have snd_zip: "map snd (zip ns ds) = ds" "snd ` set (zip ns ds) = set ds"
    using len by (simp_all flip: set_map)
  show "wf_net N n'" "\<not> allocated N n' a" for a by (fact builtD(1,2) [OF b'])+
  have "bare N n' (set ds)" by (rule bare_new [OF builtD(1) [OF b] k d])
  then show "bare N n' (snd ` set (ps @ zip ns ds))"
    using builtD(3) [OF b'] by (auto simp: bare_def image_Un snd_zip)
  have "set (map snd ps) \<inter> set ds = {}" using builtD(6) [OF b] disj by auto
  then show "distinct (map snd (ps @ zip ns ds))"
    using builtD(4) [OF b] dd snd_zip(1) by simp
  show "dev_node N n' (snd p) = fst p" if "p \<in> set (ps @ zip ns ds)" for p
  proof (cases "p \<in> set ps")
    case True
    then show ?thesis by (rule builtD(5) [OF b'])
  next
    case False
    with that have "p \<in> set (zip ns ds)" by simp
    then show ?thesis using dn by (auto simp: in_set_zip)
  qed
qed

lemma built_append1: "built N n (ps @ qs) \<Longrightarrow> built N n ps"
  by (auto simp: built_def bare_def)

section \<open>The steps of the construction\<close>

lemma net_lawsD:
  assumes "net_laws N"
  shows "node_create N k n = (ns, n') \<Longrightarrow> length ns = unat k \<and> distinct ns \<and> keeps N n n'"
    and "dev_install N kd xs n = (ds, n') \<Longrightarrow> new_devs N n n' xs ds \<and> keeps N n n'"
    and "p2p_install N x y n = ((a, b), n') \<Longrightarrow>
      new_devs N n n' [x, y] [a, b] \<and> p2p_peer N n' a = Some b \<and> p2p_peer N n' b = Some a \<and> keeps N n n'"
proof -
  from assms have laws:
    "let (ns, n') = node_create N k n in length ns = unat k \<and> distinct ns \<and> keeps N n n'"
    "let (ds, n') = dev_install N kd xs n in new_devs N n n' xs ds \<and> keeps N n n'"
    "let ((a, b), n') = p2p_install N x y n in
        new_devs N n n' [x, y] [a, b] \<and> p2p_peer N n' a = Some b \<and> p2p_peer N n' b = Some a \<and> keeps N n n'"
    unfolding net_laws_def by blast+
  show "node_create N k n = (ns, n') \<Longrightarrow> length ns = unat k \<and> distinct ns \<and> keeps N n n'" using laws(1) by simp
  show "dev_install N kd xs n = (ds, n') \<Longrightarrow> new_devs N n n' xs ds \<and> keeps N n n'" using laws(2) by simp
  show "p2p_install N x y n = ((a, b), n') \<Longrightarrow>
      new_devs N n n' [x, y] [a, b] \<and> p2p_peer N n' a = Some b \<and> p2p_peer N n' b = Some a \<and> keeps N n n'" using laws(3) by simp
qed

lemma create_nodes_facts:
  assumes "net_laws N" and "create_nodes N k S = (ns, S')"
  shows "\<exists>n. S' = S\<lparr>net := n\<rparr> \<and> keeps N (net S) n \<and> length ns = unat (of_int k :: u32)"
proof -
  obtain n where n: "node_create N (of_int k) (net S) = (ns, n)" "S' = S\<lparr>net := n\<rparr>"
    using assms(2) by (auto simp: create_nodes_def split: prod.splits)
  with net_lawsD(1) [OF assms(1) n(1)] show ?thesis by blast
qed

lemma install_devs_facts:
  assumes "net_laws N" and "install_devs N kind ns S = (ds, S')"
  shows "\<exists>n. S' = S\<lparr>net := n\<rparr> \<and> keeps N (net S) n \<and> new_devs N (net S) n ns ds"
proof -
  obtain n where n: "dev_install N kind ns (net S) = (ds, n)" "S' = S\<lparr>net := n\<rparr>"
    using assms(2) by (auto simp: install_devs_def split: prod.splits)
  with net_lawsD(2) [OF assms(1) n(1)] show ?thesis by blast
qed

lemma stack_keeps: "net_laws N \<Longrightarrow> keeps N n (stack_install N ns n)"
  by (simp add: net_laws_def)

lemma emit_fields [simp]:
  "net (emit cs S) = net S" "meshNodes (emit cs S) = meshNodes S" "meshDevices (emit cs S) = meshDevices S"
  "apDevices (emit cs S) = apDevices S" "staNodes (emit cs S) = staNodes S" "staDevices (emit cs S) = staDevices S"
  "wiredStaNodes (emit cs S) = wiredStaNodes S" "sta2wDevices (emit cs S) = sta2wDevices S"
  "wiredStaDevices (emit cs S) = wiredStaDevices S" "backhaulNodes (emit cs S) = backhaulNodes S"
  "backhaulP2pDevices (emit cs S) = backhaulP2pDevices S" "meshSize (emit cs S) = meshSize S" "staSize (emit cs S) = staSize S"
  "routing_cfg (emit cs S) = routing_cfg S" "meshWifiConfig (emit cs S) = meshWifiConfig S" "cwmin (emit cs S) = cwmin S"
  by (simp_all add: emit_def)

lemma configure_Inr: "configure h r S = Inr S' \<longleftrightarrow> fst r \<and> S' = emit (map (Configure h) (snd r)) S"
  by (auto simp: configure_def)

text \<open>No node or device has been created.\<close>

definition no_topology :: "('d, 'n) MeshSim \<Rightarrow> bool" where
  "no_topology S \<longleftrightarrow> meshNodes S = [] \<and> staNodes S = [] \<and> wiredStaNodes S = [] \<and> backhaulNodes S = []
     \<and> sta2wDevices S = [] \<and> wiredStaDevices S = []"

lemma CreateMesh_facts:
  fixes N :: "'n ns3_net" and S S' :: "('d, 'n) MeshSim"
  assumes "net_laws N" and "fresh_net N (net S)" and "no_topology S" and "CreateMesh N S = Inr S'"
  shows "built N (net S') (zip (meshNodes S') (meshDevices S') @ zip (meshNodes S') (apDevices S'))
    \<and> length (meshNodes S') = unat (of_int (meshSize S) :: u32) \<and> length (meshDevices S') = length (meshNodes S')
    \<and> length (apDevices S') = length (meshNodes S')
    \<and> staNodes S' = [] \<and> wiredStaNodes S' = [] \<and> backhaulNodes S' = [] \<and> sta2wDevices S' = [] \<and> wiredStaDevices S' = []
    \<and> staSize S' = staSize S \<and> routing_cfg S' = routing_cfg S"
proof -
  obtain ns S1 where c: "create_nodes N (meshSize S) S = (ns, S1)" by fastforce
  from create_nodes_facts [OF assms(1) c] obtain n1 where
    n1: "S1 = S\<lparr>net := n1\<rparr>" "keeps N (net S) n1" "length ns = unat (of_int (meshSize S) :: u32)" by blast
  have mn: "meshNodes S1 = []" using assms(3) n1(1) by (simp add: no_topology_def)
  define S2 where "S2 = emit [InstallMobility (meshMobilityHelper S1) ns] (S1\<lparr>meshNodes := ns\<rparr>)"
  define calls :: "('d, 'n) MeshSim \<Rightarrow> 'd sim_call list" where "calls S = [SetStackInstaller ''ns3::Dot11sStack'', SetMac MeshHelper '''' (mesh_mac_args (cwmin S)), SpreadChannels]"
    for S
  define ap_mac :: "'d sim_call list" where "ap_mac = [SetMac ApStaWifi ''ns3::ApWifiMac'' [(''Ssid'', SsidV ''ns-3-ssid'')]]"
  define S3 where "S3 = emit (map (Configure MeshPhy) (snd (configureWifiPhy (phy_attribs (meshWifiConfig S2)))))
     (emit (map (Configure MeshHelper) (snd (configureWifiStdAndRateControl (meshWifiConfig S2)))) S2)"
  from assms(4) obtain ds S4 as S5 where
    d: "install_devs N MeshDev (meshNodes S3) (emit (calls S3) S3) = (ds, S4)"
    and a: "install_devs N ApDev (meshNodes S4) (emit ap_mac (S4\<lparr>meshDevices := ds\<rparr>)) = (as, S5)"
    and S': "S' = S5\<lparr>apDevices := as\<rparr>"
    unfolding CreateMesh_def c
    by (auto simp: Let_def mn configure_Inr S2_def S3_def calls_def ap_mac_def split: prod.splits)
  from install_devs_facts [OF assms(1) d] obtain n2 where
    n2: "S4 = (emit (calls S3) S3)\<lparr>net := n2\<rparr>" "keeps N (net S3) n2" "new_devs N (net S3) n2 ns ds"
    by (auto simp: S3_def S2_def)
  from install_devs_facts [OF assms(1) a] obtain n3 where
    n3: "S5 = (emit ap_mac (S4\<lparr>meshDevices := ds\<rparr>))\<lparr>net := n3\<rparr>" "keeps N n2 n3" "new_devs N n2 n3 ns as"
    by (auto simp: n2 S3_def S2_def)
  have n: "net S3 = n1" by (simp add: S3_def S2_def n1(1))
  have "built N n1 []" using built_keeps [OF built_fresh [OF assms(2)] n1(2)] .
  from built_new [OF this n2(2,3) [unfolded n]] have "built N n2 (zip ns ds)" by simp
  from built_new [OF this n3(2,3)] have "built N n3 (zip ns ds @ zip ns as)" .
  moreover have "length ds = length ns" "length as = length ns" using n2(3) n3(3) by (simp_all add: new_devs_def)
  ultimately show ?thesis
    using n1(3) assms(3) by (simp add: S' n3(1) n2(1) S3_def S2_def n1(1) no_topology_def)
qed

lemma CreateMesh_ok:
  assumes "fst (configureWifiStdAndRateControl (meshWifiConfig S))" and "fst (configureWifiPhy (phy_attribs (meshWifiConfig S)))"
  shows "\<exists>S'. CreateMesh N S = Inr S'"
  using assms by (auto simp: CreateMesh_def create_nodes_def Let_def configure_def split: prod.splits)

text \<open>The later steps change only the fields they create.\<close>

lemma CreateStas_facts:
  assumes "net_laws N" and "built N (net S) ps" and "staNodes S = []" and "S' = CreateStas N S"
  shows "built N (net S') (ps @ zip (staNodes S') (staDevices S'))
    \<and> length (staNodes S') = unat (of_int (staSize S) :: u32) \<and> length (staDevices S') = length (staNodes S')
    \<and> S' = S\<lparr>staNodes := staNodes S', staDevices := staDevices S', net := net S', ms_log := ms_log S'\<rparr>"
proof -
  obtain ns S1 where c: "create_nodes N (staSize S) S = (ns, S1)" by fastforce
  from create_nodes_facts [OF assms(1) c] obtain n1 where
    n1: "S1 = S\<lparr>net := n1\<rparr>" "keeps N (net S) n1" "length ns = unat (of_int (staSize S) :: u32)" by blast
  define cs where "cs = [InstallMobility (staMobilityHelper S1) ns,
     SetMac ApStaWifi ''ns3::StaWifiMac'' [(''Ssid'', SsidV ''ns-3-ssid''), (''ActiveProbing'', BoolV False)]]"
  obtain ds S2 where d: "install_devs N StaDev ns (emit cs (S1\<lparr>staNodes := ns\<rparr>)) = (ds, S2)" by fastforce
  from install_devs_facts [OF assms(1) d] obtain n2 where
    n2: "S2 = (emit cs (S1\<lparr>staNodes := ns\<rparr>))\<lparr>net := n2\<rparr>" "keeps N n1 n2" "new_devs N n1 n2 ns ds" by (auto simp: n1(1))
  from built_new [OF built_keeps [OF assms(2) n1(2)] n2(2,3)] have "built N n2 (ps @ zip ns ds)" .
  moreover have "S' = S2\<lparr>staDevices := ds\<rparr>"
    using d assms(3,4) by (simp add: CreateStas_def c n1(1) Let_def cs_def)
  moreover have "length ds = length ns" using n2(3) by (simp add: new_devs_def)
  ultimately show ?thesis using n1(3) by (simp add: n2(1) n1(1) emit_def)
qed

lemma CreateBackhaul_facts:
  assumes "net_laws N" and "built N (net S) ps" and "backhaulNodes S = []" and "meshNodes S \<noteq> []"
  shows "\<exists>S' x d e. CreateBackhaul N S = Inr S' \<and> backhaulNodes S' = [x] \<and> backhaulP2pDevices S' = [d, e]
    \<and> built N (net S') (ps @ [(x, d), (meshNodes S ! 0, e)])
    \<and> S' = S\<lparr>backhaulNodes := backhaulNodes S', backhaulP2pDevices := backhaulP2pDevices S', net := net S'\<rparr>"
proof -
  obtain ns S1 where c: "create_nodes N 1 S = (ns, S1)" by fastforce
  from create_nodes_facts [OF assms(1) c] obtain n1 where
    n1: "S1 = S\<lparr>net := n1\<rparr>" "keeps N (net S) n1" "length ns = 1" by auto
  from n1(3) obtain x where x: "ns = [x]" by (cases ns) auto
  obtain d e n2 where p: "p2p_install N x (meshNodes S ! 0) n1 = ((d, e), n2)" by (metis surj_pair)
  note f = net_lawsD(3) [OF assms(1) p]
  from built_new [OF built_keeps [OF assms(2) n1(2)], of n2 "[x, meshNodes S ! 0]" "[d, e]"] f
  have "built N n2 (ps @ [(x, d), (meshNodes S ! 0, e)])" by simp
  moreover have "CreateBackhaul N S = Inr (S\<lparr>backhaulNodes := [x], net := n2, backhaulP2pDevices := [d, e]\<rparr>)"
    using assms(3,4) p by (simp add: CreateBackhaul_def c n1(1) x Let_def)
  ultimately show ?thesis by (intro exI [of _ "S\<lparr>backhaulNodes := [x], net := n2, backhaulP2pDevices := [d, e]\<rparr>"]) simp
qed

definition linked :: "'n ns3_net \<Rightarrow> 'n \<Rightarrow> nat \<Rightarrow> nat \<Rightarrow> bool" where
  "linked N n a b \<longleftrightarrow> p2p_peer N n a = Some b \<and> p2p_peer N n b = Some a"

lemma linked_keeps:
  "list_all2 (linked N n) as bs \<Longrightarrow> set as \<union> set bs \<subseteq> devs_of N n \<Longrightarrow> keeps N n n' \<Longrightarrow> list_all2 (linked N n') as bs"
  unfolding list_all2_conv_all_nth linked_def using keepsD(4) [of N n n'] by (auto simp: subset_iff)

text \<open>After \<open>i\<close> rounds of the loop of \<open>CreateWiredStas\<close>.\<close>

definition wired_inv :: "'n ns3_net \<Rightarrow> (nat \<times> nat) list \<Rightarrow> nat \<Rightarrow> ('d, 'n) MeshSim \<Rightarrow> bool" where
  "wired_inv N ps i S \<longleftrightarrow> length (sta2wDevices S) = i \<and> length (wiredStaDevices S) = i
     \<and> built N (net S) (ps @ zip (take i (staNodes S)) (sta2wDevices S) @ zip (take i (wiredStaNodes S)) (wiredStaDevices S))
     \<and> list_all2 (linked N (net S)) (sta2wDevices S) (wiredStaDevices S)"

lemma wire_sta_step:
  assumes "net_laws N" and "wired_inv N ps i S" and "i < length (staNodes S)" and "i < length (wiredStaNodes S)"
  shows "\<exists>S'. wire_sta N S i = Inr S' \<and> wired_inv N ps (Suc i) S'
    \<and> S' = S\<lparr>sta2wDevices := sta2wDevices S', wiredStaDevices := wiredStaDevices S', net := net S'\<rparr>"
proof -
  obtain a b n where p: "p2p_install N (staNodes S ! i) (wiredStaNodes S ! i) (net S) = ((a, b), n)" by (metis surj_pair)
  note f = net_lawsD(3) [OF assms(1) p]
  let ?S = "S\<lparr>net := n, sta2wDevices := sta2wDevices S @ [a], wiredStaDevices := wiredStaDevices S @ [b]\<rparr>"
  let ?ps = "ps @ zip (take i (staNodes S)) (sta2wDevices S) @ zip (take i (wiredStaNodes S)) (wiredStaDevices S)"
  from assms(2) have w: "length (sta2wDevices S) = i" "length (wiredStaDevices S) = i" "built N (net S) ?ps"
    "list_all2 (linked N (net S)) (sta2wDevices S) (wiredStaDevices S)" by (simp_all add: wired_inv_def)
  from built_new [OF w(3), of n "[staNodes S ! i, wiredStaNodes S ! i]" "[a, b]"] f
  have "built N n (?ps @ [(staNodes S ! i, a), (wiredStaNodes S ! i, b)])" by simp
  moreover have "zip (take (Suc i) (staNodes S)) (sta2wDevices S @ [a]) = zip (take i (staNodes S)) (sta2wDevices S) @ [(staNodes S ! i, a)]"
    "zip (take (Suc i) (wiredStaNodes S)) (wiredStaDevices S @ [b]) = zip (take i (wiredStaNodes S)) (wiredStaDevices S) @ [(wiredStaNodes S ! i, b)]"
    using assms(3,4) w(1,2) by (simp_all add: take_Suc_conv_app_nth)
  ultimately have "built N n (ps @ zip (take (Suc i) (staNodes S)) (sta2wDevices S @ [a])
      @ zip (take (Suc i) (wiredStaNodes S)) (wiredStaDevices S @ [b]))"
    by (elim built_mset) simp
  moreover have "set (sta2wDevices S) \<union> set (wiredStaDevices S) \<subseteq> devs_of N (net S)"
  proof -
    have "snd ` set ?ps \<subseteq> devs_of N (net S)" using builtD(6) [OF w(3)] by auto
    moreover have "snd ` set (zip (take i (staNodes S)) (sta2wDevices S)) = set (sta2wDevices S)"
      "snd ` set (zip (take i (wiredStaNodes S)) (wiredStaDevices S)) = set (wiredStaDevices S)"
      using w(1,2) assms(3,4) by (simp_all flip: set_map)
    ultimately show ?thesis by (simp add: image_Un)
  qed
  from linked_keeps [OF w(4) this] f have "list_all2 (linked N n) (sta2wDevices S @ [a]) (wiredStaDevices S @ [b])"
    by (simp add: linked_def list_all2_appendI)
  ultimately have "wired_inv N ps (Suc i) ?S" using w(1,2) by (simp add: wired_inv_def)
  moreover have "wire_sta N S i = Inr ?S" using assms(3) p by (simp add: wire_sta_def)
  ultimately show ?thesis by (intro exI [of _ ?S]) simp
qed

lemma wire_stas:
  "net_laws N \<Longrightarrow> wired_inv N ps 0 S \<Longrightarrow> k \<le> length (staNodes S) \<Longrightarrow> k \<le> length (wiredStaNodes S) \<Longrightarrow>
   \<exists>S'. foldE (wire_sta N) S [0..<k] = Inr S' \<and> wired_inv N ps k S'
    \<and> S' = S\<lparr>sta2wDevices := sta2wDevices S', wiredStaDevices := wiredStaDevices S', net := net S'\<rparr>"
proof (induction k)
  case 0
  then show ?case by (intro exI [of _ S]) simp
next
  case (Suc k)
  then obtain S1 where S1: "foldE (wire_sta N) S [0..<k] = Inr S1" "wired_inv N ps k S1"
    "S1 = S\<lparr>sta2wDevices := sta2wDevices S1, wiredStaDevices := wiredStaDevices S1, net := net S1\<rparr>" by auto
  have "staNodes S1 = staNodes S" "wiredStaNodes S1 = wiredStaNodes S" by (subst S1(3), simp)+
  with wire_sta_step [OF Suc.prems(1) S1(2)] Suc.prems obtain S2 where
    S2: "wire_sta N S1 k = Inr S2" "wired_inv N ps (Suc k) S2"
    "S2 = S1\<lparr>sta2wDevices := sta2wDevices S2, wiredStaDevices := wiredStaDevices S2, net := net S2\<rparr>" by auto
  have "S2 = S\<lparr>sta2wDevices := sta2wDevices S2, wiredStaDevices := wiredStaDevices S2, net := net S2\<rparr>"
    by (subst S2(3), subst S1(3)) simp
  with S1(1) S2(1,2) show ?case by (intro exI [of _ S2]) (simp add: foldE_append)
qed

lemma CreateWiredStas_facts:
  assumes "net_laws N" and "built N (net S) ps" and "wiredStaNodes S = []" "sta2wDevices S = []" "wiredStaDevices S = []"
    and "length (staNodes S) = unat (of_int (staSize S) :: u32)"
  shows "\<exists>S'. CreateWiredStas N S = Inr S' \<and> length (wiredStaNodes S') = length (staNodes S)
    \<and> length (sta2wDevices S') = length (staNodes S) \<and> length (wiredStaDevices S') = length (staNodes S)
    \<and> built N (net S') (ps @ zip (staNodes S) (sta2wDevices S') @ zip (wiredStaNodes S') (wiredStaDevices S'))
    \<and> list_all2 (linked N (net S')) (sta2wDevices S') (wiredStaDevices S')
    \<and> S' = S\<lparr>wiredStaNodes := wiredStaNodes S', sta2wDevices := sta2wDevices S',
        wiredStaDevices := wiredStaDevices S', net := net S'\<rparr>"
proof -
  obtain ns S1 where c: "create_nodes N (staSize S) S = (ns, S1)" by fastforce
  from create_nodes_facts [OF assms(1) c] obtain n1 where
    n1: "S1 = S\<lparr>net := n1\<rparr>" "keeps N (net S) n1" "length ns = length (staNodes S)" using assms(6) by auto
  let ?S = "S\<lparr>net := n1, wiredStaNodes := ns\<rparr>"
  have "wired_inv N ps 0 ?S" using built_keeps [OF assms(2) n1(2)] assms(4,5) by (simp add: wired_inv_def)
  from wire_stas [OF assms(1) this, of "length ns"] n1(3) obtain S' where
    S': "foldE (wire_sta N) ?S [0..<length ns] = Inr S'" "wired_inv N ps (length ns) S'"
    "S' = ?S\<lparr>sta2wDevices := sta2wDevices S', wiredStaDevices := wiredStaDevices S', net := net S'\<rparr>" by auto
  have f: "staNodes S' = staNodes S" "wiredStaNodes S' = ns" by (subst S'(3), simp)+
  have "CreateWiredStas N S = Inr S'" using S'(1) assms(3) by (simp add: CreateWiredStas_def c n1(1) Let_def)
  moreover have "S' = S\<lparr>wiredStaNodes := wiredStaNodes S', sta2wDevices := sta2wDevices S',
        wiredStaDevices := wiredStaDevices S', net := net S'\<rparr>"
    unfolding f by (subst S'(3)) simp
  ultimately show ?thesis using S'(2) n1(3) by (intro exI [of _ S']) (simp add: wired_inv_def f)
qed

section \<open>Addresses\<close>

definition addr_plan :: "('d, 'n) MeshSim \<Rightarrow> addr_group list" where
  "addr_plan S = [(ip4 10 1 1 0, 1, backhaulP2pDevices S), (ip4 10 1 2 0, 1, meshDevices S), (ip4 10 1 3 0, 1, apDevices S),
     (ip4 10 1 3 0, 101, staDevices S), (ip4 10 1 4 0, 101, sta2wDevices S), (ip4 10 1 4 0, 1, wiredStaDevices S)]"

lemma AssignAddresses_groups:
  assumes "assign_groups N (addr_plan S) (net S) = Inr (ifss, n)"
  shows "\<exists>S'. AssignAddresses N S = Inr S' \<and> all_interfaces S' = ifss
    \<and> S' = S\<lparr>backhaulP2pInterfaces := backhaulP2pInterfaces S', meshInterfaces := meshInterfaces S',
        apInterfaces := apInterfaces S', staInterfaces := staInterfaces S', sta2wInterfaces := sta2wInterfaces S',
        wiredStaInterfaces := wiredStaInterfaces S', net := n\<rparr>"
proof -
  from assms obtain i1 n1 i2 n2 i3 n3 i4 n4 i5 n5 i6 where a:
    "addr_assign N (ip4 10 1 1 0, ip4 255 255 255 0, of_nat 1) (backhaulP2pDevices S) (net S) = Inr (i1, n1)"
    "addr_assign N (ip4 10 1 2 0, ip4 255 255 255 0, of_nat 1) (meshDevices S) n1 = Inr (i2, n2)"
    "addr_assign N (ip4 10 1 3 0, ip4 255 255 255 0, of_nat 1) (apDevices S) n2 = Inr (i3, n3)"
    "addr_assign N (ip4 10 1 3 0, ip4 255 255 255 0, of_nat 101) (staDevices S) n3 = Inr (i4, n4)"
    "addr_assign N (ip4 10 1 4 0, ip4 255 255 255 0, of_nat 101) (sta2wDevices S) n4 = Inr (i5, n5)"
    "addr_assign N (ip4 10 1 4 0, ip4 255 255 255 0, of_nat 1) (wiredStaDevices S) n5 = Inr (i6, n)"
    and "ifss = [i1, i2, i3, i4, i5, i6]"
    by (auto simp: addr_plan_def)
  then show ?thesis
    by (simp add: AssignAddresses_def assign_addrs_def all_interfaces_def)
qed

lemma AssignAddresses_collision:
  "assign_groups N (addr_plan S) (net S) = Inl f \<Longrightarrow> AssignAddresses N S = Inl f"
  by (auto simp: AssignAddresses_def assign_addrs_def addr_plan_def bindE_def split: sum.splits)

text \<open>The addresses of the plan are numbers below 2^32, so that they are distinct when their parts are.\<close>

lemma unat_u32_of_nat: "n < 2 ^ 32 \<Longrightarrow> unat (of_nat n :: u32) = n"
  by (simp add: word_facts)

lemma ip4_offset: "h < 2 ^ 32 \<Longrightarrow> ip4 a b c 0 + of_nat (unat (of_nat h :: u32) + k) = ip4 a b c (h + k)"
  by (simp only: unat_u32_of_nat) (simp add: ip4_def)

lemma ip4_eq:
  assumes "c < 256" "d < 256" "c' < 256" "d' < 256"
  shows "ip4 10 1 c d = ip4 10 1 c' d' \<longleftrightarrow> c = c' \<and> d = d'"
proof -
  let ?n = "\<lambda>c d. 2 ^ 24 * 10 + 2 ^ 16 * 1 + 2 ^ 8 * c + d :: nat"
  have "?n c d < 2 ^ 32" "?n c' d' < 2 ^ 32" using assms by simp_all
  then have "ip4 10 1 c d = ip4 10 1 c' d' \<longleftrightarrow> ?n c d = ?n c' d'"
    unfolding ip4_def by (metis unat_u32_of_nat)
  also have "\<dots> \<longleftrightarrow> 256 * c + d = 256 * c' + d'" by simp
  also have "\<dots> \<longleftrightarrow> c = c' \<and> d = d'"
  proof -
    have "(256 * x + y) div 256 = x" "(256 * x + y) mod 256 = y" if "y < 256" for x y :: nat using that by simp_all
    then show ?thesis using assms(2,4) by metis
  qed
  finally show ?thesis .
qed

lemma ip4_nonzero: "c < 256 \<Longrightarrow> d < 256 \<Longrightarrow> ip4 10 1 c d \<noteq> 0"
proof -
  assume "c < 256" "d < 256"
  then have "unat (ip4 10 1 c d) = 2 ^ 24 * 10 + 2 ^ 16 * 1 + 2 ^ 8 * c + d"
    unfolding ip4_def by (intro unat_u32_of_nat) simp
  then show ?thesis by auto
qed

lemma group_addrs_ip4:
  "h < 2 ^ 32 \<Longrightarrow> group_addrs (ip4 10 1 c 0, h, ds) = map (\<lambda>k. ip4 10 1 c (h + k)) [0..<length ds]"
  unfolding group_addrs_def host_addrs_def prod.case by (simp only: ip4_offset)

definition documented :: "nat \<Rightarrow> nat \<Rightarrow> u32 list" where
  "documented m s = map (\<lambda>k. ip4 10 1 1 (1 + k)) [0..<2] @ map (\<lambda>k. ip4 10 1 2 (1 + k)) [0..<m]
     @ map (\<lambda>k. ip4 10 1 3 (1 + k)) [0..<m] @ map (\<lambda>k. ip4 10 1 3 (101 + k)) [0..<s]
     @ map (\<lambda>k. ip4 10 1 4 (101 + k)) [0..<s] @ map (\<lambda>k. ip4 10 1 4 (1 + k)) [0..<s]"

lemma plan_addrs:
  assumes "length (backhaulP2pDevices S) = 2" and "length (meshDevices S) = m" "length (apDevices S) = m"
    and "length (staDevices S) = s" "length (sta2wDevices S) = s" "length (wiredStaDevices S) = s"
  shows "concat (map group_addrs (addr_plan S)) = documented m s"
  unfolding addr_plan_def documented_def by (simp add: group_addrs_ip4 assms del: One_nat_def)

lemma plan_lengths: "length (concat (map group_addrs gs)) = length (concat (map group_devs gs))"
  by (induction gs) (auto simp: group_addrs_def group_devs_def host_addrs_def split: prod.splits)

text \<open>The sizes for which the plan does not collide with itself, among those whose host numbers stay
  in the networks, up to 10.1.3.254: the stations start at host 101 of the network of the access points,
  and the stations and their wired stations share a network.\<close>

definition plan_fits :: "int \<Rightarrow> int \<Rightarrow> bool" where
  "plan_fits m s \<longleftrightarrow> 0 < m \<and> m \<le> 254 \<and> 0 \<le> s \<and> s \<le> 154 \<and> (s = 0 \<or> m \<le> 100 \<and> s \<le> 100)"

lemma distinct_documented_iff:
  assumes "m \<le> 254" and "s \<le> 154"
  shows "distinct (documented m s) \<longleftrightarrow> s = 0 \<or> m \<le> 100 \<and> s \<le> 100"
proof
  assume d: "distinct (documented m s)"
  have "m \<le> 100" if "0 < s"
  proof (rule ccontr)
    assume "\<not> m \<le> 100"
    then have "ip4 10 1 3 101 \<in> set (map (\<lambda>k. ip4 10 1 3 (1 + k)) [0..<m])" by (auto intro!: image_eqI [of _ _ 100])
    moreover have "ip4 10 1 3 101 \<in> set (map (\<lambda>k. ip4 10 1 3 (101 + k)) [0..<s])" using that by (auto intro!: image_eqI [of _ _ 0])
    ultimately show False using d unfolding documented_def by (auto simp del: One_nat_def)
  qed
  moreover have "s \<le> 100"
  proof (rule ccontr)
    assume "\<not> s \<le> 100"
    then have "ip4 10 1 4 101 \<in> set (map (\<lambda>k. ip4 10 1 4 (1 + k)) [0..<s])" by (auto intro!: image_eqI [of _ _ 100])
    moreover have "ip4 10 1 4 101 \<in> set (map (\<lambda>k. ip4 10 1 4 (101 + k)) [0..<s])" using \<open>\<not> s \<le> 100\<close> by (auto intro!: image_eqI [of _ _ 0])
    ultimately show False using d unfolding documented_def by (auto simp del: One_nat_def)
  qed
  ultimately show "s = 0 \<or> m \<le> 100 \<and> s \<le> 100" by blast
next
  assume "s = 0 \<or> m \<le> 100 \<and> s \<le> 100"
  with assms show "distinct (documented m s)"
    unfolding documented_def by (auto simp: distinct_map inj_on_def ip4_eq simp del: One_nat_def)
qed

lemma zero_undocumented: "m \<le> 254 \<Longrightarrow> s \<le> 154 \<Longrightarrow> 0 \<notin> set (documented m s)"
  unfolding documented_def using ip4_nonzero by (auto simp: eq_commute [of 0] simp del: One_nat_def)

section \<open>The documented plan\<close>

definition node_at :: "'n ns3_net \<Rightarrow> ('d, 'n) MeshSim \<Rightarrow> u32 \<Rightarrow> nat option" where
  "node_at N S a = map_option (dev_node N (net S)) (map_of (addr2netdev N S) a)"

text \<open>The whole construction of the topology after \<open>CreateMesh\<close>, up to the assignment of addresses.\<close>

definition build_rest :: "'n ns3_net \<Rightarrow> ('d, 'n) MeshSim \<Rightarrow> fault + ('d, 'n) MeshSim" where
  "build_rest N S = bindE (CreateBackhaul N (CreateStas N S)) (\<lambda>S. bindE (CreateWiredStas N S) (\<lambda>S.
     AssignAddresses N (CreateStack N S)))"

lemma CreateStack_facts:
  "net_laws N \<Longrightarrow> keeps N (net S) (net (CreateStack N S))
    \<and> CreateStack N S = S\<lparr>net := net (CreateStack N S), ms_log := ms_log (CreateStack N S)\<rparr>"
  unfolding CreateStack_def emit_def by (auto intro!: keeps_trans [OF _ stack_keeps] stack_keeps)

text \<open>The devices with their nodes: those of the backhaul, the mesh and the stations, then the links
  of the stations with their wired stations.\<close>

definition radio_pairs :: "('d, 'n) MeshSim \<Rightarrow> (nat \<times> nat) list" where
  "radio_pairs S = zip [backhaulNodes S ! 0, meshNodes S ! 0] (backhaulP2pDevices S) @ zip (meshNodes S) (meshDevices S)
     @ zip (meshNodes S) (apDevices S) @ zip (staNodes S) (staDevices S)"

definition placed :: "('d, 'n) MeshSim \<Rightarrow> (nat \<times> nat) list" where
  "placed S = radio_pairs S @ zip (staNodes S) (sta2wDevices S) @ zip (wiredStaNodes S) (wiredStaDevices S)"

definition radio_sizes :: "nat \<Rightarrow> nat \<Rightarrow> ('d, 'n) MeshSim \<Rightarrow> bool" where
  "radio_sizes m s S \<longleftrightarrow> length (backhaulNodes S) = 1 \<and> length (backhaulP2pDevices S) = 2
     \<and> length (meshNodes S) = m \<and> length (meshDevices S) = m \<and> length (apDevices S) = m
     \<and> length (staNodes S) = s \<and> length (staDevices S) = s"

text \<open>What has been built: \<open>m\<close> mesh nodes and \<open>s\<close> stations with their devices.\<close>

definition topology :: "'n ns3_net \<Rightarrow> nat \<Rightarrow> nat \<Rightarrow> ('d, 'n) MeshSim \<Rightarrow> bool" where
  "topology N m s S \<longleftrightarrow> 0 < m \<and> radio_sizes m s S \<and> length (sta2wDevices S) = s
     \<and> length (wiredStaNodes S) = s \<and> length (wiredStaDevices S) = s
     \<and> built N (net S) (placed S) \<and> list_all2 (linked N (net S)) (sta2wDevices S) (wiredStaDevices S)"

lemma radio_construction:
  assumes N: "net_laws N" and "fresh_net N (net S0)" and "no_topology S0" and "CreateMesh N S0 = Inr S1"
    and m: "unat (of_int (meshSize S0) :: u32) = m" "0 < m" and s: "unat (of_int (staSize S0) :: u32) = s"
  shows "\<exists>S. CreateBackhaul N (CreateStas N S1) = Inr S \<and> radio_sizes m s S \<and> built N (net S) (radio_pairs S)
    \<and> wiredStaNodes S = [] \<and> sta2wDevices S = [] \<and> wiredStaDevices S = [] \<and> staSize S = staSize S0
    \<and> routing_cfg S = routing_cfg S0"
proof -
  note f1 = CreateMesh_facts [OF assms(1-4)]
  define S2 where "S2 = CreateStas N S1"
  from f1 have b1: "built N (net S1) (zip (meshNodes S1) (meshDevices S1) @ zip (meshNodes S1) (apDevices S1))"
    and e1: "staNodes S1 = []" by blast+
  note f2 = CreateStas_facts [OF N b1 e1 S2_def]
  then have eq2: "S2 = S1\<lparr>staNodes := staNodes S2, staDevices := staDevices S2, net := net S2, ms_log := ms_log S2\<rparr>" by blast
  have k2: "meshNodes S2 = meshNodes S1" "meshDevices S2 = meshDevices S1" "apDevices S2 = apDevices S1"
    "backhaulNodes S2 = backhaulNodes S1" "wiredStaNodes S2 = wiredStaNodes S1" "sta2wDevices S2 = sta2wDevices S1"
    "wiredStaDevices S2 = wiredStaDevices S1" "staSize S2 = staSize S1" "routing_cfg S2 = routing_cfg S1"
    by (subst eq2, simp)+
  have b2: "built N (net S2) ((zip (meshNodes S1) (meshDevices S1) @ zip (meshNodes S1) (apDevices S1)) @ zip (staNodes S2) (staDevices S2))"
    using f2 by blast
  have "backhaulNodes S2 = []" "meshNodes S2 \<noteq> []" using f1 m k2 by auto
  from CreateBackhaul_facts [OF N b2 this] obtain S3 x d e where
    S3: "CreateBackhaul N S2 = Inr S3" "backhaulNodes S3 = [x]" "backhaulP2pDevices S3 = [d, e]"
    and b3: "built N (net S3) (((zip (meshNodes S1) (meshDevices S1) @ zip (meshNodes S1) (apDevices S1))
        @ zip (staNodes S2) (staDevices S2)) @ [(x, d), (meshNodes S2 ! 0, e)])"
    and eq3: "S3 = S2\<lparr>backhaulNodes := backhaulNodes S3, backhaulP2pDevices := backhaulP2pDevices S3, net := net S3\<rparr>" by blast
  have k3: "meshNodes S3 = meshNodes S2" "meshDevices S3 = meshDevices S2" "apDevices S3 = apDevices S2"
    "wiredStaNodes S3 = wiredStaNodes S2" "sta2wDevices S3 = sta2wDevices S2" "staNodes S3 = staNodes S2"
    "wiredStaDevices S3 = wiredStaDevices S2" "staSize S3 = staSize S2" "staDevices S3 = staDevices S2"
    "routing_cfg S3 = routing_cfg S2"
    by (subst eq3, simp)+
  have "built N (net S3) (radio_pairs S3)"
    using b3 by (rule built_mset) (simp add: radio_pairs_def k2 k3 S3)
  then show ?thesis
    using f1 f2 m s S3 by (intro exI [of _ S3]) (simp add: radio_sizes_def S2_def [symmetric] k2 k3)
qed

lemma construction:
  assumes N: "net_laws N" and "fresh_net N (net S0)" and "no_topology S0" and "CreateMesh N S0 = Inr S1"
    and m: "unat (of_int (meshSize S0) :: u32) = m" "0 < m" and s: "unat (of_int (staSize S0) :: u32) = s"
  shows "\<exists>S. bindE (CreateBackhaul N (CreateStas N S1)) (CreateWiredStas N) = Inr S \<and> topology N m s S
    \<and> routing_cfg S = routing_cfg S0"
proof -
  from radio_construction [OF assms] obtain S3 where
    S3: "CreateBackhaul N (CreateStas N S1) = Inr S3" "radio_sizes m s S3" "built N (net S3) (radio_pairs S3)"
    "wiredStaNodes S3 = []" "sta2wDevices S3 = []" "wiredStaDevices S3 = []" "staSize S3 = staSize S0"
    "routing_cfg S3 = routing_cfg S0" by blast
  have "length (staNodes S3) = unat (of_int (staSize S3) :: u32)" using S3(2,7) s by (simp add: radio_sizes_def)
  from CreateWiredStas_facts [OF N S3(3-6) this] obtain S4 where
    S4: "CreateWiredStas N S3 = Inr S4" "length (wiredStaNodes S4) = length (staNodes S3)"
      "length (sta2wDevices S4) = length (staNodes S3)" "length (wiredStaDevices S4) = length (staNodes S3)"
      "list_all2 (linked N (net S4)) (sta2wDevices S4) (wiredStaDevices S4)"
    and b4: "built N (net S4) (radio_pairs S3 @ zip (staNodes S3) (sta2wDevices S4) @ zip (wiredStaNodes S4) (wiredStaDevices S4))"
    and eq4: "S4 = S3\<lparr>wiredStaNodes := wiredStaNodes S4, sta2wDevices := sta2wDevices S4,
        wiredStaDevices := wiredStaDevices S4, net := net S4\<rparr>" by blast
  have k4: "radio_pairs S4 = radio_pairs S3" "radio_sizes m s S4" "staNodes S4 = staNodes S3" "routing_cfg S4 = routing_cfg S3"
    by (subst eq4, use S3(2) in \<open>simp add: radio_pairs_def radio_sizes_def\<close>)+
  have "length (staNodes S3) = s" using S3(2) by (simp add: radio_sizes_def)
  then have "topology N m s S4"
    using m(2) S4 k4 b4 by (simp add: topology_def placed_def)
  with S3(1,8) S4(1) k4(4) show ?thesis by (intro exI [of _ S4]) simp
qed

lemma topology_devs:
  assumes "topology N m s S"
  shows "(x, d) \<in> set (placed S) \<Longrightarrow> dev_node N (net S) d = x" "(x, d) \<in> set (placed S) \<Longrightarrow> d \<in> devs_of N (net S)"
    and "set (sta2wDevices S) \<union> set (wiredStaDevices S) \<subseteq> devs_of N (net S)"
proof -
  from assms have b: "built N (net S) (placed S)" by (simp add: topology_def)
  then show "(x, d) \<in> set (placed S) \<Longrightarrow> dev_node N (net S) d = x" "(x, d) \<in> set (placed S) \<Longrightarrow> d \<in> devs_of N (net S)"
    using builtD(5,6) by fastforce+
  have "snd ` set (zip (staNodes S) (sta2wDevices S)) = set (sta2wDevices S)"
    "snd ` set (zip (wiredStaNodes S) (wiredStaDevices S)) = set (wiredStaDevices S)"
    using assms by (simp_all add: topology_def radio_sizes_def flip: set_map)
  then have "set (sta2wDevices S) \<union> set (wiredStaDevices S) \<subseteq> snd ` set (placed S)" by (simp add: placed_def image_Un)
  then show "set (sta2wDevices S) \<union> set (wiredStaDevices S) \<subseteq> devs_of N (net S)" using builtD(6) [OF b] by blast
qed

lemma topology_stack:
  assumes "net_laws N" and t: "topology N m s S"
  shows "topology N m s (CreateStack N S)"
proof -
  let ?S = "CreateStack N S"
  have k: "keeps N (net S) (net ?S)" and eq: "?S = S\<lparr>net := net ?S, ms_log := ms_log ?S\<rparr>"
    using CreateStack_facts [OF assms(1)] by blast+
  have f: "placed ?S = placed S" "radio_sizes m s ?S = radio_sizes m s S" "sta2wDevices ?S = sta2wDevices S"
    "wiredStaNodes ?S = wiredStaNodes S" "wiredStaDevices ?S = wiredStaDevices S"
    by (subst eq, simp add: placed_def radio_pairs_def radio_sizes_def)+
  from t linked_keeps [OF _ topology_devs(3) [OF t] k] built_keeps [OF _ k] show ?thesis
    by (simp add: topology_def f)
qed

text \<open>The address map is the list of the groups, address by address.\<close>

definition follows_plan :: "addr_group list \<Rightarrow> (u32 \<Rightarrow> nat option) \<Rightarrow> bool" where
  "follows_plan gs mp \<longleftrightarrow>
     (\<forall>a d. mp a = Some d \<longleftrightarrow> (a, d) \<in> set (zip (concat (map group_addrs gs)) (concat (map group_devs gs))))"

text \<open>What the assignment of the addresses does to a network that has been built.\<close>

definition addressed :: "'n ns3_net \<Rightarrow> ('d, 'n) MeshSim \<Rightarrow> ('d, 'n) MeshSim \<Rightarrow> bool" where
  "addressed N S S' \<longleftrightarrow>
     S' = S\<lparr>backhaulP2pInterfaces := backhaulP2pInterfaces S', meshInterfaces := meshInterfaces S',
        apInterfaces := apInterfaces S', staInterfaces := staInterfaces S', sta2wInterfaces := sta2wInterfaces S',
        wiredStaInterfaces := wiredStaInterfaces S', net := net S'\<rparr>
   \<and> follows_plan (addr_plan S) (map_of (addr2netdev N S'))
   \<and> (\<forall>d \<in> devs_of N (net S). dev_node N (net S') d = dev_node N (net S) d \<and> p2p_peer N (net S') d = p2p_peer N (net S) d)"

lemma topology_plan:
  assumes t: "topology N m s S" and "m \<le> 254" and "s \<le> 154"
  shows "assignable N (net S) (addr_plan S)" and "concat (map group_addrs (addr_plan S)) = documented m s"
    and "free_addrs N (net S) (documented m s) = distinct (documented m s)"
proof -
  have b: "built N (net S) (placed S)" using t by (simp add: topology_def)
  have "concat (map group_devs (addr_plan S)) = map snd (placed S)"
    using t by (simp add: addr_plan_def group_devs_def topology_def radio_sizes_def placed_def radio_pairs_def)
  moreover have "list_all group_fits (addr_plan S)"
    using t assms(2,3) by (simp add: addr_plan_def group_fits_def topology_def radio_sizes_def)
  ultimately show "assignable N (net S) (addr_plan S)"
    using builtD(3,4) [OF b] by (simp add: assignable_def del: set_concat)
  show "concat (map group_addrs (addr_plan S)) = documented m s"
    using t by (intro plan_addrs) (simp_all add: topology_def radio_sizes_def)
  show "free_addrs N (net S) (documented m s) = distinct (documented m s)" using builtD(2) [OF b] by (simp add: free_addrs_def)
qed

lemma topology_assign:
  assumes N: "net_laws N" and t: "topology N m s S" and "m \<le> 254" "s \<le> 154"
  shows "if distinct (documented m s) then \<exists>S'. AssignAddresses N S = Inr S' \<and> addressed N S S'
    else \<exists>f. AssignAddresses N S = Inl f"
proof -
  note p = topology_plan [OF assms(2-4)]
  show ?thesis
  proof (cases "distinct (documented m s)")
    case True
    with assign_groups_result [OF N p(1)] obtain ifss n where r: "assign_groups N (addr_plan S) (net S) = Inr (ifss, n)"
      and as: "assigned N (net S) (addr_plan S) ifss n" unfolding p(2,3) by auto
    from AssignAddresses_groups [OF r] obtain S' where
      S': "AssignAddresses N S = Inr S'" "all_interfaces S' = ifss"
      and eq: "S' = S\<lparr>backhaulP2pInterfaces := backhaulP2pInterfaces S', meshInterfaces := meshInterfaces S',
        apInterfaces := apInterfaces S', staInterfaces := staInterfaces S', sta2wInterfaces := sta2wInterfaces S',
        wiredStaInterfaces := wiredStaInterfaces S', net := n\<rparr>" by blast
    have n: "net S' = n" by (subst eq) simp
    have "follows_plan (addr_plan S) (map_of (addr2netdev N S'))"
      unfolding follows_plan_def addr2netdev_def n S'(2) p(2)
      by (intro allI addInterfacesToMap_zip) (use as True in \<open>simp_all add: assigned_def p(2)\<close>)
    then have "addressed N S S'" using eq as unfolding addressed_def n assigned_def by blast
    with S'(1) True show ?thesis by auto
  next
    case False
    with assign_groups_result [OF N p(1)] AssignAddresses_collision [of N S] show ?thesis unfolding p(2,3) by auto
  qed
qed

text \<open>The address map after the construction, group by group.\<close>

lemma plan_lookup:
  assumes "follows_plan gs mp" and "(ip4 10 1 c 0, host, ds) \<in> set gs" and "k < length ds" and "host < 2 ^ 32"
  shows "mp (ip4 10 1 c (host + k)) = Some (ds ! k)"
proof -
  have "mp a = Some d \<longleftrightarrow>
      (\<exists>(network, host, ds) \<in> set gs. \<exists>k < length ds. a = network + of_nat (unat (of_nat host :: u32) + k) \<and> d = ds ! k)" for a d
    using assms(1) unfolding follows_plan_def zip_concat_groups by blast
  then show ?thesis
    using assms(3) by (simp only:, intro bexI [OF _ assms(2)]) (simp only: prod.case ip4_offset [OF assms(4)], blast)
qed

lemma plan_dom:
  assumes "follows_plan gs mp" and "length (concat (map group_addrs gs)) = length (concat (map group_devs gs))"
  shows "dom mp = set (concat (map group_addrs gs))"
proof -
  let ?as = "concat (map group_addrs gs)" and ?ds = "concat (map group_devs gs)"
  have "dom mp = fst ` set (zip ?as ?ds)"
    using assms(1) unfolding follows_plan_def dom_def by force
  also have "\<dots> = set ?as" using assms(2) by (metis list.set_map map_fst_zip)
  finally show ?thesis .
qed

text \<open>What the map says of a network that has been built and assigned its addresses.\<close>

definition plan_holds :: "'n ns3_net \<Rightarrow> nat \<Rightarrow> nat \<Rightarrow> ('d, 'n) MeshSim \<Rightarrow> bool" where
  "plan_holds N m s S \<longleftrightarrow> length (meshNodes S) = m \<and> length (staNodes S) = s
    \<and> dom (node_at N S) = set (documented m s)
    \<and> node_at N S (ip4 10 1 1 1) = Some (backhaulNodes S ! 0) \<and> node_at N S (ip4 10 1 1 2) = Some (meshNodes S ! 0)
    \<and> (\<forall>k < m. node_at N S (ip4 10 1 2 (1 + k)) = Some (meshNodes S ! k)
          \<and> node_at N S (ip4 10 1 3 (1 + k)) = Some (meshNodes S ! k))
    \<and> (\<forall>k < s. node_at N S (ip4 10 1 3 (101 + k)) = Some (staNodes S ! k)
          \<and> node_at N S (ip4 10 1 4 (101 + k)) = Some (staNodes S ! k)
          \<and> node_at N S (ip4 10 1 4 (1 + k)) = Some (wiredStaNodes S ! k)
          \<and> (\<exists>a b. map_of (addr2netdev N S) (ip4 10 1 4 (101 + k)) = Some a
               \<and> map_of (addr2netdev N S) (ip4 10 1 4 (1 + k)) = Some b \<and> linked N (net S) a b))"

lemma plan_group:
  assumes "follows_plan gs (map_of (addr2netdev N S))" and "(ip4 10 1 c 0, h, ds) \<in> set gs" and "k < length ds" "h < 2 ^ 32"
    and "dev_node N (net S) (ds ! k) = x"
  shows "node_at N S (ip4 10 1 c (h + k)) = Some x"
  using plan_lookup [OF assms(1-4)] assms(5) by (simp add: node_at_def)

lemma assigned_group:
  assumes t: "topology N m s S" and ad: "addressed N S S'" and g: "(ip4 10 1 c 0, h, ds) \<in> set (addr_plan S)"
    and "set (zip ns ds) \<subseteq> set (placed S)" and "length ns = length ds" and "k < length ds" and "h < 2 ^ 32"
  shows "node_at N S' (ip4 10 1 c (h + k)) = Some (ns ! k)"
proof -
  have "(ns ! k, ds ! k) \<in> set (placed S)" using assms(4-6) by (auto simp: in_set_zip subset_iff)
  then have "dev_node N (net S') (ds ! k) = ns ! k"
    using topology_devs(1,2) [OF t] ad by (simp add: addressed_def)
  moreover from ad have "follows_plan (addr_plan S) (map_of (addr2netdev N S'))" by (simp add: addressed_def)
  ultimately show ?thesis by (intro plan_group [OF _ g assms(6,7)])
qed

lemma assigned_links:
  assumes t: "topology N m s S" and ad: "addressed N S S'" and k: "k < s"
  shows "map_of (addr2netdev N S') (ip4 10 1 4 (101 + k)) = Some (sta2wDevices S ! k)
    \<and> map_of (addr2netdev N S') (ip4 10 1 4 (1 + k)) = Some (wiredStaDevices S ! k)
    \<and> linked N (net S') (sta2wDevices S ! k) (wiredStaDevices S ! k)"
proof (intro conjI)
  have len: "length (sta2wDevices S) = s" "length (wiredStaDevices S) = s" using t by (simp_all add: topology_def)
  have fp: "follows_plan (addr_plan S) (map_of (addr2netdev N S'))" using ad by (simp add: addressed_def)
  show "map_of (addr2netdev N S') (ip4 10 1 4 (101 + k)) = Some (sta2wDevices S ! k)"
    "map_of (addr2netdev N S') (ip4 10 1 4 (1 + k)) = Some (wiredStaDevices S ! k)"
    by (rule plan_lookup [OF fp]; use k len in \<open>simp add: addr_plan_def\<close>)+
  have "linked N (net S) (sta2wDevices S ! k) (wiredStaDevices S ! k)"
    using t k len list_all2_nthD [of "linked N (net S)" "sta2wDevices S" "wiredStaDevices S" k] by (simp add: topology_def)
  moreover have "sta2wDevices S ! k \<in> devs_of N (net S)" "wiredStaDevices S ! k \<in> devs_of N (net S)"
    using topology_devs(3) [OF t] k len by (auto simp: subset_iff)
  ultimately show "linked N (net S') (sta2wDevices S ! k) (wiredStaDevices S ! k)"
    using ad by (simp add: linked_def addressed_def)
qed

lemma addressed_plan:
  assumes t: "topology N m s S" and ad: "addressed N S S'"
  shows "plan_holds N m s S'"
proof -
  from ad have eq: "S' = S\<lparr>backhaulP2pInterfaces := backhaulP2pInterfaces S', meshInterfaces := meshInterfaces S',
        apInterfaces := apInterfaces S', staInterfaces := staInterfaces S', sta2wInterfaces := sta2wInterfaces S',
        wiredStaInterfaces := wiredStaInterfaces S', net := net S'\<rparr>" unfolding addressed_def by (rule conjunct1)
  have f: "meshNodes S' = meshNodes S" "staNodes S' = staNodes S" "wiredStaNodes S' = wiredStaNodes S" "backhaulNodes S' = backhaulNodes S"
    by (subst eq, simp)+
  have len: "length (meshNodes S) = m" "length (staNodes S) = s" "length (backhaulP2pDevices S) = 2" "length (meshDevices S) = m"
    "length (apDevices S) = m" "length (staDevices S) = s" "length (sta2wDevices S) = s" "length (wiredStaDevices S) = s"
    "length (wiredStaNodes S) = s"
    using t by (simp_all add: topology_def radio_sizes_def)
  note group = assigned_group [OF t ad] and sim = addr_plan_def placed_def radio_pairs_def len
  have "node_at N S' (ip4 10 1 1 (1 + k)) = Some ([backhaulNodes S ! 0, meshNodes S ! 0] ! k)" if "k < 2" for k
    by (rule group) (use that in \<open>auto simp: sim\<close>)
  from this [of 0] this [of 1] have n1: "node_at N S' (ip4 10 1 1 1) = Some (backhaulNodes S ! 0)"
    "node_at N S' (ip4 10 1 1 2) = Some (meshNodes S ! 0)" by (simp_all add: numeral_2_eq_2)
  have n2: "node_at N S' (ip4 10 1 2 (1 + k)) = Some (meshNodes S ! k)" if "k < m" for k
    by (rule group) (use that in \<open>auto simp: sim\<close>)
  have n3: "node_at N S' (ip4 10 1 3 (1 + k)) = Some (meshNodes S ! k)" if "k < m" for k
    by (rule group [where ds = "apDevices S"]) (use that in \<open>auto simp: sim\<close>)
  have n4: "node_at N S' (ip4 10 1 3 (101 + k)) = Some (staNodes S ! k)" if "k < s" for k
    by (rule group [where ds = "staDevices S"]) (use that in \<open>auto simp: sim\<close>)
  have n5: "node_at N S' (ip4 10 1 4 (101 + k)) = Some (staNodes S ! k)" if "k < s" for k
    by (rule group [where ds = "sta2wDevices S"]) (use that in \<open>auto simp: sim\<close>)
  have n6: "node_at N S' (ip4 10 1 4 (1 + k)) = Some (wiredStaNodes S ! k)" if "k < s" for k
    by (rule group [where ds = "wiredStaDevices S"]) (use that in \<open>auto simp: sim\<close>)
  have fp: "follows_plan (addr_plan S) (map_of (addr2netdev N S'))" using ad by (simp add: addressed_def)
  have "dom (node_at N S') = dom (map_of (addr2netdev N S'))" by (auto simp: node_at_def dom_def)
  also have "\<dots> = set (documented m s)"
    unfolding plan_dom [OF fp plan_lengths] plan_addrs [OF len(3-8)] documented_def ..
  finally show ?thesis
    using n1 n2 n3 n4 n5 n6 assigned_links [OF assms] len unfolding plan_holds_def f by blast
qed

text \<open>The construction for every size whose host numbers stay in the networks.\<close>

lemma built_result:
  assumes "net_laws N" and "fresh_net N (net S0)" and "no_topology S0" and "CreateMesh N S0 = Inr S1"
    and "0 < meshSize S0" "meshSize S0 \<le> 254" "0 \<le> staSize S0" "staSize S0 \<le> 154"
  shows "\<exists>S. bindE (CreateBackhaul N (CreateStas N S1)) (CreateWiredStas N) = Inr S \<and> routing_cfg S = routing_cfg S0
    \<and> (if plan_fits (meshSize S0) (staSize S0)
       then \<exists>S'. AssignAddresses N (CreateStack N S) = Inr S' \<and> plan_holds N (nat (meshSize S0)) (nat (staSize S0)) S'
       else \<exists>f. AssignAddresses N (CreateStack N S) = Inl f)"
proof -
  let ?m = "nat (meshSize S0)" and ?s = "nat (staSize S0)"
  have n: "unat (of_int (meshSize S0) :: u32) = ?m" "unat (of_int (staSize S0) :: u32) = ?s" "0 < ?m" "?m \<le> 254" "?s \<le> 154"
    using assms(5-8) unat_u32_of_nat [of ?m] unat_u32_of_nat [of ?s] by simp_all
  from construction [OF assms(1-4) n(1,3,2)] obtain S where
    S: "bindE (CreateBackhaul N (CreateStas N S1)) (CreateWiredStas N) = Inr S" "topology N ?m ?s S" "routing_cfg S = routing_cfg S0" by blast
  have "plan_fits (meshSize S0) (staSize S0) = distinct (documented ?m ?s)"
    unfolding distinct_documented_iff [OF n(4,5)] plan_fits_def using assms(5-8) by auto
  with S topology_assign [OF assms(1) topology_stack [OF assms(1) S(2)] n(4,5)]
    addressed_plan [OF topology_stack [OF assms(1) S(2)]] show ?thesis by (auto split: if_splits)
qed

lemma built_plan:
  assumes "net_laws N" and "fresh_net N (net S0)" and "no_topology S0" and "CreateMesh N S0 = Inr S1"
    and "plan_fits (meshSize S0) (staSize S0)"
  shows "\<exists>S S'. bindE (CreateBackhaul N (CreateStas N S1)) (CreateWiredStas N) = Inr S
    \<and> AssignAddresses N (CreateStack N S) = Inr S' \<and> plan_holds N (nat (meshSize S0)) (nat (staSize S0)) S'
    \<and> routing_cfg S = routing_cfg S0"
proof -
  from assms(5) have "0 < meshSize S0" "meshSize S0 \<le> 254" "0 \<le> staSize S0" "staSize S0 \<le> 154" by (simp_all add: plan_fits_def)
  from built_result [OF assms(1-4) this] assms(5) show ?thesis by auto
qed

text \<open>Without a mesh node there is no node to connect the backhaul to.\<close>

lemma empty_mesh_crashes:
  assumes "net_laws N" and "fresh_net N (net S0)" and "no_topology S0" and "CreateMesh N S0 = Inr S1" and "meshSize S0 = 0"
  shows "CreateBackhaul N (CreateStas N S1) = Inl OutOfBounds"
proof -
  note f1 = CreateMesh_facts [OF assms(1-4)]
  then have b1: "built N (net S1) (zip (meshNodes S1) (meshDevices S1) @ zip (meshNodes S1) (apDevices S1))"
    and e1: "staNodes S1 = []" by blast+
  have eq: "CreateStas N S1 = S1\<lparr>staNodes := staNodes (CreateStas N S1), staDevices := staDevices (CreateStas N S1),
      net := net (CreateStas N S1), ms_log := ms_log (CreateStas N S1)\<rparr>"
    using CreateStas_facts [OF assms(1) b1 e1 refl] by blast
  have "meshNodes (CreateStas N S1) = meshNodes S1" by (subst eq) simp
  with f1 assms(5) show ?thesis
    by (auto simp: CreateBackhaul_def create_nodes_def Let_def split: prod.splits)
qed

text \<open>
  C9. The address plan of the README, and exactly the sizes it is for. Once the mesh of at most 254
  nodes has been created, for at most 154 stations: building the rest of the topology and assigning
  the addresses succeeds when there is a mesh node and either there is no station or there are at most
  100 mesh nodes and at most 100 stations. Then the map from addresses to hosts is exactly the
  documented one: the backhaul node has 10.1.1.1 and its mesh node 10.1.1.2, the mesh node number X
  has 10.1.2.X and 10.1.3.X, the station number X has 10.1.3.(100+X) and 10.1.4.(100+X), its wired
  station has 10.1.4.X, and these last two interfaces are the two ends of one link. No other address
  is known. For every other size the program aborts before any route or application is installed.
\<close>

theorem address_plan:
  assumes "net_laws N" and "fresh_net N (net S0)" and "no_topology S0" and "CreateMesh N S0 = Inr S1"
    and "0 \<le> meshSize S0" "meshSize S0 \<le> 254" "0 \<le> staSize S0" "staSize S0 \<le> 154"
    and "m = nat (meshSize S0)" "s = nat (staSize S0)"
  shows "case build_rest N S1 of
      Inl f \<Rightarrow> m = 0 \<or> 0 < s \<and> (100 < m \<or> 100 < s)
    | Inr S \<Rightarrow> 0 < m \<and> (s = 0 \<or> m \<le> 100 \<and> s \<le> 100) \<and> plan_holds N m s S"
proof (cases "meshSize S0 = 0")
  case True
  with empty_mesh_crashes [OF assms(1-4)] assms(9) show ?thesis by (simp add: build_rest_def)
next
  case False
  with assms(5) have "0 < meshSize S0" by simp
  from built_result [OF assms(1-4) this assms(6-8)] False assms(5-10) show ?thesis
    by (auto simp: build_rest_def plan_fits_def split: sum.splits if_splits)
qed

definition example_mesh_wifi :: wifiConfig where
  "example_mesh_wifi = init_wifiConfig\<lparr>wifi_standard := ''a'',
     station_manager := \<lparr>type_name = ''ns3::ArfWifiManager'', attribute_assignments = []\<rparr>\<rparr>"

definition example_sim :: "(int, example_net) MeshSim" where
  "example_sim = (init_MeshSim 60 \<lparr>mh_alloc = None, mh_model = ''''\<rparr> \<lparr>en_nodes = 0, en_devs = [], en_ifs = []\<rparr>)
     \<lparr>meshWifiConfig := example_mesh_wifi, meshSize := 2, staSize := 1\<rparr>"

lemma example_wifi_ok:
  "fst (configureWifiStdAndRateControl example_mesh_wifi)" "fst (configureWifiPhy (phy_attribs example_mesh_wifi))"
  by code_simp+

theorem address_plan_witness:
  "(\<exists>S1 S. CreateMesh example_topology example_sim = Inr S1 \<and> build_rest example_topology S1 = Inr S
      \<and> node_at example_topology S (ip4 10 1 2 2) = Some (meshNodes S ! 1)
      \<and> node_at example_topology S (ip4 10 1 4 1) = Some (wiredStaNodes S ! 0)
      \<and> node_at example_topology S (ip4 10 1 4 2) = None)
   \<and> (\<exists>S1 f. CreateMesh example_topology (example_sim\<lparr>meshSize := 101\<rparr>) = Inr S1 \<and> build_rest example_topology S1 = Inl f)"
proof (intro conjI)
  have f: "fresh_net example_topology (net example_sim)" "no_topology example_sim"
    "meshSize example_sim = 2" "staSize example_sim = 1" "meshWifiConfig example_sim = example_mesh_wifi"
    by (simp_all add: fresh_net_def no_topology_def example_sim_def init_MeshSim_def example_topology_def)
  then obtain S1 where S1: "CreateMesh example_topology example_sim = Inr S1"
    using CreateMesh_ok [of example_sim] example_wifi_ok by auto
  from address_plan [OF example_net_laws f(1,2) S1, of 2 1] f(3,4) obtain S where
    S: "build_rest example_topology S1 = Inr S" "plan_holds example_topology 2 1 S" by (auto split: sum.splits)
  have "ip4 10 1 4 2 \<notin> set (documented 2 1)"
    by (auto simp: documented_def ip4_eq numeral_2_eq_2 simp del: One_nat_def)
  with S(2) have "node_at example_topology S (ip4 10 1 4 2) = None" by (auto simp: plan_holds_def)
  with S S1 show "\<exists>S1 S. CreateMesh example_topology example_sim = Inr S1 \<and> build_rest example_topology S1 = Inr S
      \<and> node_at example_topology S (ip4 10 1 2 2) = Some (meshNodes S ! 1)
      \<and> node_at example_topology S (ip4 10 1 4 1) = Some (wiredStaNodes S ! 0)
      \<and> node_at example_topology S (ip4 10 1 4 2) = None"
    unfolding plan_holds_def
    by (metis (no_types, lifting) add_0_right less_numeral_extra(1) one_add_one one_less_numeral_iff semiring_norm(76))
  let ?big = "example_sim\<lparr>meshSize := 101\<rparr>"
  have b: "fresh_net example_topology (net ?big)" "no_topology ?big" "meshSize ?big = 101" "staSize ?big = 1"
    using f by (simp_all add: no_topology_def)
  obtain S2 where S2: "CreateMesh example_topology ?big = Inr S2"
    using CreateMesh_ok [of ?big] example_wifi_ok f(5) by auto
  from address_plan [OF example_net_laws b(1,2) S2, of 101 1] b(3,4) obtain e where "build_rest example_topology S2 = Inl e"
    by (auto split: sum.splits)
  with S2 show "\<exists>S1 f. CreateMesh example_topology ?big = Inr S1 \<and> build_rest example_topology S1 = Inl f" by blast
qed

end
