(* ===== verification/Mesh_Routes.thy ===== *)
theory Mesh_Routes
  imports Mesh_Plan
begin

text \<open>
  The static routes and the packet traces of \<open>MeshSim\<close>: which routes \<open>CreateInterfaces\<close> adds to which
  node, when it crashes, and that every interface has a packet trace file of its own.
\<close>

section \<open>Static routes\<close>

text \<open>A loop over an \<open>unordered_map\<close> visits every entry once.\<close>

definition visits_table :: "((u32 \<Rightarrow> rtbl_entry list option) \<Rightarrow> (u32 \<times> rtbl_entry list) list) \<Rightarrow> (u32 \<Rightarrow> rtbl_entry list option) \<Rightarrow> bool" where
  "visits_table visit t \<longleftrightarrow> distinct (map fst (visit t)) \<and> map_of (visit t) = t"

definition routes_in :: "'d sim_call list \<Rightarrow> (nat \<times> static_route) list" where
  "routes_in cs = concat (map (\<lambda>c. case c of AddNetworkRouteTo n r \<Rightarrow> [(n, r)] | _ \<Rightarrow> []) cs)"

lemma routes_in_append [simp]: "routes_in (xs @ ys) = routes_in xs @ routes_in ys"
  by (simp add: routes_in_def)

lemma routes_in_simps [simp]:
  "routes_in [] = []" "routes_in (Message s # cs) = routes_in cs" "routes_in (PrintRoutingTable n # cs) = routes_in cs"
  "routes_in (AddNetworkRouteTo n r # cs) = (n, r) # routes_in cs"
  by (simp_all add: routes_in_def)

definition table_routes :: "'n ns3_net \<Rightarrow> ('d, 'n) MeshSim \<Rightarrow> u32 \<times> rtbl_entry list \<Rightarrow> (nat \<times> static_route) list" where
  "table_routes N S tbl = (let node = the (node_at N S (fst tbl)) in
     map (\<lambda>ent. (node, static_route_of N (net S) node ent)) (snd tbl))"

lemma entry_routes: "routes_in (concat (map (install_entry N n node) ents)) = map (\<lambda>ent. (node, static_route_of N n node ent)) ents"
  by (induction ents) (simp_all add: install_entry_def Let_def)

lemma install_tables:
  assumes "addr2netdev N S0 = m" and "net S = net S0"
  shows "case foldE (install_table N m) S tbls of
      Inl f \<Rightarrow> f = NullPointer \<and> \<not> fst ` set tbls \<subseteq> dom (map_of m)
    | Inr S' \<Rightarrow> fst ` set tbls \<subseteq> dom (map_of m) \<and> net S' = net S0
        \<and> routes_in (ms_log S') = routes_in (ms_log S) @ concat (map (table_routes N S0) tbls)"
  using assms(2)
proof (induction tbls arbitrary: S)
  case (Cons tbl tbls)
  show ?case
  proof (cases "map_of m (fst tbl)")
    case None
    then have "install_table N m S tbl = Inl NullPointer" by (cases tbl) (simp add: install_table_def)
    with None show ?thesis by (auto simp: domIff)
  next
    case (Some dev)
    let ?node = "dev_node N (net S0) dev"
    obtain S1 where S1: "install_table N m S tbl = Inr S1" "net S1 = net S0"
      "routes_in (ms_log S1) = routes_in (ms_log S) @ table_routes N S0 tbl"
      using Some Cons.prems assms(1)
      by (cases tbl) (simp add: install_table_def emit_def table_routes_def node_at_def entry_routes Let_def)
    from Cons.IH [OF S1(2)] show ?thesis using Some S1 by (auto split: sum.splits)
  qed
qed simp

lemma AssignAddresses_cfg: "AssignAddresses N S = Inr S' \<Longrightarrow> routing_cfg S' = routing_cfg S \<and> ms_log S' = ms_log S"
  by (auto simp: AssignAddresses_def assign_addrs_def)

lemma CreateInterfaces_result:
  assumes "AssignAddresses N (CreateStack N S) = Inr S1" and "visits_table visit (tables (routing_cfg S))"
  shows "case CreateInterfaces N visit S of
      Inl f \<Rightarrow> f = NullPointer \<and> \<not> dom (tables (routing_cfg S)) \<subseteq> dom (node_at N S1)
    | Inr S' \<Rightarrow> dom (tables (routing_cfg S)) \<subseteq> dom (node_at N S1)
        \<and> routes_in (ms_log S') = routes_in (ms_log S1) @ concat (map (table_routes N S1) (visit (tables (routing_cfg S))))"
proof -
  have cfg: "routing_cfg S1 = routing_cfg S"
    using AssignAddresses_cfg [OF assms(1)] by (simp add: CreateStack_def emit_def)
  have d1: "dom (node_at N S1) = dom (map_of (addr2netdev N S1))" by (auto simp: node_at_def dom_def)
  have d2: "dom (tables (routing_cfg S)) = fst ` set (visit (tables (routing_cfg S)))"
    using assms(2) unfolding visits_table_def by (metis dom_map_of_conv_image_fst)
  from install_tables [of N S1 "addr2netdev N S1" S1 "visit (tables (routing_cfg S))"] show ?thesis
    unfolding d1 d2 by (auto simp: CreateInterfaces_def assms(1) cfg split: sum.splits)
qed


text \<open>
  A table for an address that the address plan does not know, such as the address 0.0.0.0 of the
  routes that precede every \<open>routes_on\<close> line of the file, is accepted by the loader and crashes the
  program when the interfaces are created.
\<close>

theorem unowned_routes_crash:
  assumes "net_laws N" and "fresh_net N (net S0)" and "no_topology S0" and "CreateMesh N S0 = Inr S1"
    and "plan_fits (meshSize S0) (staSize S0)"
    and "visits_table visit (tables (routing_cfg S0))"
    and "ip \<in> dom (tables (routing_cfg S0))" and "ip \<notin> set (documented (nat (meshSize S0)) (nat (staSize S0)))"
  shows "\<exists>S. bindE (CreateBackhaul N (CreateStas N S1)) (CreateWiredStas N) = Inr S
    \<and> CreateInterfaces N visit S = Inl NullPointer"
proof -
  from built_plan [OF assms(1-5)] obtain S S' where
    S: "bindE (CreateBackhaul N (CreateStas N S1)) (CreateWiredStas N) = Inr S"
      "AssignAddresses N (CreateStack N S) = Inr S'" "plan_holds N (nat (meshSize S0)) (nat (staSize S0)) S'"
      "routing_cfg S = routing_cfg S0" by blast
  from S(3) assms(7,8) have "\<not> dom (tables (routing_cfg S)) \<subseteq> dom (node_at N S')"
    by (auto simp: plan_holds_def S(4))
  with CreateInterfaces_result [OF S(2), of visit] assms(6) have "CreateInterfaces N visit S = Inl NullPointer"
    by (cases "CreateInterfaces N visit S") (simp_all add: S(4))
  with S(1) show ?thesis by blast
qed

definition example_entry :: rtbl_entry where
  "example_entry = \<lparr>target = ip4 10 1 4 0, target_mask = ip4 255 255 255 0, via_if_ip = ip4 10 1 2 1, gateway = ip4 10 1 2 2, metric = 1\<rparr>"

definition example_routed :: "u32 \<Rightarrow> (int, example_net) MeshSim" where
  "example_routed ip = example_sim\<lparr>routing_cfg := init_routingConfig\<lparr>tables := [ip \<mapsto> [example_entry]]\<rparr>\<rparr>"

lemma example_routed_facts:
  "fresh_net example_topology (net (example_routed ip))" "no_topology (example_routed ip)"
  "meshSize (example_routed ip) = 2" "staSize (example_routed ip) = 1"
  "tables (routing_cfg (example_routed ip)) = [ip \<mapsto> [example_entry]]"
  "visits_table (\<lambda>_. [(ip, [example_entry])]) (tables (routing_cfg (example_routed ip)))"
  by (simp_all add: fresh_net_def no_topology_def example_routed_def example_sim_def init_MeshSim_def example_topology_def visits_table_def)

lemma example_routed_mesh: "\<exists>S. CreateMesh example_topology (example_routed ip) = Inr S"
proof -
  have "meshWifiConfig (example_routed ip) = example_mesh_wifi" by (simp add: example_routed_def example_sim_def)
  with CreateMesh_ok example_wifi_ok show ?thesis by metis
qed


theorem unowned_routes_crash_witness:
  "\<exists>S. CreateInterfaces example_topology (\<lambda>_. [(0, [example_entry])]) S = (Inl NullPointer :: fault + (int, example_net) MeshSim)"
proof -
  let ?S0 = "example_routed 0"
  note f = example_routed_facts [of 0]
  obtain S1 where m: "CreateMesh example_topology ?S0 = Inr S1" using example_routed_mesh by blast
  have sz: "plan_fits (meshSize ?S0) (staSize ?S0)" using f(3,4) by (simp add: plan_fits_def)
  have "0 \<notin> set (documented (nat (meshSize ?S0)) (nat (staSize ?S0)))" by (rule zero_undocumented) (simp_all add: f(3,4))
  moreover have "0 \<in> dom (tables (routing_cfg ?S0))" by (simp add: f(5))
  ultimately show ?thesis using unowned_routes_crash [OF example_net_laws f(1,2) m sz f(6)] by blast
qed

section \<open>Packet traces\<close>

definition visits_devs :: "((u32 \<times> nat) list \<Rightarrow> (u32 \<times> nat) list) \<Rightarrow> bool" where
  "visits_devs visit \<longleftrightarrow> (\<forall>m. mset (visit m) = mset m)"

definition pcap_names :: "'d sim_call list \<Rightarrow> string list" where
  "pcap_names cs = concat (map (\<lambda>c. case c of EnablePcap h fn d pr ex \<Rightarrow> [fn] | _ \<Rightarrow> []) cs)"

lemma pcap_names_append [simp]: "pcap_names (xs @ ys) = pcap_names xs @ pcap_names ys"
  by (simp add: pcap_names_def)

lemma pcap_names_concat: "pcap_names (concat css) = concat (map pcap_names css)"
  by (induction css) (simp_all add: pcap_names_def [of "[]"])

lemma pcap_names_enable: "pcap_names (map (\<lambda>(fn, dev). EnablePcap helper fn dev pr True) xs) = map fst xs"
  by (induction xs) (auto simp: pcap_names_def)

lemma pcap_names_Message [simp]: "pcap_names (Message s # cs) = pcap_names cs"
  by (simp add: pcap_names_def)

lemma print_ip_cancel:
  assumes "print_ip x @ r = print_ip y @ s" and "r = [] \<or> \<not> is_digit (hd r)" and "s = [] \<or> \<not> is_digit (hd s)"
  shows "x = y \<and> r = s"
proof -
  let ?oor = "\<lambda>_ :: int. 0 :: u32"
  have "scan_args ?oor ip_format (print_ip x @ r) = scan_args ?oor ip_format (print_ip y @ s)" using assms(1) by simp
  then have "route_arg x 24 = route_arg y 24" "route_arg x 16 = route_arg y 16" "route_arg x 8 = route_arg y 8"
    "route_arg x 0 = route_arg y 0"
    using assms(2,3) by (simp_all add: scan_print_ip)
  then have "x = y" by (metis add_octets)
  with assms(1) show ?thesis by simp
qed

lemma distinct_concat_map:
  "distinct xs \<Longrightarrow> (\<And>x. x \<in> set xs \<Longrightarrow> distinct (f x)) \<Longrightarrow>
   (\<And>x y e. x \<in> set xs \<Longrightarrow> y \<in> set xs \<Longrightarrow> e \<in> set (f x) \<Longrightarrow> e \<in> set (f y) \<Longrightarrow> x = y) \<Longrightarrow> distinct (concat (map f xs))"
proof (induction xs)
  case (Cons x xs)
  then have "distinct (concat (map f xs))" by (auto intro!: Cons.IH)
  moreover have "set (f x) \<inter> set (concat (map f xs)) = {}" using Cons.prems(1,3) by fastforce
  ultimately show ?case using Cons.prems(2) by simp
qed simp

text \<open>What follows the address in the names of the files of a device.\<close>

definition pcap_suffixes :: "'n ns3_net \<Rightarrow> 'n \<Rightarrow> nat \<Rightarrow> string list" where
  "pcap_suffixes N n dev = (case sub_devs N n dev of None \<Rightarrow> [''.pcap'']
     | Some ds \<Rightarrow> map (\<lambda>i. ''-'' @ dec_nat i @ ''.pcap'') [0..<length ds])"

lemma pcap_files_names:
  "map fst (pcap_files N n out_dir name (ip, dev)) = map (\<lambda>x. pcap_prefix out_dir name ip @ x) (pcap_suffixes N n dev)"
  by (simp add: pcap_files_def pcap_suffixes_def Let_def split: option.splits)

lemma pcap_suffix_facts:
  "distinct (pcap_suffixes N n dev)" "x \<in> set (pcap_suffixes N n dev) \<Longrightarrow> x \<noteq> [] \<and> \<not> is_digit (hd x)"
  by (auto simp: pcap_suffixes_def distinct_map inj_on_def dec_nat_inj is_digit_def split: option.splits)

lemma pcap_files_distinct_device:
  "distinct (map fst (pcap_files N n out_dir name p))"
  by (cases p) (simp add: pcap_files_names distinct_map inj_on_def pcap_suffix_facts)

text \<open>The names of the files of one kind of interface.\<close>

lemma pcap_calls_names:
  "pcap_names (pcap_calls N visit S (name, helper, ifs)) =
     concat (map (\<lambda>p. map fst (pcap_files N (net S) (outDir S) name p)) (visit (addInterfacesToMap N (net S) [] ifs)))"
  by (simp add: pcap_calls_def Let_def map_concat pcap_names_concat pcap_names_enable comp_def)

lemma pcap_file_shape:
  "fn \<in> set (map fst (pcap_files N n out_dir name p)) \<Longrightarrow>
   \<exists>x \<in> set (pcap_suffixes N n (snd p)). fn = pcap_prefix out_dir name (fst p) @ x"
proof (cases p)
  case (Pair ip dev)
  assume "fn \<in> set (map fst (pcap_files N n out_dir name p))"
  then show ?thesis unfolding Pair pcap_files_names by auto
qed

lemma pcap_name_shape:
  assumes "fn \<in> set (pcap_names (pcap_calls N visit S (name, helper, ifs)))"
  shows "\<exists>ip x. fn = pcap_prefix (outDir S) name ip @ x"
proof -
  from assms obtain p where "fn \<in> set (map fst (pcap_files N (net S) (outDir S) name p))"
    unfolding pcap_calls_names by auto
  from pcap_file_shape [OF this] show ?thesis by blast
qed

lemma pcap_calls_distinct:
  assumes "visits_devs visit"
  shows "distinct (pcap_names (pcap_calls N visit S (name, helper, ifs)))"
  unfolding pcap_calls_names
proof (rule distinct_concat_map)
  let ?m = "addInterfacesToMap N (net S) [] ifs"
  have d: "distinct (map fst ?m)" by (rule addInterfacesToMap_distinct) simp
  have v: "mset (visit ?m) = mset ?m" using assms by (simp add: visits_devs_def)
  show "distinct (visit ?m)" using d mset_eq_imp_distinct_iff [OF v] by (simp add: distinct_map)
  fix p q fn assume "p \<in> set (visit ?m)" "q \<in> set (visit ?m)"
  then have pq: "p \<in> set ?m" "q \<in> set ?m" using mset_eq_setD [OF v] by simp_all
  assume "fn \<in> set (map fst (pcap_files N (net S) (outDir S) name p))" "fn \<in> set (map fst (pcap_files N (net S) (outDir S) name q))"
  from this [THEN pcap_file_shape] obtain x y where xy:
    "x \<in> set (pcap_suffixes N (net S) (snd p))" "y \<in> set (pcap_suffixes N (net S) (snd q))"
    "print_ip (fst p) @ x = print_ip (fst q) @ y" by (auto simp: pcap_prefix_def)
  with print_ip_cancel [OF xy(3)] pcap_suffix_facts(2) [OF xy(1)] pcap_suffix_facts(2) [OF xy(2)]
  have "fst p = fst q" by simp
  moreover have "inj_on fst (set ?m)" using d by (simp add: distinct_map)
  ultimately show "p = q" using pq by (simp add: inj_on_eq_iff)
qed (rule pcap_files_distinct_device)


definition example_pcap :: "(int, example_net) MeshSim" where
  "example_pcap = example_sim\<lparr>enablePcap := True, meshInterfaces := [(0, 0), (0, 1)],
     net := \<lparr>en_nodes = 1, en_devs = [(0, None), (0, None)], en_ifs = [(0, 0, ip4 10 1 2 1), (0, 1, ip4 10 1 2 2)]\<rparr>\<rparr>"

lemma print_example: "print_ip (ip4 10 1 2 2) = ''10.1.2.2''"
proof -
  have "ip4 10 1 2 2 = 0x0A010202" by (simp add: ip4_def)
  moreover have "print_ip 0x0A010202 = ''10.1.2.2''" by code_simp
  ultimately show ?thesis by simp
qed

lemma example_pcap_facts:
  "enablePcap example_pcap" "promiscuousMode example_pcap = False"
  "(''mesh'', MeshPhy, meshInterfaces example_pcap) \<in> set (devtypelist example_pcap)"
  "(ip4 10 1 2 2, 1) \<in> set (addInterfacesToMap example_topology (net example_pcap) [] (meshInterfaces example_pcap))"
  "(''out/mesh-10.1.2.2.pcap'', 1) \<in> set (pcap_files example_topology (net example_pcap) (outDir example_pcap) ''mesh'' (ip4 10 1 2 2, 1))"
proof -
  have e: "enablePcap example_pcap" "promiscuousMode example_pcap = False" "outDir example_pcap = ''out''"
    "meshInterfaces example_pcap = [(0, 0), (0, 1)]"
    "net example_pcap = \<lparr>en_nodes = 1, en_devs = [(0, None), (0, None)], en_ifs = [(0, 0, ip4 10 1 2 1), (0, 1, ip4 10 1 2 2)]\<rparr>"
    by (simp_all add: example_pcap_def example_sim_def init_MeshSim_def)
  show "enablePcap example_pcap" "promiscuousMode example_pcap = False" using e by simp_all
  show "(''mesh'', MeshPhy, meshInterfaces example_pcap) \<in> set (devtypelist example_pcap)" by (simp add: devtypelist_def)
  show "(ip4 10 1 2 2, 1) \<in> set (addInterfacesToMap example_topology (net example_pcap) [] (meshInterfaces example_pcap))"
    unfolding e by (simp add: addInterfacesToMap_def example_topology_def ip4_eq)
  show "(''out/mesh-10.1.2.2.pcap'', 1) \<in> set (pcap_files example_topology (net example_pcap) (outDir example_pcap) ''mesh'' (ip4 10 1 2 2, 1))"
    unfolding e by (simp add: pcap_files_def pcap_prefix_def print_example example_topology_def del: One_nat_def)
qed


end
