(* ===== verification/Apps_Connect.thy ===== *)
theory Apps_Connect
  imports Apps_Manager
begin

text \<open>
  What \<open>AppsManager\<close> achieves. The attributes of all applications together are an \<open>attr_store\<close>
  whose names are pairs of an application and an attribute, so that the effect of a connection is
  the list of its writes; from this follow the end points of every connection after all of them
  have been made, the ports, the trace files, and what happens for tags that do not exist.
\<close>

section \<open>The store of attributes\<close>

definition store_put :: "nat \<times> string \<Rightarrow> attr_value option \<Rightarrow> store \<Rightarrow> store" where
  "store_put k v S = S[fst k := (S ! fst k)\<lparr>ob_attrs := (ob_attrs (S ! fst k))(snd k := v)\<rparr>]"

definition store_get :: "nat \<times> string \<Rightarrow> store \<Rightarrow> attr_value option" where
  "store_get k S = ob_attrs (S ! fst k) (snd k)"

definition store_known :: "nat \<times> string \<Rightarrow> store \<Rightarrow> bool" where
  "store_known k S \<longleftrightarrow> fst k < length S"

interpretation app_store: attr_store store_put store_get store_known
proof unfold_locales
  fix n m :: "nat \<times> string" and v and S :: store
  show "store_known n S \<Longrightarrow> store_get n (store_put n v S) = v"
    by (simp add: store_known_def store_get_def store_put_def)
  show "n \<noteq> m \<Longrightarrow> store_get m (store_put n v S) = store_get m S"
    by (cases n; cases m; cases "fst n < length S")
      (auto simp: store_get_def store_put_def nth_list_update list_update_beyond)
  show "store_known m (store_put n v S) = store_known m S" by (simp add: store_known_def store_put_def)
qed

lemma store_put_type: "ob_type (store_put k v S ! a) = ob_type (S ! a)"
  by (cases "a = fst k"; cases "a < length S") (auto simp: store_put_def nth_list_update list_update_beyond)

lemma store_put_length [simp]: "length (store_put k v S) = length S"
  by (simp add: store_put_def)

lemma set_all_type [simp]: "ob_type (app_store.set_all kvs S ! a) = ob_type (S ! a)"
  unfolding app_store.set_all_def by (induction kvs arbitrary: S) (simp_all add: store_put_type)

lemma set_all_length [simp]: "length (app_store.set_all kvs S) = length S"
  unfolding app_store.set_all_def by (induction kvs arbitrary: S) simp_all

lemma set_all_append: "app_store.set_all (xs @ ys) S = app_store.set_all ys (app_store.set_all xs S)"
  by (simp add: app_store.set_all_def)

lemma set_all_Cons: "app_store.set_all (kv # kvs) S = app_store.set_all kvs (store_put (fst kv) (snd kv) S)"
  by (simp add: app_store.set_all_def)

lemma set_all_Nil [simp]: "app_store.set_all [] S = S"
  by (simp add: app_store.set_all_def)

lemma get_set_all_other: "k \<notin> fst ` set kvs \<Longrightarrow> store_get k (app_store.set_all kvs S) = store_get k S"
proof (induction kvs arbitrary: S)
  case (Cons kv kvs)
  then have "fst kv \<noteq> k" by auto
  with Cons show ?case by (simp add: set_all_Cons app_store.get_set_other)
qed simp

lemma deref_Inr: "deref S p = Inr a \<longleftrightarrow> p = Some a \<and> a < length S"
  by (auto simp: deref_def split: option.splits if_splits)

lemma deref_Inl: "deref S p = Inl e \<Longrightarrow> e = NullPointer"
  by (auto simp: deref_def split: option.splits if_splits)

lemma app_set_Inr:
  "app_set E p n v S = Inr S' \<longleftrightarrow>
   (\<exists>a w. p = Some a \<and> a < length S \<and> has_attribute E (ob_type (S ! a)) n
      \<and> coerce E (ob_type (S ! a)) n v = Some w \<and> S' = store_put (a, n) (Some w) S)"
  by (auto simp: app_set_def SetAttribute_def store_put_def deref_Inr split: option.splits if_splits)

lemma app_get_Inr:
  "app_get E p n S = Inr v \<longleftrightarrow>
   (\<exists>a. p = Some a \<and> a < length S \<and> has_attribute E (ob_type (S ! a)) n \<and> v = attr_of E n (S ! a))"
  by (auto simp: app_get_def GetAttribute_def deref_Inr split: if_splits)

text \<open>What ns-3 promises of attribute values: no attribute has an empty name, and a value that is not
  a string to be parsed is stored as it is.\<close>

definition ns3_contract :: "ns3_env \<Rightarrow> bool" where
  "ns3_contract E \<longleftrightarrow> (\<forall>ty. \<not> ns3_attr E ty '''')
     \<and> (\<forall>ty n v w. coerce E ty n v = Some w \<longrightarrow> (\<forall>s. v \<noteq> StringValue s) \<longrightarrow> w = v)"

lemma coerce_value:
  "ns3_contract E \<Longrightarrow> coerce E ty n v = Some w \<Longrightarrow> (\<And>s. v \<noteq> StringValue s) \<Longrightarrow> w = v"
  by (auto simp: ns3_contract_def)

section \<open>The writes of one connection\<close>

definition record_for :: "AppType \<Rightarrow> u32 \<Rightarrow> nat \<Rightarrow> AppRecord option" where
  "record_for ty ip a = map_option (\<lambda>R. R\<lparr>ar_app := Some a\<rparr>)
     (switch_type ty (zero_record\<lparr>ar_type := ty, ar_host_ip := ip\<rparr>))"

definition sender_writes :: "nat \<Rightarrow> u32 \<Rightarrow> nat \<Rightarrow> AttribNames \<Rightarrow> ((nat \<times> string) \<times> attr_value option) list" where
  "sender_writes port rx_ip a txn =
     (if an_port txn \<noteq> '''' then [((a, an_port txn), Some (UintegerValue port)), ((a, an_address txn), Some (AddressValue (Ipv4Addr rx_ip)))]
      else [((a, an_address txn), Some (AddressValue (InetAddr rx_ip (of_nat port))))])"

definition receiver_writes :: "nat \<Rightarrow> nat \<Rightarrow> AttribNames \<Rightarrow> ((nat \<times> string) \<times> attr_value option) list" where
  "receiver_writes port a rxn =
     (if an_port rxn \<noteq> '''' then ((a, an_port rxn), Some (UintegerValue port))
        # (if an_address rxn \<noteq> '''' then [((a, an_address rxn), Some (AddressValue (Ipv4Addr 0)))] else [])
      else [((a, an_address rxn), Some (AddressValue (InetAddr 0 (of_nat port))))])"

definition protocol_writes :: "nat \<Rightarrow> AttribNames \<Rightarrow> AttribNames \<Rightarrow> attr_value \<Rightarrow> ((nat \<times> string) \<times> attr_value option) list" where
  "protocol_writes a txn rxn w = (if an_proto txn \<noteq> '''' then [((a, an_proto rxn), Some w)] else [])"

lemma has_attribute_empty: "ns3_contract E \<Longrightarrow> \<not> has_attribute E ty ''''"
  by (cases ty) (auto simp: has_attribute_def ns3_contract_def list_ex_iff BulkSend_attributes_def OnOff_attributes_def
      PacketSink_attributes_def TimedProxy_attributes_def RqEncoder_attributes_def RqDecoder_attributes_def
      ProxyBase_attributes_def SetTidDefaultProtocols_def)

text \<open>A successful set of a value that is not a string is a write of the store.\<close>

lemma app_set_writes:
  assumes "ns3_contract E" and "app_set E p n v S = Inr S'" and "\<And>s. v \<noteq> StringValue s"
  shows "\<exists>a. p = Some a \<and> a < length S \<and> has_attribute E (ob_type (S ! a)) n \<and> S' = store_put (a, n) (Some v) S"
  using assms(2) coerce_value [OF assms(1) _ assms(3)] by (auto simp: app_set_Inr)

lemma set_sender_writes:
  assumes "ns3_contract E" and "set_sender E port ip rec_tx txn S = Inr S'"
  shows "\<exists>a. ar_app rec_tx = Some a \<and> a < length S \<and> an_address txn \<noteq> ''''
     \<and> S' = app_store.set_all (sender_writes port ip a txn) S"
proof (cases "an_port txn = ''''")
  case True
  with assms(2) have "an_address txn \<noteq> ''''"
    and "app_set E (ar_app rec_tx) (an_address txn) (AddressValue (InetAddr ip (of_nat port))) S = Inr S'"
    by (auto simp: set_sender_def)
  with app_set_writes [OF assms(1) this(2)] True show ?thesis by (auto simp: sender_writes_def set_all_Cons)
next
  case False
  with assms(2) obtain S1 where "an_address txn \<noteq> ''''"
    and S1: "app_set E (ar_app rec_tx) (an_port txn) (UintegerValue port) S = Inr S1"
      "app_set E (ar_app rec_tx) (an_address txn) (AddressValue (Ipv4Addr ip)) S1 = Inr S'"
    by (auto simp: set_sender_def)
  with app_set_writes [OF assms(1) S1(1)] app_set_writes [OF assms(1) S1(2)] False
  show ?thesis by (auto simp: sender_writes_def set_all_Cons)
qed

lemma set_receiver_writes:
  assumes "ns3_contract E" and "set_receiver E port rec_rx rxn S = Inr S'"
  shows "\<exists>a. ar_app rec_rx = Some a \<and> a < length S \<and> (an_address rxn \<noteq> '''' \<or> an_port rxn \<noteq> '''')
     \<and> S' = app_store.set_all (receiver_writes port a rxn) S"
proof (cases "an_port rxn = ''''")
  case True
  with assms(2) have s: "app_set E (ar_app rec_rx) (an_address rxn) (AddressValue (InetAddr 0 (of_nat port))) S = Inr S'"
    by (simp add: set_receiver_def)
  with app_set_writes [OF assms(1) s] True has_attribute_empty [OF assms(1)] show ?thesis
    by (cases "an_address rxn = ''''") (auto simp: receiver_writes_def set_all_Cons)
next
  case False
  with assms(2) obtain S1 where S1: "app_set E (ar_app rec_rx) (an_port rxn) (UintegerValue port) S = Inr S1"
      "(if an_address rxn \<noteq> '''' then app_set E (ar_app rec_rx) (an_address rxn) (AddressValue (Ipv4Addr 0)) S1 else Inr S1) = Inr S'"
    by (auto simp: set_receiver_def)
  from app_set_writes [OF assms(1) S1(1)] obtain a where a: "ar_app rec_rx = Some a" "a < length S"
    "S1 = store_put (a, an_port rxn) (Some (UintegerValue port)) S" by auto
  show ?thesis
  proof (cases "an_address rxn = ''''")
    case True
    with a False S1(2) show ?thesis by (auto simp: receiver_writes_def set_all_Cons)
  next
    case addr: False
    with S1(2) have "app_set E (ar_app rec_rx) (an_address rxn) (AddressValue (Ipv4Addr 0)) S1 = Inr S'" by simp
    from app_set_writes [OF assms(1) this] a False addr show ?thesis by (auto simp: receiver_writes_def set_all_Cons)
  qed
qed

lemma match_protocols_writes:
  assumes "match_protocols E rec_tx txn rec_rx rxn S = Inr S'" and "an_proto txn \<noteq> ''''"
  shows "\<exists>a b w. ar_app rec_rx = Some a \<and> a < length S \<and> ar_app rec_tx = Some b \<and> b < length S
     \<and> has_attribute E (ob_type (S ! a)) (an_proto rxn)
     \<and> coerce E (ob_type (S ! a)) (an_proto rxn) (attr_of E (an_proto txn) (S ! b)) = Some w
     \<and> S' = app_store.set_all (protocol_writes a txn rxn w) S"
  using assms
  by (auto simp: match_protocols_def protocol_writes_def app_set_Inr app_get_Inr set_all_Cons split: if_splits)

section \<open>Names of end points\<close>

definition name_set :: "AttribNames \<Rightarrow> string set" where
  "name_set n = {an_proto n, an_address n, an_port n} - {''''}"

definition names_distinct :: "AttribNames \<Rightarrow> bool" where
  "names_distinct n \<longleftrightarrow> (an_proto n \<noteq> '''' \<longrightarrow> an_proto n \<noteq> an_address n \<and> an_proto n \<noteq> an_port n)
     \<and> (an_address n \<noteq> '''' \<longrightarrow> an_address n \<noteq> an_port n)"

lemma dec_int_nat [simp]: "dec_int (int i) = dec_nat i"
  by (simp add: dec_int_def)

text \<open>The names by type: what \<open>createApp\<close> sets, with the templates substituted.\<close>

definition names :: "string \<Rightarrow> string \<Rightarrow> string \<Rightarrow> AttribNames" where
  "names p a q = \<lparr>an_proto = p, an_address = a, an_port = q\<rparr>"

fun tx_table :: "AppType \<Rightarrow> nat \<Rightarrow> AttribNames" where
  "tx_table APP_UDP_ECHO_CLIENT i = names '''' ''RemoteAddress'' ''RemotePort''"
| "tx_table APP_FILE_SERVER i = names ''Protocol'' ''Remote'' ''''"
| "tx_table APP_STREAMING_SERVER i = names ''Protocol'' ''Remote'' ''''"
| "tx_table APP_WEB_CLIENT i = names '''' ''RemoteServerAddress'' ''RemoteServerPort''"
| "tx_table APP_TIMED_PROXY i = names ''ProtocolTx0'' ''TxAddr0'' ''''"
| "tx_table APP_RQ_ENCODER i = names ''ProtocolTx0'' ''TxAddr0'' ''''"
| "tx_table APP_RQ_DECODER i = names (''ProtocolTx'' @ dec_nat i) (''TxAddr'' @ dec_nat i) ''''"
| "tx_table _ i = names '''' '''' ''''"

fun rx_table :: "AppType \<Rightarrow> nat \<Rightarrow> AttribNames" where
  "rx_table APP_UDP_ECHO_SERVER j = names '''' '''' ''Port''"
| "rx_table APP_CLIENT j = names ''Protocol'' ''Local'' ''''"
| "rx_table APP_WEB_SERVER j = names '''' ''LocalAddress'' ''LocalPort''"
| "rx_table APP_TIMED_PROXY j = names ''ProtocolRx0'' ''RxAddr0'' ''''"
| "rx_table APP_RQ_ENCODER j = names (''ProtocolRx'' @ dec_nat j) (''RxAddr'' @ dec_nat j) ''''"
| "rx_table APP_RQ_DECODER j = names ''ProtocolRx0'' ''RxAddr0'' ''''"
| "rx_table _ j = names '''' '''' ''''"

lemmas names_simps = record_for_def tx_names_def rx_names_def getNamesFromNameTemplates_def tsubst_def
  zero_record_def no_names_def names_def

lemma record_names:
  assumes "record_for ty ip a = Some R"
  shows "tx_names R i = tx_table ty i" "rx_names R i = rx_table ty i"
  using assms by (cases ty; clarsimp simp: names_simps)+

lemma name_set_names: "name_set (names p a q) = {p, a, q} - {''''}"
  by (simp add: name_set_def names_def)

lemma names_eq: "names p a q = names p' a' q' \<longleftrightarrow> p = p' \<and> a = a' \<and> q = q'"
  by (simp add: names_def)

lemma tx_rx_names: "name_set (tx_table ty i) \<inter> name_set (rx_table ty j) = {}"
  by (cases ty) (simp_all add: name_set_names insert_Diff_if)

lemma names_distinct_table: "names_distinct (tx_table ty i)" "names_distinct (rx_table ty i)"
  by (cases ty; simp add: names_def names_distinct_def)+

lemma tx_slots_disjoint:
  "tx_table ty i \<noteq> tx_table ty i' \<Longrightarrow> name_set (tx_table ty i) \<inter> name_set (tx_table ty i') = {}"
  by (cases ty) (simp_all add: name_set_names names_eq dec_nat_inj insert_Diff_if)

lemma rx_slots_disjoint:
  "rx_table ty i \<noteq> rx_table ty i' \<Longrightarrow> name_set (rx_table ty i) \<inter> name_set (rx_table ty i') = {}"
  by (cases ty) (simp_all add: name_set_names names_eq dec_nat_inj insert_Diff_if)

lemma record_for_fields:
  "record_for ty ip a = Some R \<Longrightarrow> ar_app R = Some a \<and> ar_host_ip R = ip \<and> ar_type R = ty"
  by (cases ty) (auto simp: record_for_def zero_record_def)

section \<open>Connected end points\<close>

text \<open>Where the attributes of a sender send to, and on which port a receiver listens.\<close>

definition tx_dest :: "ns3_env \<Rightarrow> AttribNames \<Rightarrow> app_obj \<Rightarrow> (u32 \<times> nat) option" where
  "tx_dest E n ob =
     (if an_port n \<noteq> '''' then
        (case (attr_of E (an_address n) ob, attr_of E (an_port n) ob) of
           (AddressValue (Ipv4Addr ip), UintegerValue p) \<Rightarrow> Some (ip, p) | _ \<Rightarrow> None)
      else (case attr_of E (an_address n) ob of AddressValue (InetAddr ip p) \<Rightarrow> Some (ip, unat p) | _ \<Rightarrow> None))"

definition rx_port :: "ns3_env \<Rightarrow> AttribNames \<Rightarrow> app_obj \<Rightarrow> nat option" where
  "rx_port E n ob =
     (if an_port n \<noteq> '''' then (case attr_of E (an_port n) ob of UintegerValue p \<Rightarrow> Some p | _ \<Rightarrow> None)
      else (case attr_of E (an_address n) ob of
              AddressValue (InetAddr ip p) \<Rightarrow> if ip = 0 then Some (unat p) else None | _ \<Rightarrow> None))"

definition same_protocol :: "ns3_env \<Rightarrow> AttribNames \<Rightarrow> app_obj \<Rightarrow> AttribNames \<Rightarrow> app_obj \<Rightarrow> bool" where
  "same_protocol E txn tx rxn rx \<longleftrightarrow> an_proto txn = '''' \<or>
     (case attr_of E (an_proto txn) tx of TypeIdValue t \<Rightarrow> attr_of E (an_proto rxn) rx = TypeIdValue t | _ \<Rightarrow> True)"

definition conn_holds :: "ns3_env \<Rightarrow> store \<Rightarrow> AppRecord \<Rightarrow> nat \<Rightarrow> AppRecord \<Rightarrow> nat \<Rightarrow> nat \<Rightarrow> bool" where
  "conn_holds E S Rt i Rr j port =
     (case (ar_app Rt, ar_app Rr) of
        (Some b, Some a) \<Rightarrow>
          tx_dest E (tx_names Rt i) (S ! b) = Some (ar_host_ip Rr, port)
          \<and> rx_port E (rx_names Rr j) (S ! a) = Some port
          \<and> same_protocol E (tx_names Rt i) (S ! b) (rx_names Rr j) (S ! a)
      | _ \<Rightarrow> False)"

text \<open>What \<open>conn_holds\<close> depends on.\<close>

definition end_keys :: "AppRecord \<Rightarrow> AttribNames \<Rightarrow> (nat \<times> string) set" where
  "end_keys R n = (case ar_app R of None \<Rightarrow> {} | Some a \<Rightarrow> {a} \<times> name_set n)"

lemma attr_of_store_get:
  "attr_of E n (S ! a) = (case store_get (a, n) S of Some v \<Rightarrow> v
     | None \<Rightarrow> (case map_of (registered (ob_type (S ! a))) n of Some (init, _) \<Rightarrow> init
                | None \<Rightarrow> ns3_init E (ob_type (S ! a)) n))"
  by (simp add: attr_of_def store_get_def)

lemma attr_of_set: "store_get (a, n) S = Some v \<Longrightarrow> attr_of E n (S ! a) = v"
  by (simp add: attr_of_store_get)

lemma attr_of_cong:
  "store_get (a, n) S' = store_get (a, n) S \<Longrightarrow> ob_type (S' ! a) = ob_type (S ! a) \<Longrightarrow>
   attr_of E n (S' ! a) = attr_of E n (S ! a)"
  unfolding attr_of_store_get by (simp only:)

lemma sender_keys: "an_address n \<noteq> '''' \<Longrightarrow> fst ` set (sender_writes p ip b n) \<subseteq> {b} \<times> name_set n"
  by (auto simp: sender_writes_def name_set_def)

lemma receiver_keys:
  "an_address n \<noteq> '''' \<or> an_port n \<noteq> '''' \<Longrightarrow> fst ` set (receiver_writes p a n) \<subseteq> {a} \<times> name_set n"
  by (auto simp: receiver_writes_def name_set_def)

lemma protocol_keys: "an_proto rxn \<noteq> '''' \<Longrightarrow> fst ` set (protocol_writes a txn rxn w) \<subseteq> {a} \<times> name_set rxn"
  by (auto simp: protocol_writes_def name_set_def)

lemma get_sender_writes:
  assumes "names_distinct n" and "an_address n \<noteq> ''''" and "b < length S"
  shows "tx_dest E n (app_store.set_all (sender_writes p ip b n) S ! b) = (if an_port n \<noteq> '''' then Some (ip, p) else Some (ip, p mod 2 ^ 16))"
proof -
  let ?S = "app_store.set_all (sender_writes p ip b n) S"
  have kn: "store_known (b, m) (store_put k v S)" "store_known (b, m) S" for m k v
    using assms(3) by (simp_all add: store_known_def)
  have ad: "store_get (b, an_address n) ?S = Some (AddressValue (if an_port n \<noteq> '''' then Ipv4Addr ip else InetAddr ip (of_nat p)))"
    by (simp add: sender_writes_def set_all_Cons app_store.get_set kn)
  have po: "an_port n \<noteq> '''' \<Longrightarrow> store_get (b, an_port n) ?S = Some (UintegerValue p)"
    using assms(1,2) by (simp add: sender_writes_def set_all_Cons app_store.get_set app_store.get_set_other kn names_distinct_def)
  show ?thesis using attr_of_set [OF ad, of E] attr_of_set [OF po, of E] by (simp add: tx_dest_def unsigned_of_nat take_bit_eq_mod)
qed

lemma get_receiver_writes:
  assumes "names_distinct n" and "a < length S"
  shows "rx_port E n (app_store.set_all (receiver_writes p a n) S ! a) = (if an_port n \<noteq> '''' then Some p else Some (p mod 2 ^ 16))"
proof -
  let ?S = "app_store.set_all (receiver_writes p a n) S"
  have kn: "store_known (a, m) (store_put k v S)" "store_known (a, m) S" for m k v
    using assms(2) by (simp_all add: store_known_def)
  show ?thesis
  proof (cases "an_port n = ''''")
    case True
    then have "store_get (a, an_address n) ?S = Some (AddressValue (InetAddr 0 (of_nat p)))"
      by (simp add: receiver_writes_def set_all_Cons app_store.get_set kn)
    from attr_of_set [OF this, of E] True show ?thesis by (simp add: rx_port_def unsigned_of_nat take_bit_eq_mod)
  next
    case False
    then have "store_get (a, an_port n) ?S = Some (UintegerValue p)"
      using assms(1) by (auto simp: receiver_writes_def set_all_Cons app_store.get_set app_store.get_set_other kn names_distinct_def)
    from attr_of_set [OF this, of E] False show ?thesis by (simp add: rx_port_def)
  qed
qed

text \<open>The end points keep their meaning as long as their own attributes are not written.\<close>

lemma tx_dest_cong:
  assumes "an_address n \<noteq> ''''" and "\<And>m. m \<in> name_set n \<Longrightarrow> store_get (b, m) S' = store_get (b, m) S"
    and "ob_type (S' ! b) = ob_type (S ! b)"
  shows "tx_dest E n (S' ! b) = tx_dest E n (S ! b)"
proof -
  have "attr_of E m (S' ! b) = attr_of E m (S ! b)" if "m \<in> name_set n" for m
    by (rule attr_of_cong [OF assms(2) [OF that] assms(3)])
  with assms(1) show ?thesis by (auto simp: tx_dest_def name_set_def)
qed

lemma rx_port_cong:
  assumes "an_address n \<noteq> '''' \<or> an_port n \<noteq> ''''" and "\<And>m. m \<in> name_set n \<Longrightarrow> store_get (a, m) S' = store_get (a, m) S"
    and "ob_type (S' ! a) = ob_type (S ! a)"
  shows "rx_port E n (S' ! a) = rx_port E n (S ! a)"
proof -
  have "attr_of E m (S' ! a) = attr_of E m (S ! a)" if "m \<in> name_set n" for m
    by (rule attr_of_cong [OF assms(2) [OF that] assms(3)])
  then have "an_port n \<noteq> '''' \<Longrightarrow> attr_of E (an_port n) (S' ! a) = attr_of E (an_port n) (S ! a)"
    "an_address n \<noteq> '''' \<Longrightarrow> attr_of E (an_address n) (S' ! a) = attr_of E (an_address n) (S ! a)"
    by (simp_all add: name_set_def)
  with assms(1) show ?thesis by (cases "an_port n = ''''") (simp_all add: rx_port_def)
qed

lemma same_protocol_cong:
  assumes "an_proto rxn \<noteq> ''''"
    and "\<And>m. m \<in> name_set txn \<Longrightarrow> store_get (b, m) S' = store_get (b, m) S"
    and "\<And>m. m \<in> name_set rxn \<Longrightarrow> store_get (a, m) S' = store_get (a, m) S"
    and "ob_type (S' ! a) = ob_type (S ! a)" and "ob_type (S' ! b) = ob_type (S ! b)"
  shows "same_protocol E txn (S' ! b) rxn (S' ! a) = same_protocol E txn (S ! b) rxn (S ! a)"
proof (cases "an_proto txn = ''''")
  case True
  then show ?thesis by (simp add: same_protocol_def)
next
  case False
  then have "an_proto txn \<in> name_set txn" "an_proto rxn \<in> name_set rxn" using assms(1) by (simp_all add: name_set_def)
  then have "attr_of E (an_proto txn) (S' ! b) = attr_of E (an_proto txn) (S ! b)"
    "attr_of E (an_proto rxn) (S' ! a) = attr_of E (an_proto rxn) (S ! a)"
    using attr_of_cong [OF assms(2) assms(5)] attr_of_cong [OF assms(3) assms(4)] by blast+
  then show ?thesis by (simp only: same_protocol_def)
qed

lemma same_protocol_none: "an_proto txn = '''' \<Longrightarrow> same_protocol E txn ob rxn ob'"
  by (simp add: same_protocol_def)

definition proto_step :: "ns3_env \<Rightarrow> store \<Rightarrow> nat \<Rightarrow> nat \<Rightarrow> AttribNames \<Rightarrow> AttribNames
    \<Rightarrow> ((nat \<times> string) \<times> attr_value option) list \<Rightarrow> bool" where
  "proto_step E S a b txn rxn pw =
     (if an_proto txn = '''' then pw = []
      else an_proto rxn \<noteq> '''' \<and> (\<exists>w. pw = [((a, an_proto rxn), Some w)]
        \<and> coerce E (ob_type (S ! a)) (an_proto rxn) (attr_of E (an_proto txn) (S ! b)) = Some w))"

lemma proto_step_keys: "proto_step E S a b txn rxn pw \<Longrightarrow> fst ` set pw \<subseteq> {a} \<times> name_set rxn"
  by (auto simp: proto_step_def name_set_def split: if_splits)

lemma createConn1_writes:
  assumes "ns3_contract E" and "createConn1 E k i Rr j Rt S = Inr S'"
  shows "\<exists>a b pw. ar_app Rr = Some a \<and> a < length S \<and> ar_app Rt = Some b \<and> b < length S
    \<and> an_address (tx_names Rt i) \<noteq> '''' \<and> (an_address (rx_names Rr j) \<noteq> '''' \<or> an_port (rx_names Rr j) \<noteq> '''')
    \<and> proto_step E S a b (tx_names Rt i) (rx_names Rr j) pw
    \<and> S' = app_store.set_all (pw @ sender_writes (k + 1001) (ar_host_ip Rr) b (tx_names Rt i)
           @ receiver_writes (k + 1001) a (rx_names Rr j)) S"
proof -
  from assms(2) obtain S1 S2 where
    m: "match_protocols E Rt (tx_names Rt i) Rr (rx_names Rr j) S = Inr S1" and
    s: "set_sender E (k + 1001) (ar_host_ip Rr) Rt (tx_names Rt i) S1 = Inr S2" and
    r: "set_receiver E (k + 1001) Rr (rx_names Rr j) S2 = Inr S'"
    by (auto simp: createConn1_def Let_def)
  from set_sender_writes [OF assms(1) s] obtain b where b: "ar_app Rt = Some b" "b < length S1"
    "an_address (tx_names Rt i) \<noteq> ''''"
    "S2 = app_store.set_all (sender_writes (k + 1001) (ar_host_ip Rr) b (tx_names Rt i)) S1" by blast
  from set_receiver_writes [OF assms(1) r] obtain a where a: "ar_app Rr = Some a" "a < length S2"
    "an_address (rx_names Rr j) \<noteq> '''' \<or> an_port (rx_names Rr j) \<noteq> ''''"
    "S' = app_store.set_all (receiver_writes (k + 1001) a (rx_names Rr j)) S2" by blast
  have "\<exists>pw. proto_step E S a b (tx_names Rt i) (rx_names Rr j) pw \<and> S1 = app_store.set_all pw S"
  proof (cases "an_proto (tx_names Rt i) = ''''")
    case True
    then have "S1 = S" using m by (simp add: match_protocols_def)
    with True show ?thesis by (intro exI [of _ "[]"]) (simp add: proto_step_def)
  next
    case False
    from match_protocols_writes [OF m False] obtain w where w: "has_attribute E (ob_type (S ! a)) (an_proto (rx_names Rr j))"
      "coerce E (ob_type (S ! a)) (an_proto (rx_names Rr j)) (attr_of E (an_proto (tx_names Rt i)) (S ! b)) = Some w"
      "S1 = app_store.set_all (protocol_writes a (tx_names Rt i) (rx_names Rr j) w) S"
      using a(1) b(1) by auto
    moreover have "an_proto (rx_names Rr j) \<noteq> ''''" using w(1) has_attribute_empty [OF assms(1)] by auto
    ultimately show ?thesis using False by (auto simp: protocol_writes_def proto_step_def)
  qed
  then obtain pw where "proto_step E S a b (tx_names Rt i) (rx_names Rr j) pw" "S1 = app_store.set_all pw S" by blast
  with a b show ?thesis
    by (intro exI [of _ a] exI [of _ b] exI [of _ pw]) (simp add: set_all_append)
qed

lemma createConn1_frame:
  assumes "ns3_contract E" and "createConn1 E k i Rr j Rt S = Inr S'"
  shows "length S' = length S" "ob_type (S' ! c) = ob_type (S ! c)"
    "key \<notin> end_keys Rt (tx_names Rt i) \<union> end_keys Rr (rx_names Rr j) \<Longrightarrow> store_get key S' = store_get key S"
proof -
  from createConn1_writes [OF assms] obtain a b pw where w: "ar_app Rr = Some a" "ar_app Rt = Some b"
    "an_address (tx_names Rt i) \<noteq> ''''" "an_address (rx_names Rr j) \<noteq> '''' \<or> an_port (rx_names Rr j) \<noteq> ''''"
    "proto_step E S a b (tx_names Rt i) (rx_names Rr j) pw"
    "S' = app_store.set_all (pw @ sender_writes (k + 1001) (ar_host_ip Rr) b (tx_names Rt i)
           @ receiver_writes (k + 1001) a (rx_names Rr j)) S" by blast
  show "length S' = length S" "ob_type (S' ! c) = ob_type (S ! c)" by (simp_all add: w(6))
  assume key: "key \<notin> end_keys Rt (tx_names Rt i) \<union> end_keys Rr (rx_names Rr j)"
  have "key \<notin> fst ` set (pw @ sender_writes (k + 1001) (ar_host_ip Rr) b (tx_names Rt i)
      @ receiver_writes (k + 1001) a (rx_names Rr j))"
    using key w(1,2) proto_step_keys [OF w(5)] sender_keys [OF w(3), of "k + 1001" "ar_host_ip Rr" b] receiver_keys [OF w(4), of "k + 1001" a]
    by (auto simp: end_keys_def)
  then show "store_get key S' = store_get key S" unfolding w(6) by (rule get_set_all_other)
qed

text \<open>The protocol of the receiver, which is set first, is that of the sender at the end: no other write
  of the connection is to either attribute.\<close>

lemma connected_protocol:
  assumes n: "n = tx_table tt i" and m: "m = rx_table tr j" and "ns3_contract E" and p: "proto_step E S a b n m pw" and a: "a < length S"
    and "an_address n \<noteq> ''''" and "an_address m \<noteq> '''' \<or> an_port m \<noteq> ''''" and same: "a = b \<longrightarrow> tt = tr"
    and S': "S' = app_store.set_all (pw @ sender_writes q ip b n @ receiver_writes q a m) S"
  shows "same_protocol E n (S' ! b) m (S' ! a)"
proof (cases "an_proto n = ''''")
  case True
  then show ?thesis by (rule same_protocol_none)
next
  case False
  with p obtain v where v: "an_proto m \<noteq> ''''" "pw = [((a, an_proto m), Some v)]"
    "coerce E (ob_type (S ! a)) (an_proto m) (attr_of E (an_proto n) (S ! b)) = Some v" by (auto simp: proto_step_def)
  have pn: "an_proto n \<in> name_set n" and pm: "an_proto m \<in> name_set m" using False v(1) by (simp_all add: name_set_def)
  have disj: "a = b \<Longrightarrow> name_set n \<inter> name_set m = {}" using same tx_rx_names [of tr i j] by (auto simp: n m)
  have nd: "names_distinct n" "names_distinct m"
    unfolding n m by (rule names_distinct_table)+
  note rk = receiver_keys [OF assms(7), of q a] and sk = sender_keys [OF assms(6), of q ip b]
  have "(b, an_proto n) \<notin> fst ` set (pw @ sender_writes q ip b n @ receiver_writes q a m)"
    using v(2) pn pm disj False nd(1) rk by (auto simp: sender_writes_def names_distinct_def)
  then have "store_get (b, an_proto n) S' = store_get (b, an_proto n) S"
    unfolding S' by (rule get_set_all_other)
  then have t: "attr_of E (an_proto n) (S' ! b) = attr_of E (an_proto n) (S ! b)"
    by (intro attr_of_cong) (simp_all add: S')
  have "(a, an_proto m) \<notin> fst ` set (sender_writes q ip b n @ receiver_writes q a m)"
    using v(1) nd(2) sk disj pm by (auto simp: receiver_writes_def names_distinct_def)
  then have "store_get (a, an_proto m) S' = store_get (a, an_proto m) (app_store.set_all pw S)"
    unfolding S' set_all_append [of pw] by (rule get_set_all_other)
  also have "\<dots> = Some v" using a by (simp add: v(2) set_all_Cons app_store.get_set store_known_def)
  finally have r: "attr_of E (an_proto m) (S' ! a) = v" by (rule attr_of_set)
  show ?thesis
    using coerce_value [OF assms(3) v(3)] by (auto simp: same_protocol_def t r split: attr_value.splits)
qed

lemma createConn1_connected:
  assumes "ns3_contract E" and "createConn1 E k i Rr j Rt S = Inr S'" and "k + 1001 < 2 ^ 16"
    and Rt: "record_for tt ipt b = Some Rt" and Rr: "record_for tr ipr a = Some Rr" and same: "a = b \<longrightarrow> tt = tr"
  shows "conn_holds E S' Rt i Rr j (k + 1001)"
proof -
  let ?n = "tx_names Rt i" and ?m = "rx_names Rr j" and ?p = "k + 1001"
  have n: "?n = tx_table tt i" and m: "?m = rx_table tr j" using record_names Rt Rr by auto
  have ab: "ar_app Rt = Some b" "ar_app Rr = Some a" using record_for_fields Rt Rr by auto
  from createConn1_writes [OF assms(1,2)] ab obtain pw where w: "a < length S" "b < length S" "an_address ?n \<noteq> ''''"
    "an_address ?m \<noteq> '''' \<or> an_port ?m \<noteq> ''''"
    "proto_step E S a b ?n ?m pw"
    "S' = app_store.set_all (pw @ sender_writes ?p (ar_host_ip Rr) b ?n @ receiver_writes ?p a ?m) S"
    by (metis option.inject)
  define S1 where "S1 = app_store.set_all pw S"
  define S2 where "S2 = app_store.set_all (sender_writes ?p (ar_host_ip Rr) b ?n) S1"
  have S': "S' = app_store.set_all (receiver_writes ?p a ?m) S2" by (simp add: w(6) set_all_append S1_def S2_def)
  have len: "length S1 = length S" "length S2 = length S" by (simp_all add: S1_def S2_def)
  have ty: "ob_type (S' ! c) = ob_type (S2 ! c)" "ob_type (S2 ! c) = ob_type (S1 ! c)" "ob_type (S1 ! c) = ob_type (S ! c)" for c
    by (simp_all add: S' S2_def S1_def)
  have disj: "a = b \<Longrightarrow> name_set ?n \<inter> name_set ?m = {}" using same tx_rx_names [of tr i j] by (auto simp: n m)
  note rk = receiver_keys [OF w(4), of ?p a]
  have txS': "store_get (b, q) S' = store_get (b, q) S2" if "q \<in> name_set ?n" for q
    unfolding S' using that disj rk by (intro get_set_all_other) auto
  have "tx_dest E ?n (S' ! b) = tx_dest E ?n (S2 ! b)" by (rule tx_dest_cong [OF w(3) txS' ty(1)])
  also have "\<dots> = Some (ar_host_ip Rr, ?p)"
    using get_sender_writes [of ?n b S1 E ?p "ar_host_ip Rr"] names_distinct_table(1) [of tt i] w(2,3) len assms(3)
    by (simp add: S2_def n)
  finally have dest: "tx_dest E ?n (S' ! b) = Some (ar_host_ip Rr, ?p)" .
  have port: "rx_port E ?m (S' ! a) = Some ?p"
    using get_receiver_writes [of ?m a S2 E ?p] names_distinct_table(2) [of tr j] w(1) len assms(3) by (simp add: S' m)
  have "same_protocol E ?n (S' ! b) ?m (S' ! a)"
    by (rule connected_protocol [OF n m assms(1) w(5,1,3,4) same w(6)])
  with dest port show ?thesis by (simp add: conn_holds_def ab)
qed

section \<open>All connections\<close>

text \<open>A connection: the index of the receiver in its statement and its tag, and those of the sender.\<close>

type_synonym conn = "nat \<times> string \<times> nat \<times> string"

fun indexed :: "nat \<Rightarrow> 'a list \<Rightarrow> (nat \<times> 'a) list" where
  "indexed i [] = []"
| "indexed i (x # xs) = (i, x) # indexed (Suc i) xs"

definition receiver_conns :: "string list \<Rightarrow> nat \<times> string \<Rightarrow> conn list" where
  "receiver_conns ss ir = map (\<lambda>(j, t). (fst ir, snd ir, j, t)) (indexed 0 ss)"

definition stmt_conns :: "AppConnectionConfig \<Rightarrow> conn list" where
  "stmt_conns c = concat (map (receiver_conns (senders c)) (indexed 0 (receivers c)))"

definition all_conns :: "AppConnectionConfig list \<Rightarrow> conn list" where
  "all_conns cs = concat (map stmt_conns cs)"

fun run_conns :: "ns3_env \<Rightarrow> (string \<Rightarrow> AppRecord) \<Rightarrow> nat \<Rightarrow> conn list \<Rightarrow> store \<Rightarrow> cfg_error + store" where
  "run_conns E rec_of k [] S = Inr S"
| "run_conns E rec_of k ((i, r, j, t) # cs) S =
     bindE (or_crash (createConn1 E k i (rec_of r) j (rec_of t) S)) (run_conns E rec_of (Suc k) cs)"

lemma run_conns_append:
  "run_conns E rec_of k (xs @ ys) S = bindE (run_conns E rec_of k xs S) (run_conns E rec_of (k + length xs) ys)"
proof (induction xs arbitrary: k S)
  case (Cons x xs)
  obtain i r j t where "x = (i, r, j, t)" by (cases x) auto
  then show ?case by (cases "createConn1 E k i (rec_of r) j (rec_of t) S") (simp_all add: Cons.IH or_crash_def)
qed simp

lemma createConn1_apps: "createConn1 E k i Rr j Rt S = Inr S' \<Longrightarrow> ar_app Rr \<noteq> None \<and> ar_app Rt \<noteq> None"
proof -
  assume "createConn1 E k i Rr j Rt S = Inr S'"
  then obtain S1 S2 where
    "set_sender E (k + 1001) (ar_host_ip Rr) Rt (tx_names Rt i) S1 = Inr S2"
    "set_receiver E (k + 1001) Rr (rx_names Rr j) S2 = Inr S'" by (auto simp: createConn1_def Let_def)
  then show ?thesis
    by (cases "an_port (tx_names Rt i) = ''''"; cases "an_port (rx_names Rr j) = ''''")
      (auto simp: set_sender_def set_receiver_def app_set_Inr)
qed

text \<open>
  The records as the creation of the applications leaves them: every record has an application, so
  a record that \<open>rec[tag]\<close> creates is told apart.
\<close>

definition recs_ok :: "AppsManager \<Rightarrow> bool" where
  "recs_ok M \<longleftrightarrow> (\<forall>tag R. am_rec M tag = Some R \<longrightarrow> ar_app R \<noteq> None)"

definition rec_of :: "AppsManager \<Rightarrow> string \<Rightarrow> AppRecord" where
  "rec_of M tag = (case am_rec M tag of Some R \<Rightarrow> R | None \<Rightarrow> zero_record)"

lemma rec_at_fst: "fst (rec_at tag M) = rec_of M tag"
  by (simp add: rec_at_def rec_of_def split: option.splits)

lemma rec_at_known: "recs_ok M \<Longrightarrow> ar_app (rec_of M tag) \<noteq> None \<Longrightarrow> rec_at tag M = (rec_of M tag, M)"
  by (auto simp: rec_at_def rec_of_def zero_record_def split: option.splits)

lemma zero_record_apps: "ar_app zero_record = None" "\<not> ar_RxMultiple zero_record" "\<not> ar_TxMultiple zero_record"
  by (simp_all add: zero_record_def)

lemma rec_of_store [simp]: "rec_of (M\<lparr>am_store := S\<rparr>) = rec_of M"
  by (simp add: rec_of_def fun_eq_iff)

lemma recs_ok_store [simp]: "recs_ok (M\<lparr>am_store := S\<rparr>) = recs_ok M"
  by (simp add: recs_ok_def)

text \<open>What the manager is apart from its sinks.\<close>

definition same_apps :: "AppsManager \<Rightarrow> AppsManager \<Rightarrow> bool" where
  "same_apps M M' \<longleftrightarrow> am_rec M' = am_rec M \<and> am_hosts M' = am_hosts M \<and> am_out_dir M' = am_out_dir M"

lemma same_apps_refl [simp]: "same_apps M M" by (simp add: same_apps_def)
lemma same_apps_trans: "same_apps M M' \<Longrightarrow> same_apps M' M'' \<Longrightarrow> same_apps M M''" by (simp add: same_apps_def)
lemma same_apps_rec: "same_apps M M' \<Longrightarrow> rec_of M' = rec_of M \<and> recs_ok M' = recs_ok M"
  by (simp add: same_apps_def rec_of_def recs_ok_def fun_eq_iff)

lemma conn_senders_run:
  assumes "recs_ok M" and "conn_senders E i Rr j tags (M, k) = Inr (M', k')" and "Rr = rec_of M r"
  shows "k' = k + length tags \<and> M' = M\<lparr>am_store := am_store M'\<rparr>
    \<and> run_conns E (rec_of M) k (map (\<lambda>(j, t). (i, r, j, t)) (indexed j tags)) (am_store M) = Inr (am_store M')
    \<and> (tags \<noteq> [] \<longrightarrow> ar_app Rr \<noteq> None)"
  using assms
proof (induction tags arbitrary: M j k)
  case (Cons tag tags)
  obtain Rt M1 where ra: "rec_at tag M = (Rt, M1)" by fastforce
  from Cons.prems(2) ra obtain S where S: "createConn1 E k i Rr j Rt (am_store M1) = Inr S"
    "conn_senders E i Rr (Suc j) tags (M1\<lparr>am_store := S\<rparr>, Suc k) = Inr (M', k')" by (auto simp: Let_def)
  from createConn1_apps [OF S(1)] rec_at_fst [of tag M] ra have "ar_app (rec_of M tag) \<noteq> None" by auto
  with rec_at_known [OF Cons.prems(1)] ra have eq: "Rt = rec_of M tag" "M1 = M" by auto
  have "recs_ok (M\<lparr>am_store := S\<rparr>)" using Cons.prems(1) by simp
  from Cons.IH [OF this S(2) [unfolded eq]] Cons.prems(3) S(1) createConn1_apps [OF S(1)] show ?case
    by (simp add: eq or_crash_def)
qed simp

text \<open>The sinks: the files of each kind are numbered by the connections made so far.\<close>

definition sinks_added :: "AppsManager \<Rightarrow> nat \<Rightarrow> AppsManager \<Rightarrow> nat \<Rightarrow> bool" where
  "sinks_added M k M' k' \<longleftrightarrow> k \<le> k' \<and> (\<exists>ns js.
     map rs_rx_name (am_rxCbs M') = map rs_rx_name (am_rxCbs M) @ map (trace_name (am_out_dir M) ''rx'') ns
   \<and> map rs_pl_name (am_rxCbs M') = map rs_pl_name (am_rxCbs M) @ map (trace_name (am_out_dir M) ''pl'') ns
   \<and> map ds_name (am_rqDecCbs M') = map ds_name (am_rqDecCbs M) @ map (trace_name (am_out_dir M) ''rqdec'') js
   \<and> sorted_wrt (<) ns \<and> sorted_wrt (<) js \<and> list_all (\<lambda>x. k < x \<and> x \<le> k') (ns @ js))"

lemma sinks_none: "k \<le> k' \<Longrightarrow> am_rxCbs M' = am_rxCbs M \<Longrightarrow> am_rqDecCbs M' = am_rqDecCbs M \<Longrightarrow> sinks_added M k M' k'"
  by (auto simp: sinks_added_def)

lemma sorted_wrt_less_append:
  "sorted_wrt (<) xs \<Longrightarrow> sorted_wrt (<) ys \<Longrightarrow> list_all (\<lambda>x. k < x \<and> x \<le> m) xs \<Longrightarrow>
   list_all (\<lambda>x. m < x \<and> x \<le> n) ys \<Longrightarrow> sorted_wrt (<) (xs @ (ys :: nat list))"
  by (auto simp: sorted_wrt_append list_all_iff intro: le_less_trans)

lemma sinks_trans:
  assumes "sinks_added M k M1 k1" and "sinks_added M1 k1 M' k'" and "am_out_dir M1 = am_out_dir M"
  shows "sinks_added M k M' k'"
proof -
  from assms(1) obtain ns js where a: "k \<le> k1"
    "map rs_rx_name (am_rxCbs M1) = map rs_rx_name (am_rxCbs M) @ map (trace_name (am_out_dir M) ''rx'') ns"
    "map rs_pl_name (am_rxCbs M1) = map rs_pl_name (am_rxCbs M) @ map (trace_name (am_out_dir M) ''pl'') ns"
    "map ds_name (am_rqDecCbs M1) = map ds_name (am_rqDecCbs M) @ map (trace_name (am_out_dir M) ''rqdec'') js"
    "sorted_wrt (<) ns" "sorted_wrt (<) js" "list_all (\<lambda>x. k < x \<and> x \<le> k1) (ns @ js)"
    by (auto simp: sinks_added_def)
  from assms(2) obtain ns' js' where b: "k1 \<le> k'"
    "map rs_rx_name (am_rxCbs M') = map rs_rx_name (am_rxCbs M1) @ map (trace_name (am_out_dir M1) ''rx'') ns'"
    "map rs_pl_name (am_rxCbs M') = map rs_pl_name (am_rxCbs M1) @ map (trace_name (am_out_dir M1) ''pl'') ns'"
    "map ds_name (am_rqDecCbs M') = map ds_name (am_rqDecCbs M1) @ map (trace_name (am_out_dir M1) ''rqdec'') js'"
    "sorted_wrt (<) ns'" "sorted_wrt (<) js'" "list_all (\<lambda>x. k1 < x \<and> x \<le> k') (ns' @ js')"
    by (auto simp: sinks_added_def)
  have r: "list_all (\<lambda>x. k < x \<and> x \<le> k1) ns" "list_all (\<lambda>x. k < x \<and> x \<le> k1) js"
    "list_all (\<lambda>x. k1 < x \<and> x \<le> k') ns'" "list_all (\<lambda>x. k1 < x \<and> x \<le> k') js'" using a(7) b(7) by simp_all
  have "sorted_wrt (<) (ns @ ns')" by (rule sorted_wrt_less_append [OF a(5) b(5) r(1,3)])
  moreover have "sorted_wrt (<) (js @ js')" by (rule sorted_wrt_less_append [OF a(6) b(6) r(2,4)])
  moreover have "list_all (\<lambda>x. k < x \<and> x \<le> k') ((ns @ ns') @ (js @ js'))"
    using r a(1) b(1) by (auto simp: list_all_iff intro: order_trans le_less_trans)
  ultimately show ?thesis using a b assms(3)
    unfolding sinks_added_def by (intro conjI exI [of _ "ns @ ns'"] exI [of _ "js @ js'"]) simp_all
qed

lemma install_sinks:
  assumes "(if ar_has_rx_trace Rr then install_rx E ci ss r Rr (M, k) else Inr (M, k)) = Inr st"
    and "(M', k') = (if ar_has_rq_decoder_trace Rr then install_rqdec E Rr st else st)" and "k0 < k"
    and "am_rxCbs M = am_rxCbs M0" and "am_rqDecCbs M = am_rqDecCbs M0" and "am_out_dir M = am_out_dir M0"
  shows "k' = k \<and> am_store M' = am_store M \<and> same_apps M M' \<and> sinks_added M0 k0 M' k"
proof -
  let ?ns = "if ar_has_rx_trace Rr then [k] else []" and ?js = "if ar_has_rq_decoder_trace Rr then [k] else []"
  have n: "map rs_rx_name (am_rxCbs M') = map rs_rx_name (am_rxCbs M) @ map (trace_name (am_out_dir M) ''rx'') ?ns"
    "map rs_pl_name (am_rxCbs M') = map rs_pl_name (am_rxCbs M) @ map (trace_name (am_out_dir M) ''pl'') ?ns"
    "map ds_name (am_rqDecCbs M') = map ds_name (am_rqDecCbs M) @ map (trace_name (am_out_dir M) ''rqdec'') ?js"
    "k' = k" "am_store M' = am_store M" "same_apps M M'"
    using assms(1,2) by (auto simp: install_rx_def install_rqdec_def same_apps_def Let_def split: if_splits)
  have "sinks_added M0 k0 M' k"
    unfolding sinks_added_def using n assms(3-6) by (intro conjI exI [of _ ?ns] exI [of _ ?js]) auto
  with n show ?thesis by simp
qed

lemma length_indexed: "length (indexed j xs) = length xs"
  by (induction xs arbitrary: j) auto

lemma length_receiver_conns: "length (receiver_conns ss (i, tag)) = length ss"
  by (simp add: receiver_conns_def length_indexed)

lemma conn_receivers_run:
  assumes "recs_ok M" and "ss \<noteq> []" and "conn_receivers E ci ss i tags (M, k) = Inr (M', k')"
  shows "same_apps M M' \<and> sinks_added M k M' k'
    \<and> k' = k + length (concat (map (receiver_conns ss) (indexed i tags)))
    \<and> run_conns E (rec_of M) k (concat (map (receiver_conns ss) (indexed i tags))) (am_store M) = Inr (am_store M')"
  using assms
proof (induction tags arbitrary: M i k)
  case Nil
  then show ?case by (simp add: sinks_none)
next
  case (Cons tag tags)
  obtain Rr M0 where ra: "rec_at tag M = (Rr, M0)" by fastforce
  from Cons.prems(3) ra obtain M1 k1 st where
    cs: "conn_senders E i Rr 0 ss (M0, k) = Inr (M1, k1)" and
    ins: "(if ar_has_rx_trace Rr then install_rx E ci ss tag Rr (M1, k1) else Inr (M1, k1)) = Inr st" and
    rest: "conn_receivers E ci ss (Suc i) tags (if ar_has_rq_decoder_trace Rr then install_rqdec E Rr st else st) = Inr (M', k')"
    by (auto simp: Let_def)
  obtain M2 k2 where M2: "(M2, k2) = (if ar_has_rq_decoder_trace Rr then install_rqdec E Rr st else st)" by (metis surj_pair)
  have Rr: "Rr = rec_of M tag" using rec_at_fst [of tag M] ra by simp
  from Cons.prems(2) obtain t ts where ss: "ss = t # ts" by (cases ss) auto
  have app: "ar_app Rr \<noteq> None"
    using cs createConn1_apps by (fastforce simp: ss Let_def split: prod.splits)
  with rec_at_known [OF Cons.prems(1)] ra Rr have M0: "M0 = M" by auto
  from conn_senders_run [OF Cons.prems(1) cs [unfolded M0] Rr] have
    s: "k1 = k + length ss" "M1 = M\<lparr>am_store := am_store M1\<rparr>"
      "run_conns E (rec_of M) k (receiver_conns ss (i, tag)) (am_store M) = Inr (am_store M1)"
    by (auto simp: receiver_conns_def)
  have f: "am_rxCbs M1 = am_rxCbs M" "am_rqDecCbs M1 = am_rqDecCbs M" "am_out_dir M1 = am_out_dir M"
    "am_rec M1 = am_rec M" "am_hosts M1 = am_hosts M"
    by (subst s(2), simp)+
  have "k < k1" using s(1) ss by simp
  from install_sinks [OF ins M2 this f(1-3)] have
    i: "k2 = k1" "am_store M2 = am_store M1" "same_apps M1 M2" "sinks_added M k M2 k1" by auto
  have sa: "same_apps M M2" using i(3) f by (simp add: same_apps_def)
  have "recs_ok M2" using same_apps_rec [OF sa] Cons.prems(1) by simp
  from Cons.IH [OF this Cons.prems(2) rest [folded M2, unfolded i(1)]] have
    r: "same_apps M2 M'" "sinks_added M2 k1 M' k'"
      "k' = k1 + length (concat (map (receiver_conns ss) (indexed (Suc i) tags)))"
      "run_conns E (rec_of M2) k1 (concat (map (receiver_conns ss) (indexed (Suc i) tags))) (am_store M2) = Inr (am_store M')"
    by auto
  have "am_out_dir M2 = am_out_dir M" using sa by (simp add: same_apps_def)
  with same_apps_trans [OF sa r(1)] sinks_trans [OF i(4) r(2)] r(3,4) s(1,3) i(2) same_apps_rec [OF sa]
  show ?case by (simp add: run_conns_append length_receiver_conns)
qed

lemma createConns_run:
  assumes "recs_ok M" and "senders c \<noteq> []" and "createConns E ci c (M, k) = Inr (M', k')"
  shows "same_apps M M' \<and> sinks_added M k M' k' \<and> k' = k + length (stmt_conns c)
    \<and> run_conns E (rec_of M) k (stmt_conns c) (am_store M) = Inr (am_store M')"
proof -
  have known: "rec_at tag M = (rec_of M tag, M)" if "ar_RxMultiple (rec_of M tag) \<or> ar_TxMultiple (rec_of M tag)" for tag
    using that by (auto simp: rec_at_def rec_of_def zero_record_apps split: option.splits)
  have ra: "fst (rec_at tag M) = rec_of M tag" for tag by (rule rec_at_fst)
  have "conn_receivers E ci (senders c) 0 (receivers c) (M, k) = Inr (M', k')"
  proof (cases "length (senders c) > 1")
    case True
    obtain R M1 where rx: "rec_at (receivers c ! 0) M = (R, M1)" by fastforce
    with True assms(3) have "length (receivers c) = 1" "ar_RxMultiple R"
      by (auto simp: createConns_def Let_def split: if_splits prod.splits)
    with known [of "receivers c ! 0"] ra [of "receivers c ! 0"] rx have "M1 = M" by auto
    with True assms(3) rx \<open>length (receivers c) = 1\<close> \<open>ar_RxMultiple R\<close> show ?thesis
      by (simp add: createConns_def Let_def)
  next
    case False
    with assms(2) have one: "length (senders c) = 1" by (cases "senders c") auto
    show ?thesis
    proof (cases "length (receivers c) > 1")
      case True
      obtain R M1 where tx: "rec_at (senders c ! 0) M = (R, M1)" by fastforce
      with True one assms(3) have "ar_TxMultiple R"
        by (auto simp: createConns_def Let_def split: if_splits prod.splits)
      with known [of "senders c ! 0"] ra [of "senders c ! 0"] tx have "M1 = M" by auto
      with True one assms(3) tx \<open>ar_TxMultiple R\<close> show ?thesis by (simp add: createConns_def Let_def)
    next
      case False
      with one assms(3) show ?thesis by (simp add: createConns_def Let_def)
    qed
  qed
  from conn_receivers_run [OF assms(1,2) this] show ?thesis unfolding stmt_conns_def .
qed

lemma connect_all_run:
  "recs_ok M \<Longrightarrow> list_all (\<lambda>c. senders c \<noteq> []) cs \<Longrightarrow> connect_all E ci cs (M, k) = Inr (M', k') \<Longrightarrow>
   same_apps M M' \<and> sinks_added M k M' k' \<and> k' = k + length (all_conns cs)
     \<and> run_conns E (rec_of M) k (all_conns cs) (am_store M) = Inr (am_store M')"
proof (induction cs arbitrary: M ci k)
  case Nil
  then show ?case by (simp add: all_conns_def sinks_none)
next
  case (Cons c cs)
  from Cons.prems(3) obtain M1 k1 where c: "createConns E ci c (M, k) = Inr (M1, k1)"
    "connect_all E (Suc ci) cs (M1, k1) = Inr (M', k')" by auto
  have "senders c \<noteq> []" using Cons.prems(2) by simp
  from createConns_run [OF Cons.prems(1) this c(1)] have
    s: "same_apps M M1" "sinks_added M k M1 k1" "k1 = k + length (stmt_conns c)"
      "run_conns E (rec_of M) k (stmt_conns c) (am_store M) = Inr (am_store M1)" by auto
  have "recs_ok M1" using same_apps_rec [OF s(1)] Cons.prems(1) by simp
  from Cons.IH [OF this _ c(2)] Cons.prems(2) have
    r: "same_apps M1 M'" "sinks_added M1 k1 M' k'" "k' = k1 + length (all_conns cs)"
      "run_conns E (rec_of M1) k1 (all_conns cs) (am_store M1) = Inr (am_store M')" by auto
  have "am_out_dir M1 = am_out_dir M" using s(1) by (simp add: same_apps_def)
  with same_apps_trans [OF s(1) r(1)] sinks_trans [OF s(2) r(2)] s(3,4) r(3,4) same_apps_rec [OF s(1)]
  show ?case by (simp add: all_conns_def run_conns_append)
qed

section \<open>Creating the applications\<close>

definition recs_inv :: "AppsManager \<Rightarrow> bool" where
  "recs_inv M \<longleftrightarrow>
     (\<forall>tag R. am_rec M tag = Some R \<longrightarrow> (\<exists>ty ip a. record_for ty ip a = Some R \<and> a < length (am_store M)))
   \<and> (\<forall>t t' R R'. am_rec M t = Some R \<longrightarrow> am_rec M t' = Some R' \<longrightarrow> ar_app R = ar_app R' \<longrightarrow> t = t')"

lemma setAppAttribs_length: "setAppAttribs E p as S = Inr S' \<Longrightarrow> length S' = length S"
  unfolding setAppAttribs_def
  by (erule foldE_invariant [where I = "\<lambda>S'. length S' = length S"]) (auto simp: app_set_Inr)

lemma setAppAttribs_type: "setAppAttribs E p as S = Inr S' \<Longrightarrow> ob_type (S' ! a) = ob_type (S ! a)"
  unfolding setAppAttribs_def
  by (erule foldE_invariant [where I = "\<lambda>S'. ob_type (S' ! a) = ob_type (S ! a)"]) (auto simp: app_set_Inr store_put_type)

lemma createApp_Inr:
  assumes "createApp E addr2node M cfg = Inr M'"
  obtains R S host where "record_for (app_type cfg) (app_ip cfg) (length (am_store M)) = Some R"
    "setAppAttribs E (Some (length (am_store M))) (app_attribs cfg)
       (am_store M @ [\<lparr>ob_type = app_type cfg, ob_attrs = Map.empty\<rparr>]) = Inr S"
    "am_rec M (app_tag cfg) = None" "addr2node (app_ip cfg) = Some host"
    "M' = M\<lparr>am_store := S, am_rec := (am_rec M)(app_tag cfg \<mapsto> R), am_hosts := am_hosts M @ [(host, length (am_store M))]\<rparr>"
  using assms by (auto simp: createApp_def record_for_def Let_def split: option.splits if_splits)

lemma createApp_inv:
  assumes "createApp E addr2node M cfg = Inr M'" and "recs_inv M"
  shows "recs_inv M'" "length (am_store M') = Suc (length (am_store M))"
    "am_out_dir M' = am_out_dir M" "am_rxCbs M' = am_rxCbs M" "am_rqDecCbs M' = am_rqDecCbs M"
proof -
  from assms(1) obtain R S host where c: "record_for (app_type cfg) (app_ip cfg) (length (am_store M)) = Some R"
    "setAppAttribs E (Some (length (am_store M))) (app_attribs cfg)
       (am_store M @ [\<lparr>ob_type = app_type cfg, ob_attrs = Map.empty\<rparr>]) = Inr S"
    "am_rec M (app_tag cfg) = None"
    "M' = M\<lparr>am_store := S, am_rec := (am_rec M)(app_tag cfg \<mapsto> R), am_hosts := am_hosts M @ [(host, length (am_store M))]\<rparr>"
    by (rule createApp_Inr)
  have len: "length S = Suc (length (am_store M))" using setAppAttribs_length [OF c(2)] by simp
  with c(4) show "length (am_store M') = Suc (length (am_store M))" "am_out_dir M' = am_out_dir M"
    "am_rxCbs M' = am_rxCbs M" "am_rqDecCbs M' = am_rqDecCbs M" by simp_all
  have new: "ar_app R = Some (length (am_store M))" using record_for_fields [OF c(1)] by simp
  have old: "\<exists>a. ar_app Q = Some a \<and> a < length (am_store M)" if "am_rec M t = Some Q" for t Q
    using assms(2) that record_for_fields unfolding recs_inv_def by metis
  show "recs_inv M'"
    unfolding recs_inv_def
  proof (intro conjI allI impI)
    fix tag Q assume "am_rec M' tag = Some Q"
    then show "\<exists>ty ip a. record_for ty ip a = Some Q \<and> a < length (am_store M')"
      using c(1,4) len assms(2) unfolding recs_inv_def by (auto split: if_splits) (meson less_SucI)
  next
    fix t t' Q Q' assume "am_rec M' t = Some Q" "am_rec M' t' = Some Q'" "ar_app Q = ar_app Q'"
    then show "t = t'"
      using c(4) new old assms(2) unfolding recs_inv_def by (auto split: if_splits) fastforce+
  qed
qed

lemma createApps_phase1:
  "foldE (createApp E addr2node) M apps = Inr M' \<Longrightarrow> recs_inv M \<Longrightarrow>
   recs_inv M' \<and> length (am_store M') = length (am_store M) + length apps
     \<and> am_out_dir M' = am_out_dir M \<and> am_rxCbs M' = am_rxCbs M \<and> am_rqDecCbs M' = am_rqDecCbs M"
proof (induction apps arbitrary: M)
  case (Cons a apps)
  then obtain M1 where m: "createApp E addr2node M a = Inr M1" "foldE (createApp E addr2node) M1 apps = Inr M'" by auto
  from createApp_inv [OF m(1) Cons.prems(2)] Cons.IH [OF m(2)] show ?case by simp
qed simp

lemma recs_inv_init: "recs_inv init_AppsManager" "recs_inv (setOutDir d init_AppsManager)"
  by (simp_all add: recs_inv_def init_AppsManager_def setOutDir_def)

lemma recs_inv_ok: "recs_inv M \<Longrightarrow> recs_ok M"
proof -
  assume "recs_inv M"
  then have "ar_app R \<noteq> None" if "am_rec M tag = Some R" for tag R
    using that record_for_fields unfolding recs_inv_def by (metis option.distinct(1))
  then show ?thesis by (simp add: recs_ok_def)
qed

section \<open>Every connection holds at the end\<close>

definition tx_slot :: "AppsManager \<Rightarrow> conn \<Rightarrow> string \<times> AttribNames" where
  "tx_slot M c = (case c of (i, r, j, t) \<Rightarrow> (t, tx_names (rec_of M t) i))"

definition rx_slot :: "AppsManager \<Rightarrow> conn \<Rightarrow> string \<times> AttribNames" where
  "rx_slot M c = (case c of (i, r, j, t) \<Rightarrow> (r, rx_names (rec_of M r) j))"

definition conn_keys :: "AppsManager \<Rightarrow> conn \<Rightarrow> (nat \<times> string) set" where
  "conn_keys M c = (case c of (i, r, j, t) \<Rightarrow>
     end_keys (rec_of M t) (tx_names (rec_of M t) i) \<union> end_keys (rec_of M r) (rx_names (rec_of M r) j))"

lemma run_conns_frame:
  assumes "ns3_contract E"
  shows "run_conns E (rec_of M) k cs S = Inr S' \<Longrightarrow>
    length S' = length S \<and> (\<forall>c. ob_type (S' ! c) = ob_type (S ! c))
    \<and> (\<forall>key. (\<forall>c \<in> set cs. key \<notin> conn_keys M c) \<longrightarrow> store_get key S' = store_get key S)"
proof (induction cs arbitrary: k S)
  case (Cons c cs)
  obtain i r j t where c: "c = (i, r, j, t)" by (cases c) auto
  from Cons.prems obtain S1 where s: "createConn1 E k i (rec_of M r) j (rec_of M t) S = Inr S1"
    "run_conns E (rec_of M) (Suc k) cs S1 = Inr S'" by (auto simp: c)
  from Cons.IH [OF s(2)] createConn1_frame [OF assms s(1)] show ?case by (simp add: c conn_keys_def)
qed simp

text \<open>A record in use has its type, address and application.\<close>

lemma rec_of_used:
  assumes "recs_inv M" and "ar_app (rec_of M t) \<noteq> None"
  obtains ty ip a where "record_for ty ip a = Some (rec_of M t)" "ar_app (rec_of M t) = Some a" "am_rec M t = Some (rec_of M t)"
proof -
  from assms(2) have k: "am_rec M t = Some (rec_of M t)" by (auto simp: rec_of_def zero_record_apps split: option.splits)
  with assms(1) obtain ty ip a where "record_for ty ip a = Some (rec_of M t)" unfolding recs_inv_def by blast
  with record_for_fields [OF this] k that show ?thesis by blast
qed

lemma same_app_tag:
  "recs_inv M \<Longrightarrow> am_rec M t = Some (rec_of M t) \<Longrightarrow> am_rec M t' = Some (rec_of M t') \<Longrightarrow>
   ar_app (rec_of M t) = Some a \<Longrightarrow> ar_app (rec_of M t') = Some a \<Longrightarrow> t = t'"
  unfolding recs_inv_def by metis

lemma end_keys_apps:
  assumes "recs_inv M" and "ar_app (rec_of M x) \<noteq> None" and "ar_app (rec_of M y) \<noteq> None" and "x \<noteq> y"
  shows "end_keys (rec_of M x) n \<inter> end_keys (rec_of M y) m = {}"
proof -
  obtain a where a: "ar_app (rec_of M x) = Some a" "am_rec M x = Some (rec_of M x)" by (rule rec_of_used [OF assms(1,2)])
  obtain b where b: "ar_app (rec_of M y) = Some b" "am_rec M y = Some (rec_of M y)" by (rule rec_of_used [OF assms(1,3)])
  have "a \<noteq> b" using same_app_tag [OF assms(1) a(2) b(2) a(1)] b(1) assms(4) by blast
  then show ?thesis by (auto simp: end_keys_def a b)
qed

lemma end_keys_names: "name_set n \<inter> name_set m = {} \<Longrightarrow> end_keys R n \<inter> end_keys R m = {}"
  by (auto simp: end_keys_def split: option.splits)

lemma conn_keys_disjoint:
  assumes inv: "recs_inv M" and c: "c = (i, r, j, t)" and c': "c' = (i', r', j', t')"
    and used: "ar_app (rec_of M t) \<noteq> None" "ar_app (rec_of M r) \<noteq> None" "ar_app (rec_of M t') \<noteq> None" "ar_app (rec_of M r') \<noteq> None"
    and slots: "tx_slot M c \<noteq> tx_slot M c'" "rx_slot M c \<noteq> rx_slot M c'"
  shows "conn_keys M c \<inter> conn_keys M c' = {}"
proof -
  let ?n = "tx_names (rec_of M t) i" and ?n' = "tx_names (rec_of M t') i'"
    and ?m = "rx_names (rec_of M r) j" and ?m' = "rx_names (rec_of M r') j'"
  have tt: "end_keys (rec_of M t) ?n \<inter> end_keys (rec_of M t') ?n' = {}"
  proof (cases "t = t'")
    case True
    obtain ty ip a where R: "record_for ty ip a = Some (rec_of M t)" by (rule rec_of_used [OF inv used(1)])
    have "?n \<noteq> ?n'" using slots(1) True by (simp add: tx_slot_def c c')
    with tx_slots_disjoint [of ty i i'] record_names(1) [OF R] True show ?thesis by (simp add: end_keys_names)
  qed (rule end_keys_apps [OF inv used(1,3)])
  have rr: "end_keys (rec_of M r) ?m \<inter> end_keys (rec_of M r') ?m' = {}"
  proof (cases "r = r'")
    case True
    obtain ty ip a where R: "record_for ty ip a = Some (rec_of M r)" by (rule rec_of_used [OF inv used(2)])
    have "?m \<noteq> ?m'" using slots(2) True by (simp add: rx_slot_def c c')
    with rx_slots_disjoint [of ty j j'] record_names(2) [OF R] True show ?thesis by (simp add: end_keys_names)
  qed (rule end_keys_apps [OF inv used(2,4)])
  have mixed: "end_keys (rec_of M x) (tx_names (rec_of M x) u) \<inter> end_keys (rec_of M y) (rx_names (rec_of M y) v) = {}"
    if xy: "ar_app (rec_of M x) \<noteq> None" "ar_app (rec_of M y) \<noteq> None" for x y u v
  proof (cases "x = y")
    case True
    obtain ty ip a where R: "record_for ty ip a = Some (rec_of M x)" by (rule rec_of_used [OF inv xy(1)])
    with tx_rx_names [of ty u v] record_names [OF R] True show ?thesis by (simp add: end_keys_names)
  qed (rule end_keys_apps [OF inv xy])
  show ?thesis
    using tt rr mixed [OF used(1,4), of i j'] mixed [OF used(3,2), of i' j]
    unfolding conn_keys_def c c' prod.case by blast
qed

lemma run_conns_used:
  "run_conns E (rec_of M) k cs S = Inr S' \<Longrightarrow> (i, r, j, t) \<in> set cs \<Longrightarrow>
   ar_app (rec_of M r) \<noteq> None \<and> ar_app (rec_of M t) \<noteq> None"
proof (induction cs arbitrary: k S)
  case (Cons c cs)
  obtain i' r' j' t' where c: "c = (i', r', j', t')" by (cases c) auto
  from Cons.prems(1) obtain S1 where s: "createConn1 E k i' (rec_of M r') j' (rec_of M t') S = Inr S1"
    "run_conns E (rec_of M) (Suc k) cs S1 = Inr S'" by (auto simp: c)
  from Cons.IH [OF s(2)] Cons.prems(2) createConn1_apps [OF s(1)] show ?case by (auto simp: c)
qed simp

lemma connected_kept:
  assumes "ns3_contract E" and "createConn1 E k i Rr j Rt S0 = Inr S" and "conn_holds E S Rt i Rr j p"
    and "\<And>key. key \<in> end_keys Rt (tx_names Rt i) \<union> end_keys Rr (rx_names Rr j) \<Longrightarrow> store_get key S' = store_get key S"
    and "\<And>c. ob_type (S' ! c) = ob_type (S ! c)"
  shows "conn_holds E S' Rt i Rr j p"
proof -
  from createConn1_writes [OF assms(1,2)] obtain a b pw where w: "ar_app Rr = Some a" "ar_app Rt = Some b"
    "an_address (tx_names Rt i) \<noteq> ''''" "an_address (rx_names Rr j) \<noteq> '''' \<or> an_port (rx_names Rr j) \<noteq> ''''"
    "proto_step E S0 a b (tx_names Rt i) (rx_names Rr j) pw" by blast
  have tx: "store_get (b, m) S' = store_get (b, m) S" if "m \<in> name_set (tx_names Rt i)" for m
    using that by (intro assms(4)) (simp add: end_keys_def w)
  have rx: "store_get (a, m) S' = store_get (a, m) S" if "m \<in> name_set (rx_names Rr j)" for m
    using that by (intro assms(4)) (simp add: end_keys_def w)
  have "same_protocol E (tx_names Rt i) (S' ! b) (rx_names Rr j) (S' ! a)
      = same_protocol E (tx_names Rt i) (S ! b) (rx_names Rr j) (S ! a)"
  proof (cases "an_proto (tx_names Rt i) = ''''")
    case False
    then have "an_proto (rx_names Rr j) \<noteq> ''''" using w(5) by (simp add: proto_step_def)
    then show ?thesis by (rule same_protocol_cong [OF _ tx rx assms(5) assms(5)])
  qed (simp add: same_protocol_none)
  with assms(3) tx_dest_cong [OF w(3) tx assms(5)] rx_port_cong [OF w(4) rx assms(5)] show ?thesis
    by (simp add: conn_holds_def w)
qed

lemma run_conns_connected:
  assumes E: "ns3_contract E" and inv: "recs_inv M" and run: "run_conns E (rec_of M) k0 cs S = Inr S'"
    and ports: "k0 + length cs + 1001 \<le> 2 ^ 16"
    and d: "distinct (map (tx_slot M) cs)" "distinct (map (rx_slot M) cs)"
    and k: "k < length cs" "cs ! k = (i, r, j, t)"
  shows "conn_holds E S' (rec_of M t) i (rec_of M r) j (k0 + k + 1001)"
proof -
  define pre post where "pre = take k cs" and "post = drop (Suc k) cs"
  have cs: "cs = pre @ (i, r, j, t) # post" using id_take_nth_drop [OF k(1)] k(2) by (simp add: pre_def post_def)
  have lp: "length pre = k" using k(1) by (simp add: pre_def)
  from run obtain S1 S2 where
    s1: "run_conns E (rec_of M) k0 pre S = Inr S1" and
    s2: "createConn1 E (k0 + k) i (rec_of M r) j (rec_of M t) S1 = Inr S2" and
    s3: "run_conns E (rec_of M) (Suc (k0 + k)) post S2 = Inr S'"
    by (auto simp: cs run_conns_append lp)
  from run_conns_used [OF run] have used: "ar_app (rec_of M r') \<noteq> None \<and> ar_app (rec_of M t') \<noteq> None"
    if "(i', r', j', t') \<in> set cs" for i' r' j' t' using that by blast
  have u: "ar_app (rec_of M r) \<noteq> None" "ar_app (rec_of M t) \<noteq> None" using used [of i r j t] cs by auto
  obtain tt ipt b where Rt: "record_for tt ipt b = Some (rec_of M t)" "ar_app (rec_of M t) = Some b" "am_rec M t = Some (rec_of M t)"
    by (rule rec_of_used [OF inv u(2)])
  obtain tr ipr a where Rr: "record_for tr ipr a = Some (rec_of M r)" "ar_app (rec_of M r) = Some a" "am_rec M r = Some (rec_of M r)"
    by (rule rec_of_used [OF inv u(1)])
  have same: "a = b \<longrightarrow> tt = tr"
  proof
    assume "a = b"
    with same_app_tag [OF inv Rt(3) Rr(3) Rt(2)] Rr(2) have "t = r" by simp
    with record_for_fields [OF Rt(1)] record_for_fields [OF Rr(1)] show "tt = tr" by simp
  qed
  have ra: "record_for tt ipt b = Some (rec_of M t)" "record_for tr ipr a = Some (rec_of M r)" using Rt(1) Rr(1) .
  have "k0 + k + 1001 < 2 ^ 16" using ports k(1) by simp
  from createConn1_connected [OF E s2 this ra same]
  have conn: "conn_holds E S2 (rec_of M t) i (rec_of M r) j (k0 + k + 1001)" .
  note fr = run_conns_frame [OF E s3]
  have "store_get key S' = store_get key S2" if key: "key \<in> conn_keys M (i, r, j, t)" for key
  proof -
    have "key \<notin> conn_keys M c'" if "c' \<in> set post" for c'
    proof -
      obtain i' r' j' t' where c': "c' = (i', r', j', t')" by (cases c') auto
      have m: "c' \<in> set cs" using that cs by simp
      have "tx_slot M (i, r, j, t) \<noteq> tx_slot M c'" "rx_slot M (i, r, j, t) \<noteq> rx_slot M c'"
        using d that by (auto simp: cs)
      with conn_keys_disjoint [OF inv refl c' u(2,1)] used [OF m [unfolded c']] key show ?thesis by blast
    qed
    with fr show ?thesis by blast
  qed
  with connected_kept [OF E s2 conn] fr show ?thesis by (simp add: conn_keys_def)
qed

lemma app_set_length: "app_set E p n v S = Inr S' \<Longrightarrow> length S' = length S"
  by (auto simp: app_set_Inr)

lemma createConn1_length:
  assumes "createConn1 E k i Rr j Rt S = Inr S'"
  shows "length S' = length S"
proof -
  from assms obtain S1 S2 where
    s: "match_protocols E Rt (tx_names Rt i) Rr (rx_names Rr j) S = Inr S1"
    "set_sender E (k + 1001) (ar_host_ip Rr) Rt (tx_names Rt i) S1 = Inr S2"
    "set_receiver E (k + 1001) Rr (rx_names Rr j) S2 = Inr S'"
    by (auto simp: createConn1_def Let_def)
  have "length S1 = length S"
    using s(1) by (cases "an_proto (tx_names Rt i) = ''''") (auto simp: match_protocols_def dest: app_set_length)
  moreover have "length S2 = length S1"
    using s(2) by (cases "an_port (tx_names Rt i) = ''''") (auto simp: set_sender_def dest!: app_set_length)
  moreover have "length S' = length S2"
    using s(3) by (cases "an_port (rx_names Rr j) = ''''"; cases "an_address (rx_names Rr j) = ''''")
      (auto simp: set_receiver_def dest!: app_set_length)
  ultimately show ?thesis by simp
qed

lemma run_conns_length: "run_conns E rc k cs S = Inr S' \<Longrightarrow> length S' = length S"
proof (induction cs arbitrary: k S)
  case (Cons c cs)
  obtain i r j t where c: "c = (i, r, j, t)" by (cases c) auto
  from Cons.prems obtain S1 where "createConn1 E k i (rc r) j (rc t) S = Inr S1" "run_conns E rc (Suc k) cs S1 = Inr S'"
    by (auto simp: c)
  with Cons.IH createConn1_length show ?case by metis
qed simp

lemma createApps_run:
  assumes "createApps E addr2node cfg M0 = Inr M" and "recs_inv M0" and "list_all (\<lambda>c. senders c \<noteq> []) (cfg_conns cfg)"
  shows "\<exists>S. recs_inv M \<and> sinks_added M0 0 M (length (all_conns (cfg_conns cfg)))
    \<and> run_conns E (rec_of M) 0 (all_conns (cfg_conns cfg)) S = Inr (am_store M)"
proof -
  from assms(1) obtain M1 k' where
    m: "foldE (createApp E addr2node) M0 (cfg_apps cfg) = Inr M1" "connect_all E 0 (cfg_conns cfg) (M1, 0) = Inr (M, k')"
    by (auto simp: createApps_def)
  from createApps_phase1 [OF m(1) assms(2)] have
    p: "recs_inv M1" "am_out_dir M1 = am_out_dir M0" "am_rxCbs M1 = am_rxCbs M0" "am_rqDecCbs M1 = am_rqDecCbs M0" by auto
  from connect_all_run [OF recs_inv_ok [OF p(1)] assms(3) m(2)] have
    c: "same_apps M1 M" "sinks_added M1 0 M (length (all_conns (cfg_conns cfg)))"
      "run_conns E (rec_of M1) 0 (all_conns (cfg_conns cfg)) (am_store M1) = Inr (am_store M)" by auto
  note len = run_conns_length [OF c(3)]
  have "recs_inv M" using p(1) c(1) len unfolding recs_inv_def same_apps_def by simp
  moreover have "sinks_added M0 0 M (length (all_conns (cfg_conns cfg)))"
    using c(2) p(2-4) by (simp add: sinks_added_def)
  ultimately show ?thesis using c(3) same_apps_rec [OF c(1)] by auto
qed

text \<open>
  C8. When \<open>createApps\<close> succeeds, every connection of the configuration holds in the end: the sender's
  attributes send to the host of the receiver at port 1001 plus the number of the connection, the
  receiver listens on that port, and the receiver uses the sender's protocol. This is so for any mix
  of one-to-one, one-to-many and many-to-one statements, as long as no end point of an application
  is used by two connections and the ports fit 16 bits.
\<close>

theorem connections_agree:
  assumes "ns3_contract E" and "createApps E addr2node cfg (setOutDir d init_AppsManager) = Inr M"
    and "list_all (\<lambda>c. senders c \<noteq> []) (cfg_conns cfg)" and "cs = all_conns (cfg_conns cfg)"
    and "length cs + 1001 \<le> 2 ^ 16"
    and "distinct (map (tx_slot M) cs)" and "distinct (map (rx_slot M) cs)"
    and "k < length cs" and "cs ! k = (i, r, j, t)"
  shows "conn_holds E (am_store M) (rec_of M t) i (rec_of M r) j (1001 + k)"
proof -
  from createApps_run [OF assms(2) recs_inv_init(2) assms(3)] assms(4) obtain S where
    "recs_inv M" "run_conns E (rec_of M) 0 cs S = Inr (am_store M)" by auto
  from run_conns_connected [OF assms(1) this, of k i r j t] assms(5-9) show ?thesis by (simp add: add.commute)
qed

definition example_ns3 :: ns3_env where
  "example_ns3 = \<lparr>ns3_attr = (\<lambda>_ _. False), ns3_init = (\<lambda>_ _. UintegerValue 0), coerce = (\<lambda>_ _ v. Some v),
     can_open = (\<lambda>_. True),
     no_decode_info = \<lparr>i_sbid = 0, i_success = False, i_n_rcv = 0, i_n_src_rcv = 0, i_slotinfo = [], i_n_slots = 0\<rparr>\<rparr>"

definition example_app :: "string \<Rightarrow> AppType \<Rightarrow> AppConfig" where
  "example_app t ty = \<lparr>app_tag = t, app_type = ty, app_ip = 7, app_attribs = []\<rparr>"

definition example_cfg :: AppsCompleteConfig where
  "example_cfg = \<lparr>cfg_apps = [example_app ''s1'' APP_STREAMING_SERVER, example_app ''s2'' APP_STREAMING_SERVER,
       example_app ''enc'' APP_RQ_ENCODER, example_app ''c'' APP_CLIENT],
     cfg_conns = [\<lparr>senders = [''s1'', ''s2''], receivers = [''enc'']\<rparr>, \<lparr>senders = [''enc''], receivers = [''c'']\<rparr>]\<rparr>"

definition example_create :: "cfg_error + AppsManager" where
  "example_create = createApps example_ns3 (\<lambda>ip. Some (unat ip)) example_cfg (setOutDir ''out'' init_AppsManager)"

lemma case_sum_InrE: "(case x of Inl _ \<Rightarrow> False | Inr y \<Rightarrow> P y) \<Longrightarrow> (\<And>y. x = Inr y \<Longrightarrow> P y \<Longrightarrow> thesis) \<Longrightarrow> thesis"
  by (cases x) simp_all

lemma example_create_ok:
  "case example_create of Inl _ \<Rightarrow> False
   | Inr M \<Rightarrow> distinct (map (tx_slot M) (all_conns (cfg_conns example_cfg)))
       \<and> distinct (map (rx_slot M) (all_conns (cfg_conns example_cfg)))"
  by code_simp

lemma example_contract: "ns3_contract example_ns3"
  by (simp add: ns3_contract_def example_ns3_def)

theorem connections_agree_witness:
  "\<exists>M. example_create = Inr M
     \<and> conn_holds example_ns3 (am_store M) (rec_of M ''s2'') 0 (rec_of M ''enc'') 1 1002
     \<and> conn_holds example_ns3 (am_store M) (rec_of M ''enc'') 0 (rec_of M ''c'') 0 1003"
proof -
  obtain M where M: "example_create = Inr M" "distinct (map (tx_slot M) (all_conns (cfg_conns example_cfg)))"
    "distinct (map (rx_slot M) (all_conns (cfg_conns example_cfg)))"
    by (rule case_sum_InrE [OF example_create_ok]) blast
  have c: "all_conns (cfg_conns example_cfg)
      = [(0, ''enc'', 0, ''s1''), (0, ''enc'', 1, ''s2''), (0, ''c'', 0, ''enc'')]"
    and s: "list_all (\<lambda>c. senders c \<noteq> []) (cfg_conns example_cfg)"
    by (simp_all add: all_conns_def stmt_conns_def receiver_conns_def example_cfg_def)
  note agree = connections_agree [OF example_contract M(1) [unfolded example_create_def] s refl _ M(2,3), unfolded c]
  show ?thesis
    using M(1) agree [of 1 0 "''enc''" 1 "''s2''"] agree [of 2 0 "''c''" 0 "''enc''"]
    by (intro exI [of _ M]) simp
qed

section \<open>Trace files\<close>

lemma digits_val_zeros: "digits_val 0 (replicate n (CHR ''0'') @ s) = digits_val 0 s"
  by (induction n) (simp_all add: digit_val_def)

lemma pad3_inj: "pad3 m = pad3 n \<longleftrightarrow> m = n"
proof
  assume "pad3 m = pad3 n"
  then have "digits_val 0 (pad3 m) = digits_val 0 (pad3 n)" by simp
  then show "m = n" by (simp add: pad3_def digits_val_zeros)
qed simp

lemma trace_name_inj: "trace_name d kind m = trace_name d kind n \<longleftrightarrow> m = n"
  by (simp add: trace_name_def pad3_inj)

lemma trace_name_kinds:
  "trace_name d ''rx'' m \<noteq> trace_name d ''pl'' n" "trace_name d ''pl'' m \<noteq> trace_name d ''rqdec'' n"
  "trace_name d ''rx'' m \<noteq> trace_name d ''rqdec'' n"
  by (simp_all add: trace_name_def)

text \<open>
  C26. No two trace files have the same name: each receiver of each connection statement has its own
  byte trace, loss trace and decoding trace, so that no trace overwrites another.
\<close>

theorem trace_files_distinct:
  assumes "createApps E addr2node cfg (setOutDir d init_AppsManager) = Inr M"
    and "list_all (\<lambda>c. senders c \<noteq> []) (cfg_conns cfg)"
  shows "distinct (map rs_rx_name (am_rxCbs M) @ map rs_pl_name (am_rxCbs M) @ map ds_name (am_rqDecCbs M))"
proof -
  from createApps_run [OF assms(1) recs_inv_init(2) assms(2)] obtain ns js where
    n: "map rs_rx_name (am_rxCbs M) = map (trace_name d ''rx'') ns"
    "map rs_pl_name (am_rxCbs M) = map (trace_name d ''pl'') ns"
    "map ds_name (am_rqDecCbs M) = map (trace_name d ''rqdec'') js"
    "sorted_wrt (<) ns" "sorted_wrt (<) js"
    by (auto simp: sinks_added_def init_AppsManager_def setOutDir_def)
  have "distinct ns" "distinct js" using n(4,5) by (simp_all add: strict_sorted_iff)
  then show ?thesis
    unfolding n by (auto simp: distinct_map inj_on_def trace_name_inj trace_name_kinds trace_name_kinds [symmetric])
qed

theorem trace_files_distinct_witness:
  "\<exists>M. example_create = Inr M \<and> map rs_rx_name (am_rxCbs M) \<noteq> []
     \<and> distinct (map rs_rx_name (am_rxCbs M) @ map rs_pl_name (am_rxCbs M) @ map ds_name (am_rqDecCbs M))"
proof -
  have "case example_create of Inl _ \<Rightarrow> False | Inr M \<Rightarrow> map rs_rx_name (am_rxCbs M) \<noteq> []" by code_simp
  then obtain M where M: "example_create = Inr M" "map rs_rx_name (am_rxCbs M) \<noteq> []" by (rule case_sum_InrE)
  have "list_all (\<lambda>c. senders c \<noteq> []) (cfg_conns example_cfg)" by (simp add: example_cfg_def)
  from trace_files_distinct [OF M(1) [unfolded example_create_def] this] M show ?thesis by blast
qed

end
