(* ===== verification/Apps_Created.thy ===== *)
theory Apps_Created
  imports Apps_Connect Mesh_Plan
begin

text \<open>
  More on \<open>AppsManager\<close>: the attribute and trace names the manager uses exist in the classes of the
  repository, every application is created on the host of its address, and what happens to a
  connection of a tag that no application has.
\<close>

section \<open>The names the manager uses\<close>

definition own_types :: "AppType list" where
  "own_types = [APP_FILE_SERVER, APP_STREAMING_SERVER, APP_CLIENT, APP_TIMED_PROXY, APP_RQ_ENCODER, APP_RQ_DECODER]"

lemmas attribute_tables = BulkSend_attributes_def OnOff_attributes_def PacketSink_attributes_def
  TimedProxy_attributes_def RqEncoder_attributes_def RqDecoder_attributes_def ProxyBase_attributes_def
  SetTidDefaultProtocols_def

lemmas trace_tables = BulkSend_trace_sources_def OnOff_trace_sources_def PacketSink_trace_sources_def
  ProxyBase_trace_sources_def RqDecoder_trace_sources_def

definition names_exist :: "AppType \<Rightarrow> AttribNames \<Rightarrow> bool" where
  "names_exist ty n = list_all (\<lambda>s. s = '''' \<or> s \<in> set (map fst (registered ty))) [an_proto n, an_address n, an_port n]"

text \<open>The names of the attributes of a proxy: its own and those of its slots.\<close>

definition slot_attributes :: "string list" where
  "slot_attributes = concat (map (\<lambda>p. map (\<lambda>i. p @ dec_nat i) [0..<8]) [''ProtocolRx'', ''ProtocolTx'', ''RxAddr'', ''TxAddr''])"

lemma proxy_names:
  "map fst (registered APP_TIMED_PROXY) = [''DataRate'', ''SliceWidthMS'', ''SliceTaperMS'', ''nSlices'', ''ActiveMap''] @ slot_attributes"
  "map fst (registered APP_RQ_ENCODER) = [''Tval'', ''Kval'', ''Nval'', ''DataRate''] @ slot_attributes"
  "map fst (registered APP_RQ_DECODER) = [''Tval'', ''Kval'', ''Nval''] @ slot_attributes"
  by (simp_all add: attribute_tables slot_attributes_def comp_def)

lemma slot_attributes_iff:
  "''RxAddr'' @ dec_nat i \<in> set slot_attributes \<longleftrightarrow> i < 8" "''TxAddr'' @ dec_nat i \<in> set slot_attributes \<longleftrightarrow> i < 8"
  "''ProtocolRx'' @ dec_nat i \<in> set slot_attributes \<longleftrightarrow> i < 8" "''ProtocolTx'' @ dec_nat i \<in> set slot_attributes \<longleftrightarrow> i < 8"
  by (auto simp: slot_attributes_def image_iff dec_nat_inj)

lemma slot_names:
  assumes "ty \<in> {APP_TIMED_PROXY, APP_RQ_ENCODER, APP_RQ_DECODER}"
  shows "''RxAddr'' @ dec_nat i \<in> set (map fst (registered ty)) \<longleftrightarrow> i < 8"
    and "''TxAddr'' @ dec_nat i \<in> set (map fst (registered ty)) \<longleftrightarrow> i < 8"
    and "''ProtocolRx'' @ dec_nat i \<in> set (map fst (registered ty)) \<longleftrightarrow> i < 8"
    and "''ProtocolTx'' @ dec_nat i \<in> set (map fst (registered ty)) \<longleftrightarrow> i < 8"
  using assms slot_attributes_iff [of i] by (elim insertE emptyE; simp add: proxy_names del: set_map registered.simps)+

lemma dec_nat_0: "dec_nat 0 = ''0''"
  by code_simp

lemma plain_names:
  "''Protocol'' \<in> set (map fst (registered APP_FILE_SERVER))" "''Remote'' \<in> set (map fst (registered APP_FILE_SERVER))"
  "''Protocol'' \<in> set (map fst (registered APP_STREAMING_SERVER))" "''Remote'' \<in> set (map fst (registered APP_STREAMING_SERVER))"
  "''Protocol'' \<in> set (map fst (registered APP_CLIENT))" "''Local'' \<in> set (map fst (registered APP_CLIENT))"
  by (simp_all add: attribute_tables)

lemma slot0_names:
  assumes "ty \<in> {APP_TIMED_PROXY, APP_RQ_ENCODER, APP_RQ_DECODER}"
  shows "''RxAddr0'' \<in> set (map fst (registered ty))" "''TxAddr0'' \<in> set (map fst (registered ty))"
    "''ProtocolRx0'' \<in> set (map fst (registered ty))" "''ProtocolTx0'' \<in> set (map fst (registered ty))"
  using slot_names [OF assms, of 0] by (simp_all add: dec_nat_0)

lemma record_flags:
  assumes "record_for ty ip a = Some R"
  shows "ar_TxMultiple R = (ty = APP_RQ_DECODER)" "ar_RxMultiple R = (ty = APP_RQ_ENCODER)"
    "ar_has_rx_trace R = (ty \<in> {APP_CLIENT, APP_TIMED_PROXY, APP_RQ_ENCODER, APP_RQ_DECODER})"
    "ar_has_rq_decoder_trace R = (ty = APP_RQ_DECODER)"
  using assms by (cases ty; force simp: record_for_def zero_record_def)+

text \<open>
  C28. The manager is well-typed against the classes of the repository: for every application it can
  create from them, the attributes that a connection reads and writes through the record are
  registered by the class for each of the eight slots, the templates of an encoder's inputs and of
  a decoder's outputs name no attribute from the ninth on, and the trace sources that the manager
  connects to exist.
\<close>

theorem manager_names_registered:
  assumes "ty \<in> set own_types" and "record_for ty ip a = Some R"
  shows "(i < 8 \<longrightarrow> names_exist ty (tx_names R i) \<and> names_exist ty (rx_names R i))
    \<and> (8 \<le> i \<longrightarrow> (ar_TxMultiple R \<longrightarrow> \<not> names_exist ty (tx_names R i)) \<and> (ar_RxMultiple R \<longrightarrow> \<not> names_exist ty (rx_names R i)))
    \<and> (ar_has_rx_trace R \<longrightarrow> ''Rx'' \<in> set (trace_sources ty))
    \<and> (ar_has_rq_decoder_trace R \<longrightarrow> ''RqDecodingEvent'' \<in> set (trace_sources ty))"
proof -
  have R: "tx_names R i = tx_table ty i" "rx_names R i = rx_table ty i" using record_names [OF assms(2)] by blast+
  note flags = record_flags [OF assms(2)]
  consider (plain) "ty \<in> {APP_FILE_SERVER, APP_STREAMING_SERVER, APP_CLIENT}"
    | (proxy) "ty \<in> {APP_TIMED_PROXY, APP_RQ_ENCODER, APP_RQ_DECODER}" using assms(1) by (auto simp: own_types_def)
  then show ?thesis
  proof cases
    case plain
    then show ?thesis
      using plain_names
      by (elim insertE emptyE; simp add: R flags names_exist_def names_def trace_tables del: set_map registered.simps)
  next
    case proxy
    note slots = slot_names [OF proxy] slot0_names [OF proxy]
    from proxy show ?thesis
      by (elim insertE emptyE; insert slots; simp add: R flags names_exist_def names_def trace_tables del: set_map registered.simps)
  qed
qed

theorem manager_names_registered_witness:
  "\<exists>R. record_for APP_RQ_ENCODER 7 0 = Some R \<and> names_exist APP_RQ_ENCODER (rx_names R 7) \<and> \<not> names_exist APP_RQ_ENCODER (rx_names R 8)"
proof -
  obtain R where R: "record_for APP_RQ_ENCODER 7 0 = Some R" "ar_RxMultiple R" by (simp add: record_for_def)
  have t: "APP_RQ_ENCODER \<in> set own_types" by (simp add: own_types_def)
  from manager_names_registered [OF t R(1), of 7] manager_names_registered [OF t R(1), of 8] R show ?thesis by auto
qed

section \<open>Applications and their hosts\<close>

lemma createApps_hosts:
  "foldE (createApp E addr2node) M apps = Inr M' \<Longrightarrow>
   \<exists>hosts. am_hosts M' = am_hosts M @ zip hosts [length (am_store M)..<length (am_store M) + length apps]
     \<and> map Some hosts = map (\<lambda>a. addr2node (app_ip a)) apps
     \<and> distinct (map app_tag apps) \<and> set (map app_tag apps) \<inter> dom (am_rec M) = {}
     \<and> dom (am_rec M') = dom (am_rec M) \<union> set (map app_tag apps)
     \<and> (\<forall>t \<in> dom (am_rec M). am_rec M' t = am_rec M t)
     \<and> (\<forall>k < length apps. am_rec M' (app_tag (apps ! k)) =
          record_for (app_type (apps ! k)) (app_ip (apps ! k)) (length (am_store M) + k))"
proof (induction apps arbitrary: M)
  case (Cons a apps)
  then obtain M1 where m: "createApp E addr2node M a = Inr M1" "foldE (createApp E addr2node) M1 apps = Inr M'" by auto
  from m(1) obtain R S host where c: "record_for (app_type a) (app_ip a) (length (am_store M)) = Some R"
    "setAppAttribs E (Some (length (am_store M))) (app_attribs a)
       (am_store M @ [\<lparr>ob_type = app_type a, ob_attrs = Map.empty\<rparr>]) = Inr S"
    "am_rec M (app_tag a) = None" "addr2node (app_ip a) = Some host"
    "M1 = M\<lparr>am_store := S, am_rec := (am_rec M)(app_tag a \<mapsto> R), am_hosts := am_hosts M @ [(host, length (am_store M))]\<rparr>"
    by (rule createApp_Inr)
  have len: "length (am_store M1) = Suc (length (am_store M))" using setAppAttribs_length [OF c(2)] c(5) by simp
  from Cons.IH [OF m(2)] obtain hosts where h:
    "am_hosts M' = am_hosts M1 @ zip hosts [length (am_store M1)..<length (am_store M1) + length apps]"
    "map Some hosts = map (\<lambda>a. addr2node (app_ip a)) apps"
    "distinct (map app_tag apps)" "set (map app_tag apps) \<inter> dom (am_rec M1) = {}"
    "dom (am_rec M') = dom (am_rec M1) \<union> set (map app_tag apps)"
    "\<forall>t \<in> dom (am_rec M1). am_rec M' t = am_rec M1 t"
    "\<forall>k < length apps. am_rec M' (app_tag (apps ! k)) =
          record_for (app_type (apps ! k)) (app_ip (apps ! k)) (length (am_store M1) + k)" by blast
  have d1: "dom (am_rec M1) = insert (app_tag a) (dom (am_rec M))" by (auto simp: c(5))
  have r0: "am_rec M' (app_tag a) = Some R" using h(6) d1 by (simp add: c(5))
  show ?case
  proof (intro exI [of _ "host # hosts"] conjI allI impI ballI)
    show "am_hosts M' = am_hosts M @ zip (host # hosts) [length (am_store M)..<length (am_store M) + length (a # apps)]"
      using h(1) len by (simp add: c(5) upt_conv_Cons del: upt_Suc)
    show "map Some (host # hosts) = map (\<lambda>a. addr2node (app_ip a)) (a # apps)" using h(2) c(4) by simp
    show "distinct (map app_tag (a # apps))" "set (map app_tag (a # apps)) \<inter> dom (am_rec M) = {}"
      using h(3,4) d1 c(3) by auto
    show "dom (am_rec M') = dom (am_rec M) \<union> set (map app_tag (a # apps))" using h(5) d1 by simp
    show "am_rec M' t = am_rec M t" if "t \<in> dom (am_rec M)" for t
      using h(6) d1 that c(3) by (auto simp: c(5))
    show "am_rec M' (app_tag ((a # apps) ! k)) =
          record_for (app_type ((a # apps) ! k)) (app_ip ((a # apps) ! k)) (length (am_store M) + k)" if "k < length (a # apps)" for k
      using that h(7) r0 c(1) len by (cases k) simp_all
  qed
qed simp

lemma createApps_same:
  assumes "createApps E addr2node cfg M0 = Inr M" and "recs_inv M0" and "list_all (\<lambda>c. senders c \<noteq> []) (cfg_conns cfg)"
  obtains M1 where "foldE (createApp E addr2node) M0 (cfg_apps cfg) = Inr M1" "am_hosts M = am_hosts M1" "am_rec M = am_rec M1"
proof -
  from assms(1) obtain M1 k' where
    m: "foldE (createApp E addr2node) M0 (cfg_apps cfg) = Inr M1" "connect_all E 0 (cfg_conns cfg) (M1, 0) = Inr (M, k')"
    by (auto simp: createApps_def)
  from createApps_phase1 [OF m(1) assms(2)] have "recs_inv M1" by blast
  from connect_all_run [OF recs_inv_ok [OF this] assms(3) m(2)] have "same_apps M1 M" by blast
  with that m(1) show thesis by (auto simp: same_apps_def)
qed

lemma InstallApps_hosts:
  assumes "InstallApps N E S = Inr S'" and "appsMgr S = init_AppsManager"
    and "apps = cfg_apps (appsCfg S)" and "list_all (\<lambda>c. senders c \<noteq> []) (cfg_conns (appsCfg S))"
  shows "distinct (map app_tag apps)
    \<and> map (\<lambda>a. node_at N S (app_ip a)) apps = map Some (map fst (am_hosts (appsMgr S')))
    \<and> map snd (am_hosts (appsMgr S')) = [0..<length apps]
    \<and> dom (am_rec (appsMgr S')) = set (map app_tag apps)
    \<and> (\<forall>k < length apps. am_rec (appsMgr S') (app_tag (apps ! k)) = record_for (app_type (apps ! k)) (app_ip (apps ! k)) k)"
proof -
  let ?M0 = "setOutDir (outDir S) init_AppsManager"
  let ?host = "\<lambda>ip. map_option (dev_node N (net S)) (map_of (addr2netdev N S) ip)"
  from assms(1,2) have c: "createApps E ?host (appsCfg S) ?M0 = Inr (appsMgr S')"
    by (auto simp: InstallApps_def Let_def)
  from createApps_same [OF c recs_inv_init(2) assms(4)] obtain M1 where
    M1: "foldE (createApp E ?host) ?M0 apps = Inr M1" "am_hosts (appsMgr S') = am_hosts M1" "am_rec (appsMgr S') = am_rec M1"
    using assms(3) by blast
  from createApps_hosts [OF M1(1)] obtain hosts where h:
    "am_hosts M1 = zip hosts [0..<length apps]" "map Some hosts = map (\<lambda>a. ?host (app_ip a)) apps"
    "distinct (map app_tag apps)" "dom (am_rec M1) = set (map app_tag apps)"
    "\<forall>k < length apps. am_rec M1 (app_tag (apps ! k)) = record_for (app_type (apps ! k)) (app_ip (apps ! k)) k"
    by (auto simp: setOutDir_def init_AppsManager_def)
  have "length hosts = length apps" using h(2) by (metis length_map)
  with h M1(2,3) show ?thesis by (simp add: node_at_def)
qed

text \<open>
  C16. When \<open>InstallApps\<close> succeeds, the applications of the configuration have pairwise different tags,
  each is installed on the node that owns its address, in the order of the configuration, the record
  of a tag describes its own application, and no other tag has a record: every tag of a connection
  is the tag of an application.
\<close>

theorem apps_on_their_hosts:
  assumes "InstallApps N E S = Inr S'" and "appsMgr S = init_AppsManager"
    and "apps = cfg_apps (appsCfg S)" and "list_all (\<lambda>c. senders c \<noteq> []) (cfg_conns (appsCfg S))"
  shows "distinct (map app_tag apps)
    \<and> map (\<lambda>a. node_at N S (app_ip a)) apps = map Some (map fst (am_hosts (appsMgr S')))
    \<and> map snd (am_hosts (appsMgr S')) = [0..<length apps]
    \<and> dom (am_rec (appsMgr S')) = set (map app_tag apps)
    \<and> (\<forall>k < length apps. am_rec (appsMgr S') (app_tag (apps ! k)) = record_for (app_type (apps ! k)) (app_ip (apps ! k)) k)"
  by (rule InstallApps_hosts [OF assms])

definition example_hosts :: "(int, example_net) MeshSim" where
  "example_hosts = example_sim\<lparr>appsCfg := \<lparr>cfg_apps = [example_app ''s'' APP_STREAMING_SERVER, example_app ''c'' APP_CLIENT],
       cfg_conns = [\<lparr>senders = [''s''], receivers = [''c'']\<rparr>]\<rparr>,
     backhaulP2pInterfaces := [(0, 0)], net := \<lparr>en_nodes = 5, en_devs = [(4, None)], en_ifs = [(4, 0, 7)]\<rparr>\<rparr>"

lemma example_hosts_ok:
  "case createApps example_ns3 (\<lambda>ip. map_option (dev_node example_topology (net example_hosts))
       (map_of (addr2netdev example_topology example_hosts) ip)) (appsCfg example_hosts)
     (setOutDir (outDir example_hosts) init_AppsManager) of Inl _ \<Rightarrow> False | Inr _ \<Rightarrow> True"
  by code_simp

theorem apps_on_their_hosts_witness:
  "\<exists>S'. InstallApps example_topology example_ns3 example_hosts = Inr S'
     \<and> map Some (map fst (am_hosts (appsMgr S'))) = [Some 4, Some 4] \<and> dom (am_rec (appsMgr S')) = {''s'', ''c''}"
proof -
  have m: "appsMgr example_hosts = init_AppsManager" by (simp add: example_hosts_def example_sim_def init_MeshSim_def)
  from example_hosts_ok m obtain S' where S': "InstallApps example_topology example_ns3 example_hosts = Inr S'"
    by (auto simp: InstallApps_def Let_def split: sum.splits)
  have a: "cfg_apps (appsCfg example_hosts) = [example_app ''s'' APP_STREAMING_SERVER, example_app ''c'' APP_CLIENT]"
    and s: "list_all (\<lambda>c. senders c \<noteq> []) (cfg_conns (appsCfg example_hosts))" by (simp_all add: example_hosts_def)
  have "node_at example_topology example_hosts 7 = Some 4" by code_simp
  with apps_on_their_hosts [OF S' m refl s] show ?thesis
    unfolding a by (intro exI [of _ S']) (simp add: S' example_app_def)
qed

section \<open>Tags that no application has\<close>

text \<open>
  A connection from a tag that no application has is not reported: the look-up creates an empty
  record for it, and making the connection fails an assertion, whatever the receiver is.
\<close>

theorem undefined_sender_aborts:
  assumes "foldE (createApp E addr2node) (setOutDir d init_AppsManager) (cfg_apps cfg) = Inr M1"
    and "cfg_conns cfg = c # cs" and "senders c = [t]" and "receivers c = [r]"
    and "t \<notin> set (map app_tag (cfg_apps cfg))"
  shows "createApps E addr2node cfg (setOutDir d init_AppsManager) = Inl (Crash AssertFail)"
proof -
  from createApps_hosts [OF assms(1)] assms(5) have t: "am_rec M1 t = None"
    by (auto simp: setOutDir_def init_AppsManager_def domIff)
  obtain Rr M2 where r: "rec_at r M1 = (Rr, M2)" by fastforce
  have "fst (rec_at t M2) = zero_record"
    using r t by (auto simp: rec_at_def split: option.splits if_splits)
  then obtain M3 where t2: "rec_at t M2 = (zero_record, M3)" by (metis prod.collapse)
  have "createConn1 E 0 0 Rr 0 zero_record (am_store M3) = Inl AssertFail"
    by (simp add: createConn1_def Let_def tx_names_def zero_record_def no_names_def match_protocols_def set_sender_def)
  then have "createConns E 0 c (M1, 0) = Inl (Crash AssertFail)"
    using assms(3,4) r t2 by (simp add: createConns_def Let_def or_crash_def)
  then show ?thesis using assms(1,2) by (simp add: createApps_def)
qed

definition example_undefined :: AppsCompleteConfig where
  "example_undefined = \<lparr>cfg_apps = [example_app ''c'' APP_CLIENT], cfg_conns = [\<lparr>senders = [''s''], receivers = [''c'']\<rparr>]\<rparr>"

theorem undefined_sender_aborts_witness:
  "createApps example_ns3 (\<lambda>ip. Some (unat ip)) example_undefined (setOutDir ''out'' init_AppsManager) = Inl (Crash AssertFail)"
proof -
  have "case foldE (createApp example_ns3 (\<lambda>ip. Some (unat ip))) (setOutDir ''out'' init_AppsManager) (cfg_apps example_undefined)
      of Inl _ \<Rightarrow> False | Inr _ \<Rightarrow> True" by code_simp
  then obtain M1 where
    m: "foldE (createApp example_ns3 (\<lambda>ip. Some (unat ip))) (setOutDir ''out'' init_AppsManager) (cfg_apps example_undefined) = Inr M1"
    by (auto split: sum.splits)
  show ?thesis
    by (rule undefined_sender_aborts [OF m, of "\<lparr>senders = [''s''], receivers = [''c'']\<rparr>" "[]" "''s''" "''c''"])
      (simp_all add: example_undefined_def example_app_def)
qed

end
