(* ===== verification/Apps_Accepted.thy ===== *)
theory Apps_Accepted
  imports Apps_Created
begin

text \<open>
  Which configurations \<open>AppsManager\<close> accepts. A configuration whose applications exist on hosts of
  the network, with attributes their classes take, and whose connections lead from applications that
  send to applications that receive is never refused and never aborts the program.
\<close>

section \<open>Values by kind\<close>

fun is_address :: "attr_value \<Rightarrow> bool" where
  "is_address (AddressValue _) = True"
| "is_address _ = False"

fun is_tid :: "attr_value \<Rightarrow> bool" where
  "is_tid (TypeIdValue _) = True"
| "is_tid _ = False"

text \<open>What the checkers of ns-3 promise: an attribute of addresses takes every address, an attribute of
  type ids takes every type id and holds nothing else.\<close>

definition kind_contract :: "ns3_env \<Rightarrow> bool" where
  "kind_contract E \<longleftrightarrow> (\<forall>ty n init c v. map_of (registered ty) n = Some (init, c) \<longrightarrow>
     (is_address init \<and> is_address v \<longrightarrow> coerce E ty n v = Some v) \<and> (is_tid init \<and> is_tid v \<longrightarrow> coerce E ty n v = Some v)
     \<and> (\<forall>w. is_tid init \<and> coerce E ty n v = Some w \<longrightarrow> is_tid w))"

definition store_typed :: "store \<Rightarrow> bool" where
  "store_typed S \<longleftrightarrow> (\<forall>a < length S. \<forall>n init c w. map_of (registered (ob_type (S ! a))) n = Some (init, c) \<longrightarrow>
     is_tid init \<longrightarrow> ob_attrs (S ! a) n = Some w \<longrightarrow> is_tid w)"

text \<open>A later store with the same objects.\<close>

definition store_kept :: "store \<Rightarrow> store \<Rightarrow> bool" where
  "store_kept S S' \<longleftrightarrow> length S' = length S \<and> map ob_type S' = map ob_type S \<and> store_typed S'"

lemma store_kept_type: "store_kept S S' \<Longrightarrow> a < length S \<Longrightarrow> ob_type (S' ! a) = ob_type (S ! a)"
  unfolding store_kept_def by (metis nth_map)

lemma store_kept_trans: "store_kept S S' \<Longrightarrow> store_kept S' S'' \<Longrightarrow> store_kept S S''"
  by (simp add: store_kept_def)

lemma app_set_kept:
  assumes "kind_contract E" and "store_typed S" and "app_set E (Some a) n v S = Inr S'"
  shows "store_kept S S'"
proof -
  from assms(3) obtain w where w: "a < length S" "coerce E (ob_type (S ! a)) n v = Some w"
    "S' = S[a := (S ! a)\<lparr>ob_attrs := (ob_attrs (S ! a))(n \<mapsto> w)\<rparr>]"
    by (auto simp: app_set_def SetAttribute_def deref_Inr split: option.splits if_splits)
  have "map ob_type S' = map ob_type S"
    using w(1) by (simp add: w(3) map_update list_update_same_conv)
  moreover have "store_typed S'"
    unfolding store_typed_def
  proof (intro allI impI)
    fix b m init c u
    assume b: "b < length S'" "map_of (registered (ob_type (S' ! b))) m = Some (init, c)" "is_tid init" "ob_attrs (S' ! b) m = Some u"
    show "is_tid u"
    proof (cases "b = a \<and> m = n")
      case True
      then have "map_of (registered (ob_type (S ! a))) n = Some (init, c)" "u = w" using b w by simp_all
      with assms(1) b(3) w(2) show ?thesis unfolding kind_contract_def by blast
    next
      case False
      then have "ob_attrs (S ! b) m = Some u" "map_of (registered (ob_type (S ! b))) m = Some (init, c)"
        using b w by (auto simp: nth_list_update split: if_splits)
      with assms(2) b w(3) show ?thesis unfolding store_typed_def by fastforce
    qed
  qed
  ultimately show ?thesis using w(3) by (simp add: store_kept_def)
qed

lemma registered_has: "map_of (registered ty) n = Some x \<Longrightarrow> has_attribute E ty n"
  by (auto simp: has_attribute_def list_ex_iff dest!: map_of_SomeD intro: bexI [of _ "(n, x)"])

lemma app_set_total:
  assumes "kind_contract E" and "store_typed S" and "a < length S"
    and "map_of (registered (ob_type (S ! a))) n = Some (init, c)"
    and "is_address init \<and> is_address v \<or> is_tid init \<and> is_tid v"
  obtains S' where "app_set E (Some a) n v S = Inr S'" and "store_kept S S'"
proof -
  have "coerce E (ob_type (S ! a)) n v = Some v" using assms(1,4,5) unfolding kind_contract_def by blast
  with assms(3) registered_has [OF assms(4)] have "\<exists>S'. app_set E (Some a) n v S = Inr S'"
    by (auto simp: app_set_Inr)
  with that app_set_kept [OF assms(1,2)] show thesis by blast
qed

section \<open>One connection\<close>

definition sender_types :: "AppType list" where
  "sender_types = [APP_FILE_SERVER, APP_STREAMING_SERVER, APP_TIMED_PROXY, APP_RQ_ENCODER, APP_RQ_DECODER]"

definition receiver_types :: "AppType list" where
  "receiver_types = [APP_CLIENT, APP_TIMED_PROXY, APP_RQ_ENCODER, APP_RQ_DECODER]"

text \<open>The names of an end point are attributes of the right kinds.\<close>

definition typed_names :: "AppType \<Rightarrow> AttribNames \<Rightarrow> bool" where
  "typed_names ty nm \<longleftrightarrow> an_port nm = '''' \<and> an_address nm \<noteq> '''' \<and> an_proto nm \<noteq> ''''
     \<and> (case map_of (registered ty) (an_address nm) of None \<Rightarrow> False | Some x \<Rightarrow> is_address (fst x))
     \<and> (case map_of (registered ty) (an_proto nm) of None \<Rightarrow> False | Some x \<Rightarrow> is_tid (fst x))"

lemma map_of_slots: "map_of (map (\<lambda>i. (f i, v)) js) s = (if \<exists>i \<in> set js. s = f i then Some v else None)"
  by (induction js) auto

lemma slot_table:
  assumes "i < 8"
  shows "map_of (SetTidDefaultProtocols rx tx @ ProxyBase_attributes) (''RxAddr'' @ dec_nat i) = Some (AddressValue NoAddress, None)"
    and "map_of (SetTidDefaultProtocols rx tx @ ProxyBase_attributes) (''TxAddr'' @ dec_nat i) = Some (AddressValue NoAddress, None)"
    and "map_of (SetTidDefaultProtocols rx tx @ ProxyBase_attributes) (''ProtocolRx'' @ dec_nat i) = Some (TypeIdValue rx, None)"
    and "map_of (SetTidDefaultProtocols rx tx @ ProxyBase_attributes) (''ProtocolTx'' @ dec_nat i) = Some (TypeIdValue tx, None)"
  using assms by (simp_all add: SetTidDefaultProtocols_def ProxyBase_attributes_def map_add_def map_of_slots dec_nat_inj Bex_def
      del: upt_rec_numeral)

lemma slot_kinds:
  assumes "ty \<in> {APP_TIMED_PROXY, APP_RQ_ENCODER, APP_RQ_DECODER}" and "i < 8"
  shows "map_of (registered ty) (''RxAddr'' @ dec_nat i) = Some (AddressValue NoAddress, None)"
    and "map_of (registered ty) (''TxAddr'' @ dec_nat i) = Some (AddressValue NoAddress, None)"
    and "\<exists>t c. map_of (registered ty) (''ProtocolRx'' @ dec_nat i) = Some (TypeIdValue t, c)"
    and "\<exists>t c. map_of (registered ty) (''ProtocolTx'' @ dec_nat i) = Some (TypeIdValue t, c)"
proof -
  let ?own = "\<lambda>own rx tx. registered ty = own @ SetTidDefaultProtocols rx tx @ ProxyBase_attributes
     \<and> set (map fst own) \<subseteq> {''DataRate'', ''SliceWidthMS'', ''SliceTaperMS'', ''nSlices'', ''ActiveMap'', ''Tval'', ''Kval'', ''Nval''}"
  have "\<exists>own rx tx. ?own own rx tx"
  proof -
    consider "ty = APP_TIMED_PROXY" | "ty = APP_RQ_ENCODER" | "ty = APP_RQ_DECODER" using assms(1) by blast
    then show ?thesis
    proof cases
      case 1
      then have "?own (take 5 TimedProxy_attributes) ''ns3::UdpSocketFactory'' ''ns3::UdpSocketFactory''"
        by (simp add: TimedProxy_attributes_def)
      then show ?thesis by blast
    next
      case 2
      then have "?own (take 4 RqEncoder_attributes) ''ns3::TcpSocketFactory'' ''ns3::UdpSocketFactory''"
        by (simp add: RqEncoder_attributes_def)
      then show ?thesis by blast
    next
      case 3
      then have "?own (take 3 RqDecoder_attributes) ''ns3::UdpSocketFactory'' ''ns3::TcpSocketFactory''"
        by (simp add: RqDecoder_attributes_def)
      then show ?thesis by blast
    qed
  qed
  then obtain own rx tx where reg: "registered ty = own @ SetTidDefaultProtocols rx tx @ ProxyBase_attributes"
    and own: "set (map fst own) \<subseteq> {''DataRate'', ''SliceWidthMS'', ''SliceTaperMS'', ''nSlices'', ''ActiveMap'', ''Tval'', ''Kval'', ''Nval''}"
    by blast
  have none: "map_of own (p @ dec_nat i) = None" if "p \<in> {''RxAddr'', ''TxAddr'', ''ProtocolRx'', ''ProtocolTx''}" for p
  proof -
    have "p @ dec_nat i \<notin> set (map fst own)" using own that by auto
    then show ?thesis by (simp add: map_of_eq_None_iff)
  qed
  have "map_of (registered ty) (p @ dec_nat i) = map_of (SetTidDefaultProtocols rx tx @ ProxyBase_attributes) (p @ dec_nat i)"
    if "p \<in> {''RxAddr'', ''TxAddr'', ''ProtocolRx'', ''ProtocolTx''}" for p
    unfolding reg map_of_append [of own] using none [OF that] by (simp add: map_add_def split: option.splits)
  then show "map_of (registered ty) (''RxAddr'' @ dec_nat i) = Some (AddressValue NoAddress, None)"
    "map_of (registered ty) (''TxAddr'' @ dec_nat i) = Some (AddressValue NoAddress, None)"
    "\<exists>t c. map_of (registered ty) (''ProtocolRx'' @ dec_nat i) = Some (TypeIdValue t, c)"
    "\<exists>t c. map_of (registered ty) (''ProtocolTx'' @ dec_nat i) = Some (TypeIdValue t, c)"
    using slot_table [OF assms(2), of rx tx] by (simp_all only: insert_iff simp_thms) blast+
qed

lemma typed_tables:
  "ty \<in> set sender_types \<Longrightarrow> i < 8 \<Longrightarrow> typed_names ty (tx_table ty i)"
  "ty \<in> set receiver_types \<Longrightarrow> i < 8 \<Longrightarrow> typed_names ty (rx_table ty i)"
proof -
  have proxies: "ty \<in> {APP_TIMED_PROXY, APP_RQ_ENCODER, APP_RQ_DECODER} \<Longrightarrow> i < 8 \<Longrightarrow>
      (ty \<in> set sender_types \<longrightarrow> typed_names ty (tx_table ty i)) \<and> (ty \<in> set receiver_types \<longrightarrow> typed_names ty (rx_table ty i))"
  proof -
    assume t: "ty \<in> {APP_TIMED_PROXY, APP_RQ_ENCODER, APP_RQ_DECODER}" "i < 8"
    note slots = slot_kinds [OF t] slot_kinds [OF t(1), of 0]
    from t(1) show ?thesis
      by (elim insertE emptyE; insert slots; auto simp: dec_nat_0 typed_names_def names_def simp del: registered.simps)
  qed
  have "typed_names APP_FILE_SERVER (tx_table APP_FILE_SERVER i)" "typed_names APP_STREAMING_SERVER (tx_table APP_STREAMING_SERVER i)"
    "typed_names APP_CLIENT (rx_table APP_CLIENT i)"
    by (simp_all add: typed_names_def names_def attribute_tables)
  with proxies show "ty \<in> set sender_types \<Longrightarrow> i < 8 \<Longrightarrow> typed_names ty (tx_table ty i)"
    "ty \<in> set receiver_types \<Longrightarrow> i < 8 \<Longrightarrow> typed_names ty (rx_table ty i)"
    unfolding sender_types_def receiver_types_def by auto
qed

text \<open>An application of type \<open>ty\<close> in the store, with the record the manager keeps of it.\<close>

definition app_in :: "store \<Rightarrow> AppType \<Rightarrow> AppRecord \<Rightarrow> bool" where
  "app_in S ty R \<longleftrightarrow> (\<exists>ip a. record_for ty ip a = Some R \<and> a < length S \<and> ob_type (S ! a) = ty)"

lemma app_in_kept: "app_in S ty R \<Longrightarrow> store_kept S S' \<Longrightarrow> app_in S' ty R"
  using store_kept_type [of S S'] unfolding app_in_def by (metis store_kept_def)

lemma end_point:
  assumes "app_in S ty R"
  obtains a where "ar_app R = Some a" and "a < length S" and "ob_type (S ! a) = ty"
    and "ty \<in> set sender_types \<Longrightarrow> i < 8 \<Longrightarrow> typed_names ty (tx_names R i)"
    and "ty \<in> set receiver_types \<Longrightarrow> i < 8 \<Longrightarrow> typed_names ty (rx_names R i)"
proof -
  from assms obtain ip a where a: "record_for ty ip a = Some R" "a < length S" "ob_type (S ! a) = ty"
    by (auto simp: app_in_def)
  with that record_for_fields [OF a(1)] record_names [OF a(1), of i] typed_tables [of ty i] show thesis by auto
qed

lemma app_set_end:
  assumes "kind_contract E" and "store_typed S" and "a < length S" and "ob_type (S ! a) = ty" and "typed_names ty nm"
  shows "is_address v \<Longrightarrow> \<exists>S'. app_set E (Some a) (an_address nm) v S = Inr S' \<and> store_kept S S'"
    and "is_tid v \<Longrightarrow> \<exists>S'. app_set E (Some a) (an_proto nm) v S = Inr S' \<and> store_kept S S'"
proof -
  from assms(5) obtain x y where "map_of (registered ty) (an_address nm) = Some x" "is_address (fst x)"
    "map_of (registered ty) (an_proto nm) = Some y" "is_tid (fst y)" by (auto simp: typed_names_def split: option.splits)
  then show "is_address v \<Longrightarrow> \<exists>S'. app_set E (Some a) (an_address nm) v S = Inr S' \<and> store_kept S S'"
    "is_tid v \<Longrightarrow> \<exists>S'. app_set E (Some a) (an_proto nm) v S = Inr S' \<and> store_kept S S'"
    using app_set_total [OF assms(1-3)] assms(4) by (metis prod.collapse)+
qed

lemma app_get_proto:
  assumes "store_typed S" and "a < length S" and "ob_type (S ! a) = ty" and "typed_names ty nm"
  obtains v where "app_get E (Some a) (an_proto nm) S = Inr v" and "is_tid v"
proof -
  from assms(4) obtain y where y: "map_of (registered ty) (an_proto nm) = Some y" "is_tid (fst y)"
    by (auto simp: typed_names_def split: option.splits)
  then have "is_tid (attr_of E (an_proto nm) (S ! a))"
    using assms(1-3) unfolding store_typed_def attr_of_def by (cases y) (auto split: option.splits)
  with that assms(2,3) registered_has [OF y(1)] show thesis by (auto simp: app_get_Inr)
qed

lemma createConn1_total:
  assumes "kind_contract E" and "store_typed S" and "app_in S Tt Rt" and "app_in S Tr Rr"
    and "Tt \<in> set sender_types" and "Tr \<in> set receiver_types" and "i < 8" and "j < 8"
  obtains S' where "createConn1 E k i Rr j Rt S = Inr S'" and "store_kept S S'"
proof -
  obtain b where b: "ar_app Rt = Some b" "b < length S" "ob_type (S ! b) = Tt" "typed_names Tt (tx_names Rt i)"
    by (rule end_point [OF assms(3), of i]) (use assms(5,7) in auto)
  obtain a where a: "ar_app Rr = Some a" "a < length S" "ob_type (S ! a) = Tr" "typed_names Tr (rx_names Rr j)"
    by (rule end_point [OF assms(4), of j]) (use assms(6,8) in auto)
  obtain v where v: "app_get E (Some b) (an_proto (tx_names Rt i)) S = Inr v" "is_tid v"
    by (rule app_get_proto [OF assms(2) b(2-4)])
  from app_set_end(2) [OF assms(1,2) a(2-4) v(2)] obtain S1 where
    S1: "app_set E (Some a) (an_proto (rx_names Rr j)) v S = Inr S1" "store_kept S S1" by blast
  have t1: "store_typed S1" "b < length S1" "ob_type (S1 ! b) = Tt"
    using S1(2) b store_kept_type [OF S1(2)] by (auto simp: store_kept_def)
  from app_set_end(1) [OF assms(1) t1 b(4), of "AddressValue (InetAddr (ar_host_ip Rr) (of_nat (k + 1001)))"] obtain S2 where
    S2: "app_set E (Some b) (an_address (tx_names Rt i)) (AddressValue (InetAddr (ar_host_ip Rr) (of_nat (k + 1001)))) S1 = Inr S2"
      "store_kept S1 S2" by (auto simp del: of_nat_add)
  note k2 = store_kept_trans [OF S1(2) S2(2)]
  have t2: "store_typed S2" "a < length S2" "ob_type (S2 ! a) = Tr"
    using k2 a store_kept_type [OF k2] by (auto simp: store_kept_def)
  from app_set_end(1) [OF assms(1) t2 a(4), of "AddressValue (InetAddr 0 (of_nat (k + 1001)))"] obtain S3 where
    S3: "app_set E (Some a) (an_address (rx_names Rr j)) (AddressValue (InetAddr 0 (of_nat (k + 1001)))) S2 = Inr S3"
      "store_kept S2 S3" by (auto simp del: of_nat_add)
  have "createConn1 E k i Rr j Rt S = Inr S3"
    using a(1,4) b(1,4) v(1) S1(1) S2(1) S3(1)
    by (simp add: createConn1_def Let_def match_protocols_def set_sender_def set_receiver_def typed_names_def)
  with that store_kept_trans [OF k2 S3(2)] show thesis by blast
qed

section \<open>All applications\<close>

text \<open>The manager knows an application of type \<open>ty t\<close> for every tag \<open>t\<close>.\<close>

definition managed :: "(string \<Rightarrow> AppType option) \<Rightarrow> AppsManager \<Rightarrow> bool" where
  "managed ty M \<longleftrightarrow> store_typed (am_store M)
     \<and> (\<forall>t T. ty t = Some T \<longrightarrow> (\<exists>R. am_rec M t = Some R \<and> app_in (am_store M) T R))"

definition app_accepted :: "ns3_env \<Rightarrow> (u32 \<Rightarrow> nat option) \<Rightarrow> AppConfig \<Rightarrow> bool" where
  "app_accepted E addr2node a \<longleftrightarrow> app_type a \<noteq> APP_INVALID \<and> addr2node (app_ip a) \<noteq> None
     \<and> list_all (\<lambda>p. has_attribute E (app_type a) (fst p) \<and> coerce E (app_type a) (fst p) (StringValue (snd p)) \<noteq> None) (app_attribs a)"

lemma setAppAttribs_total:
  assumes "kind_contract E" and "store_typed S" and "a < length S" and "ob_type (S ! a) = ty"
    and "list_all (\<lambda>p. has_attribute E ty (fst p) \<and> coerce E ty (fst p) (StringValue (snd p)) \<noteq> None) as"
  obtains S' where "setAppAttribs E (Some a) as S = Inr S'" and "store_kept S S'"
proof -
  have "\<exists>S'. foldE (\<lambda>S p. app_set E (Some a) (fst p) (StringValue (snd p)) S) S as = Inr S' \<and> store_kept S S'"
  proof (rule foldE_total)
    show "store_kept S S" using assms(2) by (simp add: store_kept_def)
    fix T p assume p: "p \<in> set as" "store_kept S T"
    then have t: "store_typed T" "a < length T" "ob_type (T ! a) = ty"
      using assms(3,4) store_kept_type [OF p(2) assms(3)] by (simp_all add: store_kept_def)
    from p(1) assms(5) have "has_attribute E ty (fst p)" "coerce E ty (fst p) (StringValue (snd p)) \<noteq> None" by (auto simp: list_all_iff)
    with t have "\<exists>T'. app_set E (Some a) (fst p) (StringValue (snd p)) T = Inr T'" by (auto simp: app_set_Inr)
    with app_set_kept [OF assms(1) t(1)] store_kept_trans [OF p(2)]
    show "\<exists>T'. app_set E (Some a) (fst p) (StringValue (snd p)) T = Inr T' \<and> store_kept S T'" by blast
  qed
  with that show thesis by (auto simp: setAppAttribs_def)
qed

lemma store_typed_new: "store_typed S \<Longrightarrow> store_typed (S @ [\<lparr>ob_type = T, ob_attrs = Map.empty\<rparr>])"
  unfolding store_typed_def by (auto simp: nth_append less_Suc_eq)

lemma app_in_new: "app_in S T R \<Longrightarrow> app_in (S @ xs) T R"
  unfolding app_in_def by (metis length_append nth_append trans_less_add1)

lemma createApp_total:
  assumes "kind_contract E" and "managed ty M" and "app_accepted E addr2node a" and "am_rec M (app_tag a) = None"
  shows "\<exists>M'. createApp E addr2node M a = Inr M' \<and> managed (ty(app_tag a \<mapsto> app_type a)) M'
    \<and> dom (am_rec M') = insert (app_tag a) (dom (am_rec M))"
proof -
  let ?n = "length (am_store M)" and ?S = "am_store M @ [\<lparr>ob_type = app_type a, ob_attrs = Map.empty\<rparr>]"
  from assms(3) obtain host where h: "app_type a \<noteq> APP_INVALID" "addr2node (app_ip a) = Some host"
    "list_all (\<lambda>p. has_attribute E (app_type a) (fst p) \<and> coerce E (app_type a) (fst p) (StringValue (snd p)) \<noteq> None) (app_attribs a)"
    by (auto simp: app_accepted_def)
  from h(1) obtain R0 where R0: "switch_type (app_type a) (zero_record\<lparr>ar_type := app_type a, ar_host_ip := app_ip a\<rparr>) = Some R0"
    by (cases "app_type a") auto
  let ?R = "R0\<lparr>ar_app := Some ?n\<rparr>"
  have R: "record_for (app_type a) (app_ip a) ?n = Some ?R" using R0 by (simp add: record_for_def)
  have "store_typed ?S" using assms(2) by (simp add: managed_def store_typed_new)
  then obtain S' where S': "setAppAttribs E (Some ?n) (app_attribs a) ?S = Inr S'" "store_kept ?S S'"
    by (rule setAppAttribs_total [OF assms(1) _ _ _ h(3), of ?S ?n]) simp_all
  let ?M = "M\<lparr>am_store := S', am_rec := (am_rec M)(app_tag a \<mapsto> ?R), am_hosts := am_hosts M @ [(host, ?n)]\<rparr>"
  have "app_in ?S (app_type a) ?R"
    unfolding app_in_def using R by (intro exI [of _ "app_ip a"] exI [of _ ?n]) simp
  from app_in_kept [OF this S'(2)] have "app_in S' (app_type a) ?R" .
  moreover have "app_in S' T Q" if "app_in (am_store M) T Q" for T Q
    using app_in_kept [OF app_in_new [OF that] S'(2)] .
  ultimately have "managed (ty(app_tag a \<mapsto> app_type a)) ?M"
    using assms(2,4) S'(2) by (auto simp: managed_def store_kept_def) (metis option.distinct(1))+
  moreover have "createApp E addr2node M a = Inr ?M"
    using R0 S'(1) assms(4) h(2) by (simp add: createApp_def Let_def or_crash_def)
  ultimately show ?thesis by auto
qed

definition types_of :: "AppConfig list \<Rightarrow> string \<Rightarrow> AppType option" where
  "types_of apps = map_of (map (\<lambda>a. (app_tag a, app_type a)) apps)"

lemma map_of_map_apps: "distinct (map app_tag apps) \<Longrightarrow> a \<in> set apps \<Longrightarrow> map_of (map (\<lambda>a. (app_tag a, app_type a)) apps) (app_tag a) = Some (app_type a)"
  by (intro map_of_is_SomeI) (auto simp: comp_def)

lemma createApps_total:
  "kind_contract E \<Longrightarrow> managed ty M \<Longrightarrow> list_all (app_accepted E addr2node) apps \<Longrightarrow> distinct (map app_tag apps) \<Longrightarrow>
   set (map app_tag apps) \<inter> dom (am_rec M) = {} \<Longrightarrow>
   \<exists>M'. foldE (createApp E addr2node) M apps = Inr M' \<and> managed (ty ++ types_of apps) M'"
proof (induction apps arbitrary: ty M)
  case Nil
  then show ?case by (simp add: types_of_def)
next
  case (Cons a apps)
  then have "app_accepted E addr2node a" "am_rec M (app_tag a) = None" by auto
  from createApp_total [OF Cons.prems(1,2) this] obtain M1 where
    M1: "createApp E addr2node M a = Inr M1" "managed (ty(app_tag a \<mapsto> app_type a)) M1"
      "dom (am_rec M1) = insert (app_tag a) (dom (am_rec M))" by blast
  have "list_all (app_accepted E addr2node) apps" "distinct (map app_tag apps)" "set (map app_tag apps) \<inter> dom (am_rec M1) = {}"
    using Cons.prems(3-5) M1(3) by auto
  from Cons.IH [OF Cons.prems(1) M1(2) this] obtain M' where
    M': "foldE (createApp E addr2node) M1 apps = Inr M'" "managed (ty(app_tag a \<mapsto> app_type a) ++ types_of apps) M'" by blast
  have "app_tag a \<notin> dom (types_of apps)" using Cons.prems(4) by (auto simp: types_of_def dom_map_of_conv_image_fst)
  then have "ty ++ types_of (a # apps) = ty(app_tag a \<mapsto> app_type a) ++ types_of apps"
    by (auto simp: types_of_def map_add_def fun_eq_iff domIff split: option.splits)
  with M1(1) M' show ?case by simp
qed

section \<open>All connections\<close>

definition has_type :: "(string \<Rightarrow> AppType option) \<Rightarrow> AppType list \<Rightarrow> string \<Rightarrow> bool" where
  "has_type ty ts t \<longleftrightarrow> (case ty t of None \<Rightarrow> False | Some T \<Rightarrow> T \<in> set ts)"

text \<open>A connect statement whose applications exist and have the roles it gives them: several senders
  need an encoder, several receivers a decoder, of eight slots each.\<close>

definition conn_accepted :: "(string \<Rightarrow> AppType option) \<Rightarrow> AppConnectionConfig \<Rightarrow> bool" where
  "conn_accepted ty c \<longleftrightarrow> (let ss = senders c; rs = receivers c in
     list_all (has_type ty sender_types) ss \<and> list_all (has_type ty receiver_types) rs
     \<and> (length ss = 1 \<and> length rs = 1
        \<or> length rs = 1 \<and> ty (rs ! 0) = Some APP_RQ_ENCODER \<and> 1 < length ss \<and> length ss \<le> 8
        \<or> length ss = 1 \<and> ty (ss ! 0) = Some APP_RQ_DECODER \<and> 1 < length rs \<and> length rs \<le> 8))"

lemma managed_rec_at: "managed ty M \<Longrightarrow> ty t = Some T \<Longrightarrow> \<exists>R. rec_at t M = (R, M) \<and> app_in (am_store M) T R"
  unfolding managed_def rec_at_def by (metis option.simps(5))

lemma managed_kept:
  assumes "managed ty M" and "store_kept (am_store M) S"
  shows "managed ty (M\<lparr>am_store := S\<rparr>)"
  using assms(1) app_in_kept [OF _ assms(2)] assms(2) by (simp add: managed_def store_kept_def) metis

lemma conn_senders_total:
  assumes "kind_contract E" and "T \<in> set receiver_types" and "i < 8"
  shows "managed ty M \<Longrightarrow> app_in (am_store M) T Rr \<Longrightarrow> list_all (has_type ty sender_types) ss \<Longrightarrow> j + length ss \<le> 8 \<Longrightarrow>
    \<exists>M' k'. conn_senders E i Rr j ss (M, k) = Inr (M', k') \<and> managed ty M'"
proof (induction ss arbitrary: j M k)
  case (Cons t ss)
  from Cons.prems(3) obtain Tt where Tt: "ty t = Some Tt" "Tt \<in> set sender_types" by (auto simp: has_type_def split: option.splits)
  from managed_rec_at [OF Cons.prems(1) Tt(1)] obtain Rt where Rt: "rec_at t M = (Rt, M)" "app_in (am_store M) Tt Rt" by blast
  have st: "store_typed (am_store M)" using Cons.prems(1) by (simp add: managed_def)
  obtain S where S: "createConn1 E k i Rr j Rt (am_store M) = Inr S" "store_kept (am_store M) S"
    by (rule createConn1_total [OF assms(1) st Rt(2) Cons.prems(2) Tt(2) assms(2,3)]) (use Cons.prems(4) in auto)
  have "app_in (am_store (M\<lparr>am_store := S\<rparr>)) T Rr" using app_in_kept [OF Cons.prems(2) S(2)] by simp
  from Cons.IH [OF managed_kept [OF Cons.prems(1) S(2)] this, of "Suc j" "Suc k"] Cons.prems(3,4) S(1) Rt(1)
  show ?case by (simp add: or_crash_def)
qed simp

lemma managed_sinks [simp]:
  "managed ty (M\<lparr>am_rxCbs := x\<rparr>) = managed ty M" "managed ty (M\<lparr>am_rqDecCbs := y\<rparr>) = managed ty M"
  by (simp_all add: managed_def)

lemma conn_receivers_total:
  assumes "kind_contract E" and "\<forall>f. can_open E f" and "list_all (has_type ty sender_types) ss" and "length ss \<le> 8"
  shows "managed ty M \<Longrightarrow> list_all (has_type ty receiver_types) rs \<Longrightarrow> i + length rs \<le> 8 \<Longrightarrow>
    \<exists>M' k'. conn_receivers E ci ss i rs (M, k) = Inr (M', k') \<and> managed ty M'"
proof (induction rs arbitrary: i M k)
  case (Cons r rs)
  from Cons.prems(2) obtain T where T: "ty r = Some T" "T \<in> set receiver_types" by (auto simp: has_type_def split: option.splits)
  from managed_rec_at [OF Cons.prems(1) T(1)] obtain Rr where Rr: "rec_at r M = (Rr, M)" "app_in (am_store M) T Rr" by blast
  have "i < 8" using Cons.prems(3) by simp
  from conn_senders_total [OF assms(1) T(2) this Cons.prems(1) Rr(2) assms(3), of 0 k] assms(4) obtain M1 k1 where
    c: "conn_senders E i Rr 0 ss (M, k) = Inr (M1, k1)" "managed ty M1" by auto
  obtain M2 k2 where i: "(if ar_has_rx_trace Rr then install_rx E ci ss r Rr (M1, k1) else Inr (M1, k1)) = Inr (M2, k2)" "managed ty M2"
    by (rule that [of "if ar_has_rx_trace Rr then fst (projr (install_rx E ci ss r Rr (M1, k1))) else M1" k1])
      (use assms(2) c(2) in \<open>simp_all add: install_rx_def Let_def\<close>)
  obtain M3 k3 where d: "(if ar_has_rq_decoder_trace Rr then install_rqdec E Rr (M2, k2) else (M2, k2)) = (M3, k3)" by fastforce
  have m3: "managed ty M3" using d i(2) by (auto simp: install_rqdec_def Let_def split: if_splits)
  from Cons.IH [OF m3, of "Suc i" k3] Cons.prems(2,3) show ?case by (simp add: Rr(1) c(1) i(1) d)
qed simp

lemma app_in_flags: "app_in S T R \<Longrightarrow> ar_TxMultiple R = (T = APP_RQ_DECODER) \<and> ar_RxMultiple R = (T = APP_RQ_ENCODER)"
  unfolding app_in_def using record_flags(1,2) by blast

lemma createConns_total:
  assumes "kind_contract E" and "\<forall>f. can_open E f" and "managed ty M" and "conn_accepted ty c"
  shows "\<exists>M' k'. createConns E ci c (M, k) = Inr (M', k') \<and> managed ty M'"
proof -
  let ?ss = "senders c" and ?rs = "receivers c"
  from assms(4) have t: "list_all (has_type ty sender_types) ?ss" "list_all (has_type ty receiver_types) ?rs"
    "length ?ss \<le> 8" "0 + length ?rs \<le> 8" by (auto simp: conn_accepted_def Let_def)
  from conn_receivers_total [OF assms(1,2) t(1,3) assms(3) t(2,4), of ci k] obtain M' k' where
    r: "conn_receivers E ci ?ss 0 ?rs (M, k) = Inr (M', k')" "managed ty M'" by blast
  consider (one) "length ?ss = 1" "length ?rs = 1" | (enc) "length ?rs = 1" "ty (?rs ! 0) = Some APP_RQ_ENCODER" "1 < length ?ss"
    | (dec) "length ?ss = 1" "ty (?ss ! 0) = Some APP_RQ_DECODER" "1 < length ?rs"
    using assms(4) by (auto simp: conn_accepted_def Let_def)
  then have "createConns E ci c (M, k) = Inr (M', k')"
  proof cases
    case one
    then show ?thesis using r(1) by (simp add: createConns_def Let_def)
  next
    case enc
    from managed_rec_at [OF assms(3) enc(2)] obtain R where "rec_at (?rs ! 0) M = (R, M)" "ar_RxMultiple R"
      using app_in_flags by blast
    then show ?thesis using enc r(1) by (simp add: createConns_def Let_def)
  next
    case dec
    from managed_rec_at [OF assms(3) dec(2)] obtain R where "rec_at (?ss ! 0) M = (R, M)" "ar_TxMultiple R"
      using app_in_flags by blast
    then show ?thesis using dec r(1) by (simp add: createConns_def Let_def)
  qed
  with r(2) show ?thesis by blast
qed

lemma connect_all_total:
  "kind_contract E \<Longrightarrow> \<forall>f. can_open E f \<Longrightarrow> managed ty M \<Longrightarrow> list_all (conn_accepted ty) cs \<Longrightarrow>
   \<exists>M' k'. connect_all E ci cs (M, k) = Inr (M', k') \<and> managed ty M'"
proof (induction cs arbitrary: ci M k)
  case (Cons c cs)
  then obtain M1 k1 where c: "createConns E ci c (M, k) = Inr (M1, k1)" "managed ty M1"
    using createConns_total [of E ty M c] by (metis list.pred_inject(2))
  from Cons.IH [OF Cons.prems(1,2) c(2)] Cons.prems(4) c(1) show ?case by simp
qed simp

section \<open>Accepted configurations\<close>

definition apps_accepted :: "ns3_env \<Rightarrow> (u32 \<Rightarrow> nat option) \<Rightarrow> AppsCompleteConfig \<Rightarrow> bool" where
  "apps_accepted E addr2node cfg \<longleftrightarrow> distinct (map app_tag (cfg_apps cfg))
     \<and> list_all (app_accepted E addr2node) (cfg_apps cfg)
     \<and> list_all (conn_accepted (types_of (cfg_apps cfg))) (cfg_conns cfg)"

lemma createApps_accepts:
  assumes "kind_contract E" and "\<forall>f. can_open E f" and "apps_accepted E addr2node cfg"
  obtains M where "createApps E addr2node cfg (setOutDir d init_AppsManager) = Inr M" and "managed (types_of (cfg_apps cfg)) M"
proof -
  have "managed Map.empty (setOutDir d init_AppsManager)" "dom (am_rec (setOutDir d init_AppsManager)) = {}"
    by (simp_all add: managed_def store_typed_def setOutDir_def init_AppsManager_def)
  with createApps_total [OF assms(1) this(1)] assms(3) obtain M1 where
    M1: "foldE (createApp E addr2node) (setOutDir d init_AppsManager) (cfg_apps cfg) = Inr M1" "managed (types_of (cfg_apps cfg)) M1"
    by (auto simp: apps_accepted_def)
  from connect_all_total [OF assms(1,2) M1(2)] assms(3) obtain M k where "connect_all E 0 (cfg_conns cfg) (M1, 0) = Inr (M, k)" "managed (types_of (cfg_apps cfg)) M"
    unfolding apps_accepted_def by blast
  with M1(1) that show thesis by (simp add: createApps_def)
qed

text \<open>
  C6. A sensible configuration is accepted. If the tags of the applications differ, every
  application has a known type, the address of a host and attributes its class takes, and every
  connect statement leads from applications that send to applications that receive, where several
  senders need an encoder and several receivers a decoder and no statement has more than eight of
  them, then \<open>createApps\<close> succeeds: it returns no error, fails no assertion and dereferences no null
  pointer, and the manager has a record of the declared type for every application.
\<close>

theorem sensible_configuration_accepted:
  assumes "kind_contract E" and "\<forall>f. can_open E f" and "apps_accepted E addr2node cfg"
  shows "\<exists>M. createApps E addr2node cfg (setOutDir d init_AppsManager) = Inr M
    \<and> (\<forall>a \<in> set (cfg_apps cfg). \<exists>R. am_rec M (app_tag a) = Some R \<and> app_in (am_store M) (app_type a) R)"
proof -
  obtain M where M: "createApps E addr2node cfg (setOutDir d init_AppsManager) = Inr M" "managed (types_of (cfg_apps cfg)) M"
    by (rule createApps_accepts [OF assms])
  have "types_of (cfg_apps cfg) (app_tag a) = Some (app_type a)" if "a \<in> set (cfg_apps cfg)" for a
    using that assms(3) by (simp add: types_of_def apps_accepted_def map_of_map_apps)
  with M show ?thesis unfolding managed_def by blast
qed

text \<open>An instance of the checkers: an attribute of type ids takes type ids and the strings that name them.\<close>

definition checking_ns3 :: ns3_env where
  "checking_ns3 = example_ns3\<lparr>ns3_attr := (\<lambda>_ n. n \<noteq> ''''), coerce := (\<lambda>ty n v. case map_of (registered ty) n of
       Some (TypeIdValue _, _) \<Rightarrow> (case v of TypeIdValue t \<Rightarrow> Some v | StringValue s \<Rightarrow> Some (TypeIdValue s) | _ \<Rightarrow> None)
     | _ \<Rightarrow> Some v)\<rparr>"

lemma checking_ns3_contract: "kind_contract checking_ns3" "\<forall>f. can_open checking_ns3 f" "ns3_contract checking_ns3"
proof -
  show "kind_contract checking_ns3"
    unfolding kind_contract_def
  proof (intro allI impI)
    fix ty n init c v assume m: "map_of (registered ty) n = Some (init, c)"
    show "(is_address init \<and> is_address v \<longrightarrow> coerce checking_ns3 ty n v = Some v)
      \<and> (is_tid init \<and> is_tid v \<longrightarrow> coerce checking_ns3 ty n v = Some v)
      \<and> (\<forall>w. is_tid init \<and> coerce checking_ns3 ty n v = Some w \<longrightarrow> is_tid w)"
      by (cases init; cases v; simp add: checking_ns3_def m)
  qed
  show "\<forall>f. can_open checking_ns3 f" by (simp add: checking_ns3_def example_ns3_def)
  show "ns3_contract checking_ns3"
    by (auto simp: ns3_contract_def checking_ns3_def example_ns3_def split: option.splits attr_value.splits)
qed

theorem sensible_configuration_accepted_witness:
  "\<exists>M R. createApps checking_ns3 (\<lambda>ip. if ip = 7 then Some 0 else None) example_cfg (setOutDir ''out'' init_AppsManager) = Inr M
     \<and> am_rec M ''enc'' = Some R \<and> app_in (am_store M) APP_RQ_ENCODER R"
proof -
  have acc: "apps_accepted checking_ns3 (\<lambda>ip. if ip = 7 then Some 0 else None) example_cfg" by code_simp
  have "\<exists>a \<in> set (cfg_apps example_cfg). app_tag a = ''enc'' \<and> app_type a = APP_RQ_ENCODER" by code_simp
  with sensible_configuration_accepted [OF checking_ns3_contract(1,2) acc] show ?thesis by metis
qed

end
