(* ===== verification/Main_Run.thy ===== *)
theory Main_Run
  imports Mesh_Routes Apps_Accepted
begin

text \<open>
  A run of \<open>main\<close> from the command line to the simulation: the phases of the program compose, the
  network and the applications are those the configuration files and the address plan describe, and
  the simulator is started only when everything has been set up.
\<close>

section \<open>What the phases keep\<close>

text \<open>The calls that set up a simulation, as opposed to those of \<open>MeshSim::Run\<close>.\<close>

fun setup_call :: "'d sim_call \<Rightarrow> bool" where
  "setup_call InstallFlowMonitor = False"
| "setup_call (StopAt _) = False"
| "setup_call RunEvents = False"
| "setup_call (SerializeToXmlFile _) = False"
| "setup_call DestroySimulator = False"
| "setup_call _ = True"

lemma setup_calls_map [simp]: "list_all setup_call (map (Configure h) cs)"
  by (induction cs) simp_all

lemma setup_calls_pcap [simp]: "list_all setup_call (map (\<lambda>p. EnablePcap h (f p) (g p) b c) ps)"
  by (induction ps) simp_all

text \<open>The options, the configuration and the manager, and whether the simulator is still untouched.\<close>

definition setup_of :: "('d, 'n) MeshSim \<Rightarrow> 'd \<times> string \<times> string \<times> int \<times> int \<times> AppsCompleteConfig \<times> routingConfig \<times> bool" where
  "setup_of S = (simDuration S, configDir S, outDir S, meshSize S, staSize S, appsCfg S, routing_cfg S, list_all setup_call (ms_log S))"

lemma emit_config [simp]: "appsCfg (emit cs S) = appsCfg S"
  by (simp add: emit_def)

lemma CreateChannels_setup:
  "CreateChannels S = Inr S' \<Longrightarrow> setup_of S' = setup_of S \<and> appsMgr S' = appsMgr S \<and> net S' = net S \<and> (no_topology S \<longrightarrow> no_topology S')"
  by (auto simp: CreateChannels_def configure_Inr emit_def setup_of_def no_topology_def Let_def)

lemma CreateMesh_setup: "CreateMesh N S = Inr S' \<Longrightarrow> setup_of S' = setup_of S \<and> appsMgr S' = appsMgr S"
  by (auto simp: CreateMesh_def configure_Inr emit_def setup_of_def create_nodes_def install_devs_def Let_def split: prod.splits)

lemma CreateStas_setup: "setup_of (CreateStas N S) = setup_of S" "appsMgr (CreateStas N S) = appsMgr S"
  by (auto simp: CreateStas_def emit_def setup_of_def create_nodes_def install_devs_def Let_def split: prod.splits)

lemma CreateBackhaul_setup: "CreateBackhaul N S = Inr S' \<Longrightarrow> setup_of S' = setup_of S \<and> appsMgr S' = appsMgr S"
  by (auto simp: CreateBackhaul_def setup_of_def create_nodes_def Let_def split: prod.splits)

lemma CreateWiredStas_setup:
  assumes "CreateWiredStas N S = Inr S'"
  shows "setup_of S' = setup_of S \<and> appsMgr S' = appsMgr S"
proof -
  obtain ns n where "node_create N (of_int (staSize S)) (net S) = (ns, n)" by fastforce
  then have c: "create_nodes N (staSize S) S = (ns, S\<lparr>net := n\<rparr>)" by (simp add: create_nodes_def)
  let ?S = "S\<lparr>net := n, wiredStaNodes := wiredStaNodes S @ ns\<rparr>"
  from assms c have "foldE (wire_sta N) ?S [0..<length (wiredStaNodes ?S)] = Inr S'" by (simp add: CreateWiredStas_def)
  then have "setup_of S' = setup_of ?S \<and> appsMgr S' = appsMgr ?S"
  proof (rule foldE_invariant)
    fix T i T' assume "setup_of T = setup_of ?S \<and> appsMgr T = appsMgr ?S" "wire_sta N T i = Inr T'"
    then show "setup_of T' = setup_of ?S \<and> appsMgr T' = appsMgr ?S" by (auto simp: wire_sta_def setup_of_def split: prod.splits)
  qed simp
  then show ?thesis by (simp add: setup_of_def)
qed

lemma AssignAddresses_setup:
  "AssignAddresses N (CreateStack N S) = Inr S' \<Longrightarrow> setup_of S' = setup_of S \<and> appsMgr S' = appsMgr S"
  by (auto simp: AssignAddresses_def assign_addrs_def CreateStack_def emit_def setup_of_def split: RoutingProtocol.splits)

lemma setup_calls_entries: "list_all setup_call (concat (map (install_entry N n node) ents))"
  by (induction ents) (simp_all add: install_entry_def Let_def)

lemma install_tables_setup:
  assumes "foldE (install_table N m) S tbls = Inr S'"
  shows "setup_of S' = setup_of S \<and> S' = S\<lparr>ms_log := ms_log S'\<rparr>"
  using assms
proof (rule foldE_invariant)
  fix T tbl T' assume "setup_of T = setup_of S \<and> T = S\<lparr>ms_log := ms_log T\<rparr>" "install_table N m T tbl = Inr T'"
  then show "setup_of T' = setup_of S \<and> T' = S\<lparr>ms_log := ms_log T'\<rparr>"
    using setup_calls_entries by (cases T; cases S; auto simp: install_table_def emit_def setup_of_def Let_def split: option.splits prod.splits)
qed simp

lemma InstallApps_setup: "InstallApps N E S = Inr S' \<Longrightarrow> setup_of S' = setup_of S \<and> S' = S\<lparr>appsMgr := appsMgr S'\<rparr>"
  by (auto simp: InstallApps_def setup_of_def Let_def)

lemma pcap_calls_setup: "list_all setup_call (pcap_calls N visit S v)"
  by (cases v) (simp add: pcap_calls_def Let_def split_def)

lemma PreparePcap_setup: "setup_of (PreparePcap N visit S) = setup_of S"
  "PreparePcap N visit S = S\<lparr>ms_log := ms_log (PreparePcap N visit S)\<rparr>"
  by (auto simp: PreparePcap_def setup_of_def emit_def devtypelist_def pcap_calls_setup)

text \<open>The plan speaks of nodes, interfaces and the network only.\<close>

lemma addr2netdev_other [simp]:
  "addr2netdev N (S\<lparr>ms_log := l\<rparr>) = addr2netdev N S" "addr2netdev N (S\<lparr>appsMgr := M\<rparr>) = addr2netdev N S"
  by (simp_all add: addr2netdev_def all_interfaces_def)

lemma node_at_other [simp]:
  "node_at N (S\<lparr>ms_log := l\<rparr>) = node_at N S" "node_at N (S\<lparr>appsMgr := M\<rparr>) = node_at N S"
  by (simp_all add: node_at_def fun_eq_iff)

lemma plan_holds_other [simp]:
  "plan_holds N m s (S\<lparr>ms_log := l\<rparr>) = plan_holds N m s S" "plan_holds N m s (S\<lparr>appsMgr := M\<rparr>) = plan_holds N m s S"
  by (simp_all add: plan_holds_def)

section \<open>The phases\<close>

text \<open>\<open>CommandLine::Parse\<close> assigns the variables of the options and nothing else.\<close>

definition options_only :: "(string list \<Rightarrow> string list \<Rightarrow> ('d, 'n) MeshSim \<Rightarrow> ('d, 'n) MeshSim \<times> string list) \<Rightarrow> bool" where
  "options_only parse \<longleftrightarrow> (\<forall>argv S. \<exists>d m s c p q r. fst (parse options argv S) =
     S\<lparr>simDuration := d, meshSize := m, staSize := s, cwmin := c, enablePcap := p, promiscuousMode := q, useRadioTap := r\<rparr>)"

text \<open>Nothing has been built, and no configuration loaded.\<close>

definition untouched :: "'n \<Rightarrow> ('d, 'n) MeshSim \<Rightarrow> bool" where
  "untouched n S \<longleftrightarrow> net S = n \<and> no_topology S \<and> appsMgr S = init_AppsManager \<and> list_all setup_call (ms_log S)"

lemma ProcessCommandLineArgs_phase:
  assumes "ProcessCommandLineArgs parse path_exists is_directory argv S = Inr S'" and "options_only parse" and "untouched n S"
    and "appsCfg S = empty_apps" and "routing_cfg S = init_routingConfig"
  shows "untouched n S' \<and> path_exists (outDir S') \<and> is_directory (outDir S') \<and> appsCfg S' = empty_apps \<and> routing_cfg S' = init_routingConfig"
proof -
  obtain T extra where p: "parse options argv S = (T, extra)" by fastforce
  from assms(2) obtain d m s c pc q r where
    "fst (parse options argv S) =
       S\<lparr>simDuration := d, meshSize := m, staSize := s, cwmin := c, enablePcap := pc, promiscuousMode := q, useRadioTap := r\<rparr>"
    unfolding options_only_def by blast
  with assms(1,3-5) p show ?thesis
    by (auto simp: ProcessCommandLineArgs_def untouched_def no_topology_def Let_def split: if_splits)
qed

lemma LoadConfig_phase:
  assumes "LoadConfig L S = Inr S'"
  shows "untouched n S' = untouched n S" "outDir S' = outDir S"
    and "loadAppsConfig (le_boost L) (le_visit L) (le_oor L) (appsCfg S) (le_files L (configDir S' @ ''/apps.txt'')) = Inr (appsCfg S')"
    and "loadRoutingConfig (le_boost L) (le_oor L) (routing_cfg S) (le_files L (configDir S' @ ''/routing.txt'')) = Inr (routing_cfg S')"
  using assms by (auto simp: LoadConfig_def Let_def untouched_def no_topology_def)

lemma loaded_senders:
  assumes "loadAppsConfig B visit oor empty_apps fp = Inr cfg" and "boost_laws B"
  shows "list_all (\<lambda>c. senders c \<noteq> []) (cfg_conns cfg)"
proof -
  from assms(1) obtain f m where f: "config_loop B (load_apps_line visit oor) ([], empty_apps) f = Inr (m, cfg)"
    by (auto simp: loadAppsConfig_def split: option.splits)
  have "apps_ok ([], empty_apps)" by (simp add: apps_ok_def empty_apps_def)
  from apps.load_inv_errs [OF assms(2) this, of visit oor f] f show ?thesis by (simp add: apps_ok_def list_all_iff)
qed

definition installed :: "'n ns3_net \<Rightarrow> ('d, 'n) MeshSim \<Rightarrow> bool" where
  "installed N S \<longleftrightarrow> (let apps = cfg_apps (appsCfg S) in
     distinct (map app_tag apps)
     \<and> map (\<lambda>a. node_at N S (app_ip a)) apps = map Some (map fst (am_hosts (appsMgr S)))
     \<and> map snd (am_hosts (appsMgr S)) = [0..<length apps]
     \<and> dom (am_rec (appsMgr S)) = set (map app_tag apps))"

lemma CreateInterfaces_setup:
  assumes "CreateInterfaces N visit S = Inr S'"
  obtains T where "AssignAddresses N (CreateStack N S) = Inr T" and "setup_of T = setup_of S" and "appsMgr T = appsMgr S"
    and "setup_of S' = setup_of T" and "S' = T\<lparr>ms_log := ms_log S'\<rparr>"
proof -
  from assms obtain T where T: "AssignAddresses N (CreateStack N S) = Inr T"
    "foldE (install_table N (addr2netdev N T)) T (visit (tables (routing_cfg T))) = Inr S'"
    by (auto simp: CreateInterfaces_def)
  from that [OF T(1)] AssignAddresses_setup [OF T(1)] install_tables_setup [OF T(2)] show thesis by blast
qed

lemma CreateSim_setup: "CreateSim E S = Inr S' \<Longrightarrow> setup_of S' = setup_of S"
  by (auto simp: CreateSim_def Let_def PreparePcap_setup(1) CreateStas_setup(1) dest!: CreateChannels_setup CreateMesh_setup
      CreateBackhaul_setup CreateWiredStas_setup InstallApps_setup elim!: CreateInterfaces_setup)

lemma CreateSim_phase:
  assumes "CreateSim E S = Inr S'" and "net_laws (se_net E)" and "fresh_net (se_net E) n" and "untouched n S"
    and "visits_table (se_tables E) (tables (routing_cfg S))" and "list_all (\<lambda>c. senders c \<noteq> []) (cfg_conns (appsCfg S))"
    and "0 \<le> meshSize S" "meshSize S \<le> 254" "0 \<le> staSize S" "staSize S \<le> 154"
  shows "plan_fits (meshSize S) (staSize S) \<and> plan_holds (se_net E) (nat (meshSize S)) (nat (staSize S)) S'
    \<and> dom (tables (routing_cfg S)) \<subseteq> dom (node_at (se_net E) S') \<and> installed (se_net E) S'"
proof -
  let ?N = "se_net E"
  from assms(1) obtain S0 S1 S2 S3 S4 S5 where
    c: "CreateChannels S = Inr S0" "CreateMesh ?N S0 = Inr S1" "CreateBackhaul ?N (CreateStas ?N S1) = Inr S2"
      "CreateWiredStas ?N S2 = Inr S3" "CreateInterfaces ?N (se_tables E) S3 = Inr S4"
      "InstallApps ?N (se_apps E) S4 = Inr S5" and S': "S' = PreparePcap ?N (se_devs E) S5"
    by (auto simp: CreateSim_def Let_def)
  note k0 = CreateChannels_setup [OF c(1)]
  have s0: "setup_of S0 = setup_of S" "net S0 = n" "no_topology S0" "appsMgr S0 = init_AppsManager"
    using k0 assms(4) by (simp_all add: untouched_def)
  then have z: "meshSize S0 = meshSize S" "staSize S0 = staSize S" "routing_cfg S0 = routing_cfg S" by (simp_all add: setup_of_def)
  have s3: "setup_of S3 = setup_of S" "appsMgr S3 = init_AppsManager"
    using CreateMesh_setup [OF c(2)] CreateStas_setup [of ?N S1] CreateBackhaul_setup [OF c(3)] CreateWiredStas_setup [OF c(4)] s0
    by simp_all
  from CreateInterfaces_setup [OF c(5)] obtain T where
    T: "AssignAddresses ?N (CreateStack ?N S3) = Inr T" "setup_of T = setup_of S" "appsMgr T = init_AppsManager"
    and i4: "setup_of S4 = setup_of S" "S4 = T\<lparr>ms_log := ms_log S4\<rparr>" using s3 by metis
  have fresh: "fresh_net ?N (net S0)" using assms(3) s0(2) by simp
  have pos: "0 < meshSize S0" using empty_mesh_crashes [OF assms(2) fresh s0(3) c(2)] c(3) assms(7) z by fastforce
  from built_result [OF assms(2) fresh s0(3) c(2) pos] assms(8-10) z have
    plan: "plan_fits (meshSize S) (staSize S)" "plan_holds ?N (nat (meshSize S)) (nat (staSize S)) T"
    using c(3,4) T(1) by (auto split: if_splits)
  have r3: "routing_cfg S3 = routing_cfg S" "appsCfg S3 = appsCfg S" using s3 by (simp_all add: setup_of_def)
  from CreateInterfaces_result [OF T(1), of "se_tables E"] assms(5) c(5) r3
  have dom: "dom (tables (routing_cfg S)) \<subseteq> dom (node_at ?N T)" by simp
  have m4: "appsMgr S4 = init_AppsManager" using T(3) by (subst i4(2)) simp
  from InstallApps_setup [OF c(6)] i4 have i5: "setup_of S5 = setup_of S" "S5 = S4\<lparr>appsMgr := appsMgr S5\<rparr>" by auto
  have a4: "appsCfg S4 = appsCfg S" using i4(1) by (simp add: setup_of_def)
  have n5: "node_at ?N S5 = node_at ?N T" "plan_holds ?N m s S5 = plan_holds ?N m s T" for m s
    by (subst i5(2), simp, subst i4(2), simp)+
  have n4: "node_at ?N S4 = node_at ?N T" by (subst i4(2)) simp
  from InstallApps_hosts [OF c(6) m4, of "cfg_apps (appsCfg S)"] assms(6) a4
  have "installed ?N S5" using i5(1) by (simp add: installed_def n4 n5(1) setup_of_def Let_def)
  moreover have "installed ?N S' = installed ?N S5"
    unfolding S' by (subst PreparePcap_setup(2)) (simp add: installed_def)
  moreover have "plan_holds ?N (nat (meshSize S)) (nat (staSize S)) S'" "node_at ?N S' = node_at ?N T"
    unfolding S' by (subst PreparePcap_setup(2), simp add: n5 plan)+
  ultimately show ?thesis using dom plan(1) by simp
qed

section \<open>Simulations that can be set up\<close>

definition wifi_accepted :: "wifiConfig \<Rightarrow> bool" where
  "wifi_accepted c \<longleftrightarrow> fst (configureWifiChannel c) \<and> fst (configureWifiStdAndRateControl c) \<and> fst (configureWifiPhy (phy_attribs c))"

text \<open>A configuration for the network of the README: the routing tables and the applications are on its
  addresses.\<close>

definition sim_accepted :: "'n sim_env \<Rightarrow> ('d, 'n) MeshSim \<Rightarrow> bool" where
  "sim_accepted E S \<longleftrightarrow> plan_fits (meshSize S) (staSize S)
     \<and> wifi_accepted (meshWifiConfig S) \<and> wifi_accepted (apStaWifiConfig S)
     \<and> (let plan = set (documented (nat (meshSize S)) (nat (staSize S))) in
          dom (tables (routing_cfg S)) \<subseteq> plan
        \<and> apps_accepted (se_apps E) (\<lambda>ip. if ip \<in> plan then Some 0 else None) (appsCfg S))"

lemma apps_accepted_cong:
  "(\<And>ip. f ip = None \<longleftrightarrow> g ip = None) \<Longrightarrow> apps_accepted E f cfg = apps_accepted E g cfg"
proof -
  assume "\<And>ip. f ip = None \<longleftrightarrow> g ip = None"
  then have "app_accepted E f = app_accepted E g" by (simp add: app_accepted_def fun_eq_iff)
  then show ?thesis by (simp add: apps_accepted_def)
qed

lemma CreateChannels_total:
  assumes "wifi_accepted (meshWifiConfig S)" and "wifi_accepted (apStaWifiConfig S)"
  shows "\<exists>S'. CreateChannels S = Inr S' \<and> meshWifiConfig S' = meshWifiConfig S"
  using assms by (simp add: CreateChannels_def configure_def wifi_accepted_def Let_def emit_def)

lemma CreateSim_total:
  assumes "net_laws (se_net E)" and "fresh_net (se_net E) n" and "untouched n S" and "sim_accepted E S"
    and "visits_table (se_tables E) (tables (routing_cfg S))" and "kind_contract (se_apps E)" and "\<forall>f. can_open (se_apps E) f"
  shows "\<exists>S'. CreateSim E S = Inr S'"
proof -
  let ?N = "se_net E" and ?m = "nat (meshSize S)" and ?s = "nat (staSize S)"
  from assms(4) have a: "plan_fits (meshSize S) (staSize S)"
    "wifi_accepted (meshWifiConfig S)" "wifi_accepted (apStaWifiConfig S)" "dom (tables (routing_cfg S)) \<subseteq> set (documented ?m ?s)"
    "apps_accepted (se_apps E) (\<lambda>ip. if ip \<in> set (documented ?m ?s) then Some 0 else None) (appsCfg S)"
    by (simp_all add: sim_accepted_def Let_def)
  from CreateChannels_total [OF a(2,3)] obtain S0 where S0: "CreateChannels S = Inr S0" "meshWifiConfig S0 = meshWifiConfig S" by blast
  note k0 = CreateChannels_setup [OF S0(1)]
  have s0: "setup_of S0 = setup_of S" "net S0 = n" "no_topology S0" "appsMgr S0 = init_AppsManager"
    using k0 assms(3) by (simp_all add: untouched_def)
  then have z: "meshSize S0 = meshSize S" "staSize S0 = staSize S" by (simp_all add: setup_of_def)
  have "fst (configureWifiStdAndRateControl (meshWifiConfig S0))" "fst (configureWifiPhy (phy_attribs (meshWifiConfig S0)))"
    using a(2) S0(2) by (simp_all add: wifi_accepted_def)
  from CreateMesh_ok [OF this] obtain S1 where S1: "CreateMesh ?N S0 = Inr S1" by blast
  from built_plan [OF assms(1) _ s0(3) S1] assms(2) s0(2) z a(1) obtain S3 T where
    b: "bindE (CreateBackhaul ?N (CreateStas ?N S1)) (CreateWiredStas ?N) = Inr S3"
    and T: "AssignAddresses ?N (CreateStack ?N S3) = Inr T" "plan_holds ?N ?m ?s T" by auto
  from b obtain S2 where c: "CreateBackhaul ?N (CreateStas ?N S1) = Inr S2" "CreateWiredStas ?N S2 = Inr S3" by auto
  have s3: "setup_of S3 = setup_of S" "appsMgr S3 = init_AppsManager"
    using CreateMesh_setup [OF S1] CreateStas_setup [of ?N S1] CreateBackhaul_setup [OF c(1)] CreateWiredStas_setup [OF c(2)] s0
    by simp_all
  then have r3: "routing_cfg S3 = routing_cfg S" by (simp add: setup_of_def)
  have dom: "dom (node_at ?N T) = set (documented ?m ?s)" using T(2) by (simp add: plan_holds_def)
  obtain S4 where S4: "CreateInterfaces ?N (se_tables E) S3 = Inr S4"
    using CreateInterfaces_result [OF T(1), of "se_tables E"] assms(5) a(4) dom r3
    by (cases "CreateInterfaces ?N (se_tables E) S3") simp_all
  from CreateInterfaces_setup [OF S4] T(1) s3 have k4: "setup_of S4 = setup_of S" "S4 = T\<lparr>ms_log := ms_log S4\<rparr>" "appsMgr T = init_AppsManager"
    by auto
  have m4: "appsMgr S4 = init_AppsManager" "node_at ?N S4 = node_at ?N T" by (subst k4(2), simp add: k4(3))+
  have c4: "appsCfg S4 = appsCfg S" using k4(1) by (simp add: setup_of_def)
  have n4: "(\<lambda>ip. map_option (dev_node ?N (net S4)) (map_of (addr2netdev ?N S4) ip)) = node_at ?N S4"
    by (simp add: node_at_def fun_eq_iff)
  have "apps_accepted (se_apps E) (node_at ?N S4) (appsCfg S)"
    using a(5) dom m4(2) by (subst apps_accepted_cong [of _ "\<lambda>ip. if ip \<in> set (documented ?m ?s) then Some 0 else None"]) auto
  from createApps_accepts [OF assms(6,7) this] obtain M where
    "createApps (se_apps E) (node_at ?N S4) (appsCfg S) (setOutDir (outDir S4) init_AppsManager) = Inr M" by blast
  then have "InstallApps ?N (se_apps E) S4 = Inr (S4\<lparr>appsMgr := M\<rparr>)"
    by (simp add: InstallApps_def Let_def n4 c4 m4(1))
  then show ?thesis
    using S0(1) S1 c S4 by (simp add: CreateSim_def Let_def or_crash_def)
qed

section \<open>The program\<close>

text \<open>The last calls of a run.\<close>

definition run_calls :: "('d, 'n) MeshSim \<Rightarrow> 'd sim_call list" where
  "run_calls S = [ConfigureAttributes, Message (''Running the Simulation.'' @ [newline]), StartProgressReport, InstallFlowMonitor,
     StopAt (simDuration S), RunEvents, SerializeToXmlFile (outDir S @ ''/flowdata.xml''), DestroySimulator]"

lemma main_phases:
  assumes "main_mesh_sim parse path_exists is_directory L E argv S0 = Inr (status, Some S)"
  obtains S1 S2 S3 where "ProcessCommandLineArgs parse path_exists is_directory argv S0 = Inr S1"
    and "LoadConfig L (emit [ConfigureDefaults] S1) = Inr S2"
    and "CreateSim E (emit [Message (''Creating the Simulation setup...'' @ [newline])] S2) = Inr S3"
    and "status = 0" and "S = S3\<lparr>ms_log := ms_log S3 @ run_calls S3\<rparr>"
  using assms that
  by (auto simp: main_mesh_sim_def exit_failure_def run_calls_def Run_sim_def emit_def split: sum.splits cfg_error.splits)

lemma installed_documented:
  assumes "installed N S" and "plan_holds N m s S"
  shows "app_ip ` set (cfg_apps (appsCfg S)) \<subseteq> set (documented m s)"
proof -
  have "\<forall>a \<in> set (cfg_apps (appsCfg S)). node_at N S (app_ip a) \<in> set (map Some (map fst (am_hosts (appsMgr S))))"
    using assms(1) unfolding installed_def Let_def by (metis image_eqI set_map)
  then have "app_ip ` set (cfg_apps (appsCfg S)) \<subseteq> dom (node_at N S)" by (auto simp: dom_def)
  with assms(2) show ?thesis by (simp add: plan_holds_def)
qed

lemma main_total:
  assumes "net_laws (se_net E)" and "fresh_net (se_net E) n" and "options_only parse"
    and "kind_contract (se_apps E)" and "\<forall>f. can_open (se_apps E) f"
    and "ProcessCommandLineArgs parse path_exists is_directory argv (init_MeshSim sixty no_mobility n) = Inr S1"
    and "LoadConfig L (emit [ConfigureDefaults] S1) = Inr S2" and "sim_accepted E S2"
    and "visits_table (se_tables E) (tables (routing_cfg S2))"
  shows "\<exists>S. main_mesh_sim parse path_exists is_directory L E argv (init_MeshSim sixty no_mobility n) = Inr (0, Some S)
    \<and> RunEvents \<in> set (ms_log S)"
proof -
  have "untouched n (init_MeshSim sixty no_mobility n)" by (simp add: init_MeshSim_def untouched_def no_topology_def)
  from ProcessCommandLineArgs_phase [OF assms(6,3) this] have "untouched n S1" by (simp add: init_MeshSim_def)
  then have u: "untouched n S2"
    using LoadConfig_phase(1) [OF assms(7), of n] by (simp add: untouched_def no_topology_def emit_def)
  let ?S2 = "emit [Message (''Creating the Simulation setup...'' @ [newline])] S2"
  have "untouched n ?S2" using u by (simp add: untouched_def no_topology_def emit_def)
  moreover have "sim_accepted E ?S2" using assms(8) by (simp add: sim_accepted_def emit_def)
  moreover have "visits_table (se_tables E) (tables (routing_cfg ?S2))" using assms(9) by simp
  ultimately obtain S3 where "CreateSim E ?S2 = Inr S3" using CreateSim_total [OF assms(1,2)] assms(4,5) by blast
  then show ?thesis using assms(6,7) by (simp add: main_mesh_sim_def Run_sim_def emit_def)
qed



section \<open>An instance\<close>

definition example_files :: "string \<Rightarrow> string option" where
  "example_files = map_of [(''cfg/mesh_mobility.txt'', example_mobility), (''cfg/sta_mobility.txt'', example_mobility),
     (''cfg/apps.txt'', write_lines example_apps_lines), (''cfg/routing.txt'', write_lines (concat (map write_block example_blocks))),
     (''cfg/mesh_wifi.txt'', example_wifi), (''cfg/apsta_wifi.txt'', example_wifi)]"

definition example_load :: "int load_env" where
  "example_load = \<lparr>le_files = example_files, le_boost = example_boost, le_oor = (\<lambda>_. 0), le_visit = rev, le_alloc = example_alloc_env\<rparr>"

definition example_sim_env :: "example_net sim_env" where
  "example_sim_env = \<lparr>se_net = example_topology, se_tables = (\<lambda>t. map (\<lambda>a. (a, the (t a))) (filter (\<lambda>a. t a \<noteq> None) (documented 2 1))),
     se_devs = (\<lambda>m. m), se_apps = checking_ns3\<rparr>"

definition example_parse :: "string list \<Rightarrow> string list \<Rightarrow> (int, example_net) MeshSim \<Rightarrow> (int, example_net) MeshSim \<times> string list" where
  "example_parse opts argv S = (S\<lparr>meshSize := 2, staSize := 1\<rparr>, argv)"

definition example_main :: "fault + (int \<times> (int, example_net) MeshSim option)" where
  "example_main = main_mesh_sim example_parse (\<lambda>d. d = ''res'') (\<lambda>d. d = ''res'') example_load example_sim_env [''cfg'', ''res'']
     (init_MeshSim 60 \<lparr>mh_alloc = None, mh_model = ''''\<rparr> \<lparr>en_nodes = 0, en_devs = [], en_ifs = []\<rparr>)"

definition example_wifi_loaded :: wifiConfig where
  "example_wifi_loaded = (case loadWifiConfig example_boost init_wifiConfig (Some example_wifi) of Inr c \<Rightarrow> c | Inl _ \<Rightarrow> init_wifiConfig)"

lemma example_wifi_loads:
  "loadWifiConfig example_boost init_wifiConfig (Some example_wifi) = Inr example_wifi_loaded" "wifi_accepted example_wifi_loaded"
proof -
  have "\<not> isl (loadWifiConfig example_boost init_wifiConfig (Some example_wifi))" by code_simp
  then show "loadWifiConfig example_boost init_wifiConfig (Some example_wifi) = Inr example_wifi_loaded"
    by (auto simp: example_wifi_loaded_def isl_def split: sum.splits)
qed code_simp

lemma example_routes:
  obtains cfg where "loadRoutingConfig example_boost (\<lambda>_. 0) init_routingConfig (Some (write_lines (concat (map write_block example_blocks)))) = Inr cfg"
    and "dom (tables cfg) \<subseteq> {167837953}"
proof -
  have len: "list_all (\<lambda>b. list_all entry_length_ok (snd b)) example_blocks" by code_simp
  from loadRoutingConfig_blocks [OF example_boost_laws len, where oor = "\<lambda>_. 0"] obtain cfg where
    c: "loadRoutingConfig example_boost (\<lambda>_. 0) init_routingConfig (Some (write_lines (concat (map write_block example_blocks)))) = Inr cfg"
      "\<forall>ip. table_at cfg ip = concat (map (\<lambda>b. if fst b = ip then map fst (snd b) else []) example_blocks)" by blast
  have "routing_ok (0, init_routingConfig)" by (simp add: routing_ok_def init_routingConfig_def)
  let ?file = "write_lines (concat (map write_block example_blocks))"
  have "case config_loop example_boost (load_routing_line example_boost (\<lambda>_. 0)) (0, init_routingConfig) ?file of
      Inl e \<Rightarrow> e \<in> routing_errors | Inr st \<Rightarrow> routing_ok st"
    by (rule routing.load_inv_errs [OF example_boost_laws \<open>routing_ok _\<close>])
  with c(1) obtain ro where "routing_ok (ro, cfg)" by (auto simp: loadRoutingConfig_def)
  then have "table_at cfg ip \<noteq> []" if "ip \<in> dom (tables cfg)" for ip
    using that by (auto simp: routing_ok_def table_at_def)
  moreover have "table_at cfg ip = []" if "ip \<noteq> 167837953" for ip using c(2) that by (simp add: example_blocks_def)
  ultimately have "dom (tables cfg) \<subseteq> {167837953}" by blast
  with c(1) that show thesis by blast
qed

lemma example_visits:
  assumes "dom t \<subseteq> set (documented 2 1)"
  shows "visits_table (se_tables example_sim_env) t"
proof -
  let ?as = "filter (\<lambda>a. t a \<noteq> None) (documented 2 1)"
  have "distinct ?as" using distinct_documented_iff [of 2 1] by simp
  moreover have "map_of (map (\<lambda>a. (a, the (t a))) ?as) = t"
  proof
    fix x
    show "map_of (map (\<lambda>a. (a, the (t a))) ?as) x = t x"
      using assms by (cases "t x") (auto simp: map_of_map_restrict restrict_map_def)
  qed
  ultimately show ?thesis by (simp add: visits_table_def example_sim_env_def comp_def)
qed

lemma example_planned: "{167837953, 167838721} \<subseteq> set (documented 2 1)"
proof -
  have "ip4 10 1 1 (1 + 0) \<in> set (documented 2 1)" "ip4 10 1 4 (1 + 0) \<in> set (documented 2 1)"
    unfolding documented_def by force+
  then show ?thesis by (simp add: ip4_def)
qed

lemma example_options: "options_only example_parse"
  unfolding options_only_def
proof (intro allI)
  fix argv and S :: "(int, example_net) MeshSim"
  show "\<exists>d m s c p q r. fst (example_parse options argv S) =
      S\<lparr>simDuration := d, meshSize := m, staSize := s, cwmin := c, enablePcap := p, promiscuousMode := q, useRadioTap := r\<rparr>"
    by (intro exI [of _ "simDuration S"] exI [of _ 2] exI [of _ 1] exI [of _ "cwmin S"] exI [of _ "enablePcap S"]
        exI [of _ "promiscuousMode S"] exI [of _ "useRadioTap S"]) (simp add: example_parse_def)
qed

definition example_start :: "(int, example_net) MeshSim" where
  "example_start = init_MeshSim 60 \<lparr>mh_alloc = None, mh_model = ''''\<rparr> \<lparr>en_nodes = 0, en_devs = [], en_ifs = []\<rparr>"

definition example_sized :: "(int, example_net) MeshSim" where
  "example_sized = example_start\<lparr>meshSize := 2, staSize := 1, outDir := ''res'', configDir := ''cfg''\<rparr>"

lemma example_args:
  "ProcessCommandLineArgs example_parse (\<lambda>d. d = ''res'') (\<lambda>d. d = ''res'') [''cfg'', ''res''] example_start = Inr example_sized"
  by (simp add: ProcessCommandLineArgs_def example_parse_def example_sized_def example_start_def init_MeshSim_def)

lemma example_loaded:
  obtains S where "LoadConfig example_load (emit [ConfigureDefaults] example_sized) = Inr S" and "sim_accepted example_sim_env S"
    and "dom (tables (routing_cfg S)) \<subseteq> {167837953}" and "length (cfg_apps (appsCfg S)) = 2" and "meshSize S = 2" and "staSize S = 1"
proof -
  let ?h = "\<lparr>mh_alloc = None, mh_model = ''''\<rparr> :: int MobilityHelper"
  obtain h where h: "configureMobilityHelper example_alloc_env example_boost ?h (Some example_mobility) = Inr h"
    using example_mobility_loads(1) by (auto simp: isl_def) (metis sum.exhaust)
  obtain cfg where r: "loadRoutingConfig example_boost (\<lambda>_. 0) init_routingConfig (Some (write_lines (concat (map write_block example_blocks)))) = Inr cfg"
    "dom (tables cfg) \<subseteq> {167837953}" by (rule example_routes)
  obtain apps where a: "loadAppsConfig example_boost rev (\<lambda>_. 0) empty_apps (Some (write_lines example_apps_lines)) = Inr apps"
    "apps = \<lparr>cfg_apps =
        [\<lparr>app_tag = ''srv'', app_type = APP_FILE_SERVER, app_ip = 167837953,
           app_attribs = [(''A'', ''2''), (''StartTime'', ''20s'')]\<rparr>,
         \<lparr>app_tag = ''cl'', app_type = APP_CLIENT, app_ip = 167838721, app_attribs = [(''StartTime'', ''20s'')]\<rparr>],
       cfg_conns = [\<lparr>senders = [''srv''], receivers = [''cl'']\<rparr>]\<rparr>" using example_apps_load by blast
  let ?S = "(emit [ConfigureDefaults] example_sized)\<lparr>meshMobilityHelper := h, staMobilityHelper := h, appsCfg := apps, routing_cfg := cfg,
     meshWifiConfig := example_wifi_loaded, apStaWifiConfig := example_wifi_loaded\<rparr>"
  have l: "LoadConfig example_load (emit [ConfigureDefaults] example_sized) = Inr ?S"
    using h r(1) a(1) example_wifi_loads(1)
    by (simp add: LoadConfig_def example_load_def example_files_def emit_def example_sized_def example_start_def init_MeshSim_def)
  let ?f = "\<lambda>ip. if ip \<in> set (documented 2 1) then Some 0 else None :: nat option"
  have "distinct (map app_tag (cfg_apps apps))" "list_all (conn_accepted (types_of (cfg_apps apps))) (cfg_conns apps)"
    unfolding a(2) by code_simp+
  moreover have "list_all (app_accepted checking_ns3 ?f) (cfg_apps apps)"
    using example_planned by (simp add: a(2) app_accepted_def has_attribute_def checking_ns3_def attribute_tables)
  ultimately have "apps_accepted checking_ns3 ?f apps" by (simp add: apps_accepted_def)
  then have "sim_accepted example_sim_env ?S"
    using r(2) example_planned example_wifi_loads(2)
    by (simp add: sim_accepted_def plan_fits_def example_sim_env_def example_sized_def emit_def subset_trans)
  with that [OF l] r(2) a(2) show thesis by (simp add: example_sized_def emit_def)
qed

lemma example_main_ok:
  obtains S where "LoadConfig example_load (emit [ConfigureDefaults] example_sized) = Inr S" and "sim_accepted example_sim_env S"
    and "visits_table (se_tables example_sim_env) (tables (routing_cfg S))" and "length (cfg_apps (appsCfg S)) = 2"
    and "meshSize S = 2" and "staSize S = 1"
proof -
  obtain S where S: "LoadConfig example_load (emit [ConfigureDefaults] example_sized) = Inr S" "sim_accepted example_sim_env S"
    "dom (tables (routing_cfg S)) \<subseteq> {167837953}" "length (cfg_apps (appsCfg S)) = 2" "meshSize S = 2" "staSize S = 1"
    by (rule example_loaded)
  have "dom (tables (routing_cfg S)) \<subseteq> set (documented 2 1)" using S(3) example_planned by blast
  from that [OF S(1,2) example_visits [OF this] S(4-6)] show thesis .
qed

lemma example_environment:
  "net_laws (se_net example_sim_env)" "fresh_net (se_net example_sim_env) \<lparr>en_nodes = 0, en_devs = [], en_ifs = []\<rparr>"
  "kind_contract (se_apps example_sim_env)" "\<forall>f. can_open (se_apps example_sim_env) f" "boost_laws (le_boost example_load)"
  using example_net_laws checking_ns3_contract example_boost_laws
  by (simp_all add: example_sim_env_def example_load_def fresh_net_def example_topology_def)



end
