(* ===== verification/Spec2Isabelle.thy ===== *)
theory Spec2Isabelle
  imports Trace_Files Packet_Sink Bulk_Send On_Off_Losses Progress_Report Main_Run
begin

text \<open>
  MeshSim: a simulator of multi-hop wireless meshes on top of ns-3.

  The program. \<open>sim/main.cc\<close> makes one \<open>MeshSim\<close> (\<open>sim/mesh_sim.cc\<close>), which parses the command line,
  loads six configuration files through the loaders of \<open>sim/\<close>, builds a network of mesh nodes,
  stations, wired stations and a backhaul node with the helpers of ns-3, gives every interface an
  address and every node its static routes, lets an \<open>AppsManager\<close> (\<open>sim/apps_manager.cc\<close>) create and
  connect the applications, prepares packet traces, and runs the simulator. The applications are
  in \<open>ns3_apps/\<close>: a bulk sender, an on-off sender, a packet sink, and three proxies on the common base
  \<open>ProxyBase\<close>: the RaptorQ encoder, the RaptorQ decoder and the time-sliced proxy. While the simulator
  runs it calls the handlers of the applications; \<open>AppRxCb\<close> and \<open>AppRqDecCb\<close> are attached to the trace
  sources of the receivers and write the trace files.

  How it is modelled. A class is a record and a subclass an extension of the record of its base
  class; a method is a function from the state, and from what ns-3 answers to its calls, to the new
  state and the list of calls, packets or trace events it makes. A run that is aborted, by an
  assertion, a fatal error, an index out of bounds, a null pointer, an uncaught exception or a loop
  without end, is a value of \<open>fault\<close>; a loader also has \<open>ReturnFalse\<close> for an error it reports itself.
  The machine integers are words wherever their width matters; counters that start at zero and
  grow by one per packet are \<open>int\<close>. A \<open>Time\<close> is its nanoseconds. The event loop of the simulator is a
  step relation with its reachable states for the time-sliced proxy and the on-off sender.

  Theories, with the code they model.

    \<^item> \<open>Prelude\<close>: machine integers, error propagation (\<open>bindE\<close>, \<open>foldE\<close>), decimal printing. \<open>Ns3_Env\<close>: faults,
      addresses, socket calls and attributes as the applications see them.
    \<^item> \<open>Rq_Header\<close>: \<open>ns3_apps/rq-header\<close>. The buffer iterator of ns-3 is the locale \<open>buffer_iterator\<close>.
    \<^item> \<open>Proxy_Base\<close>: \<open>ns3_apps/proxy-base\<close>; the locale \<open>attr_store\<close> is what an attribute accessor promises.
    \<^item> \<open>Rq_Encoder\<close> and \<open>Rq_Decoder\<close>: \<open>ns3_apps/rq-encoder\<close>, \<open>ns3_apps/rq-decoder\<close>. \<open>Rq_Decoding\<close>: both together.
    \<^item> \<open>Timed_Proxy\<close>: \<open>ns3_apps/timed-proxy\<close>. \<open>Stream_Path\<close>: encoder, any number of proxies, decoder.
      \<open>Decoding_Log\<close>: the log file of a decoder; \<open>Trace_Files\<close>: both trace files of a coded connection.
    \<^item> \<open>Packet_Sink\<close>, \<open>Bulk_Send\<close>, \<open>On_Off\<close>: \<open>ns3_apps/packet-sink\<close>, \<open>ns3_apps/bulk-send-application\<close>,
      \<open>ns3_apps/onoff-application\<close>.
    \<^item> \<open>Binary_Heap\<close>: \<open>push_heap\<close> and \<open>pop_heap\<close> with their contract \<open>heap_ops\<close>; \<open>App_Rx_Cb\<close>: \<open>sim/app_rx_cb\<close>;
      \<open>On_Off_Losses\<close>: the loss log of a stream of the on-off sender; \<open>App_Rq_Dec_Cb\<close>: \<open>sim/app_rq_dec_cb\<close>.
    \<^item> \<open>Io_Utils\<close>, \<open>Ip_Addr\<close>: \<open>sim/io_utils.cc\<close>. \<open>Ns3_Config\<close>: \<open>sim/ns3object_config\<close>, \<open>sim/ns3_utils\<close>, and the
      locale \<open>config_loader\<close> that all loaders of line-oriented files interpret. \<open>Wifi_Config\<close>,
      \<open>Routing_Config\<close>, \<open>Apps_Config\<close>, \<open>Mobility_Config\<close>: the loaders \<open>sim/wifi_config\<close>, \<open>sim/routing_config\<close>,
      \<open>sim/apps_config\<close>, \<open>sim/mobility_config\<close>.
    \<^item> \<open>Apps_Manager\<close>: \<open>sim/apps_manager\<close>. \<open>Apps_Connect\<close>: what its connections achieve; \<open>Apps_Created\<close>: names,
      hosts and undefined tags; \<open>Apps_Accepted\<close>: which configurations it accepts.
    \<^item> \<open>Mesh_Net\<close>: the helpers of ns-3 that build a network. \<open>Mesh_Sim\<close>: \<open>sim/mesh_sim\<close> and \<open>sim/main.cc\<close>.
      \<open>Mesh_Plan\<close>: the address plan; \<open>Mesh_Routes\<close>: routes and packet traces; \<open>Main_Run\<close>: whole runs.
    \<^item> \<open>Progress_Report\<close>: \<open>sim/progress_report\<close>.

  What the lemmas show.

    \<^item> The coded stream. A header survives its wire format. The encoder refines an abstract block
      code: its packets are, without a gap, the packets of an assignment of source slots to blocks.
      The decoder credits every stream exactly its recoverable source packets, whatever is lost, and
      so does the composition with any number of proxies and lossy links between them. Credited
      bytes are forwarded without loss; the counters keep their invariant; success is traced for
      exactly the complete blocks and logged once per block.
    \<^item> The trace files. Line by line, the decoding log is a function of the packets that arrive; over
      encoder, proxies, decoder and both trace sinks, the loss file lists precisely the lost packets.
    \<^item> The proxies and end applications. The timed proxy is first in first out, sends only in active
      slots, and is never stuck; the search for a slot returns the earliest one or does not end. The
      bulk sender returns and stops exactly at its limit; the on-off sender keeps its limit to
      within a packet; a sink counts what it reads and closes what it opened.
    \<^item> The loss log refines a window that is a multiset: exactly the missing numbers are reported.
    \<^item> The configuration. A loader sees the directives of its file and nothing else; what each file
      means; which errors a loader can make (the interpretations of \<open>config_loader\<close>).
    \<^item> The manager. Every connection holds in the end, its names are attributes of the classes, every
      application is on its host, no two trace files share a name, and a configuration whose
      applications and roles are sensible is always accepted.
    \<^item> The network and the program. The topology has exactly the addresses of the README, routes go to
      the owners of their tables, every interface has a trace file of its own. A run of \<open>main\<close> that
      ends simulated what the files and the plan say; a sensible configuration always gets there.

  Parameters, each with an instance that satisfies what is assumed of it. \<open>boost_laws\<close> is what the
  documentation of boost says of \<open>trim\<close> and \<open>split\<close>; \<open>net_laws\<close> what ns-3 says of its topology and
  address helpers; \<open>ns3_contract\<close> and \<open>kind_contract\<close> what its attribute checkers do; \<open>visits_all\<close> and
  \<open>visits_table\<close> that a loop over an \<open>unordered_map\<close> visits each entry once. \<open>alloc_env\<close> answers for the
  object factory and \<open>std::stod\<close>, \<open>rate_arith\<close> and \<open>duration\<close> for the conversions between bits and
  time, \<open>oor\<close> for what \<open>sscanf\<close> stores for a number out of range, the send functions and the
  environments of the handlers for sockets. \<open>options_only\<close> says that parsing assigns option variables.

  Bounds. The send loop of the bulk sender and the probe loop of the encoder are partial functions,
  and theorems give the cases in which they return; the slot search of the timed proxy is total,
  with the case without an active slice, in which the code does not return, as a fault. The sizes
  of the address plan are exact (\<open>plan_fits\<close>): among at most 254 mesh nodes and 154 stations, whose host
  numbers stay in the networks, the construction succeeds for 1 to 100 mesh nodes and up to 100 stations or
  without stations, since the stations start at host 101 of two networks, and aborts otherwise. Proxies have eight slots each way. Decoder theorems hold below sequence number
  \<open>2 ^ 31\<close>, where the code starts to drop packets; connections need their ports, from 1001 on, to fit 16
  bits. No fuel is used.

  Not modelled. ns-3 itself: channels, MAC and routing protocols, sockets, the scheduler. The calls
  that configure it are recorded with their arguments, as are those of the \<open>ConfigStore\<close> in \<open>main\<close>. The
  texts of error messages on the standard error stream, log macros, reference counting, and
  destructors that only log. \<open>sim/ns3_all.h\<close> is a list of includes. The configuration generator,
  the scripts and the build files are not part of the C++ program. The RaptorQ code proper is
  not in the program either: the encoder sends dummy payloads and the decoder counts packets.
\<close>

end
